(* ===== verification/SLPP_Prelude.thy ===== *)
theory SLPP_Prelude
  imports Main "HOL-Library.Word"
begin

unbundle bit_operations_syntax

text \<open>
  Vocabulary shared by the theories of the development: bytes and machine words, Go strings
  as character lists and their conversion to bytes, big-endian integers as
  \<^verbatim>\<open>encoding/binary\<close> reads and writes them, the error values the program returns, and
  the \<^verbatim>\<open>io.Reader\<close> and \<^verbatim>\<open>io.Writer\<close> ends of a byte stream with
  \<^verbatim>\<open>io.ReadFull\<close>.  The named theorem collections are the hints the component proofs use.
\<close>

named_theorems go_consts \<open>values of the program's constants\<close>
named_theorems wire \<open>round trips of the wire encodings\<close>

type_synonym byte = "8 word"
type_synonym u16 = "16 word"
type_synonym u32 = "32 word"
type_synonym u64 = "64 word"

section \<open>Go strings and byte slices\<close>

text \<open>
  A Go string is a sequence of bytes; it is modelled as an Isabelle \<^typ>\<open>string\<close>, whose
  characters are bytes.  The conversions \<^verbatim>\<open>[]byte(s)\<close> and \<^verbatim>\<open>string(b)\<close> are inverse.
\<close>

definition bytes_of_string :: "string \<Rightarrow> byte list" where
  "bytes_of_string s = map of_char s"

definition string_of_bytes :: "byte list \<Rightarrow> string" where
  "string_of_bytes b = map (\<lambda>w. char_of (unat w)) b"

lemma unat_of_char [simp]: "unat (of_char c :: byte) = of_char c"
proof -
  have "unat (of_nat (of_char c) :: byte) = of_char c"
    by (simp add: unat_of_nat)
  then show ?thesis by (simp only: of_nat_of_char)
qed

lemma char_of_unat_of_char [simp]: "char_of (unat (of_char c :: byte)) = c"
  by simp

lemma of_char_char_of_unat [simp]: "of_char (char_of (unat w) :: char) = (w :: byte)"
proof -
  have "unat w < 256" using unsigned_less [of w, where ?'a = nat] by simp
  then have "(of_char (char_of (unat w)) :: nat) = unat w"
    by (simp add: of_char_of take_bit_eq_mod)
  then have "of_nat (of_char (char_of (unat w))) = w"
    by simp
  then show ?thesis by (simp only: of_nat_of_char)
qed

lemma string_of_bytes_of_string [simp]: "string_of_bytes (bytes_of_string s) = s"
  by (induction s) (simp_all add: string_of_bytes_def bytes_of_string_def)

lemma bytes_of_string_of_bytes [simp]: "bytes_of_string (string_of_bytes b) = b"
  by (induction b) (simp_all add: string_of_bytes_def bytes_of_string_def)

lemma length_bytes_of_string [simp]: "length (bytes_of_string s) = length s"
  by (simp add: bytes_of_string_def)

lemma length_string_of_bytes [simp]: "length (string_of_bytes b) = length b"
  by (simp add: string_of_bytes_def)

lemma bytes_of_string_inject [simp]: "bytes_of_string s = bytes_of_string t \<longleftrightarrow> s = t"
  by (metis string_of_bytes_of_string)

lemma bytes_of_string_Nil [simp]: "bytes_of_string [] = []"
  by (simp add: bytes_of_string_def)

text \<open>The slice expression \<^verbatim>\<open>b[i:j]\<close>, for \<open>i \<le> j \<le> length b\<close>.\<close>

definition go_slice :: "nat \<Rightarrow> nat \<Rightarrow> 'a list \<Rightarrow> 'a list" where
  "go_slice i j b = take (j - i) (drop i b)"

lemma length_go_slice [simp]: "length (go_slice i j b) = min (j - i) (length b - i)"
  by (simp add: go_slice_def)

lemma drop_go_slice: "i \<le> j \<Longrightarrow> drop i b = go_slice i j b @ drop j b"
  using append_take_drop_id [of "j - i" "drop i b"] by (simp add: go_slice_def)

lemma go_slice_append_left: "length a = i \<Longrightarrow> length b = j - i \<Longrightarrow> go_slice i j (a @ b @ c) = b"
  by (simp add: go_slice_def)

text \<open>The lower case of an ASCII letter; other bytes stay as they are.\<close>

definition ascii_lower :: "char \<Rightarrow> char" where
  "ascii_lower c =
     (let n = of_char c :: nat in if 65 \<le> n \<and> n \<le> 90 then char_of (n + 32) else c)"

section \<open>Big-endian integers\<close>

text \<open>\<^verbatim>\<open>binary.BigEndian\<close>: PutUint16, Uint16, PutUint32 and Uint32, on whole slices.\<close>

definition put_u16 :: "u16 \<Rightarrow> byte list" where
  "put_u16 v = [ucast (drop_bit 8 v), ucast v]"

fun get_u16 :: "byte list \<Rightarrow> u16" where
  "get_u16 (a # b # _) = ucast b OR push_bit 8 (ucast a)"
| "get_u16 _ = 0"

definition put_u32 :: "u32 \<Rightarrow> byte list" where
  "put_u32 v = [ucast (drop_bit 24 v), ucast (drop_bit 16 v), ucast (drop_bit 8 v), ucast v]"

fun get_u32 :: "byte list \<Rightarrow> u32" where
  "get_u32 (a # b # c # d # _) =
     ucast d OR push_bit 8 (ucast c) OR push_bit 16 (ucast b) OR push_bit 24 (ucast a)"
| "get_u32 _ = 0"

lemma length_put_u16 [simp]: "length (put_u16 v) = 2"
  by (simp add: put_u16_def)

lemma length_put_u32 [simp]: "length (put_u32 v) = 4"
  by (simp add: put_u32_def)

lemma u16_of_bytes: "ucast (ucast v :: byte) OR push_bit 8 (ucast (ucast (drop_bit 8 v) :: byte)) = (v :: u16)"
  by (rule bit_word_eqI) (auto simp: bit_simps)

lemma u32_of_bytes:
  "ucast (ucast v :: byte) OR push_bit 8 (ucast (ucast (drop_bit 8 v) :: byte))
    OR push_bit 16 (ucast (ucast (drop_bit 16 v) :: byte))
    OR push_bit 24 (ucast (ucast (drop_bit 24 v) :: byte)) = (v :: u32)"
proof (rule bit_word_eqI)
  fix n assume "n < LENGTH(32)"
  then consider "n < 8" | "8 \<le> n" "n < 16" | "16 \<le> n" "n < 24" | "24 \<le> n" "n < 32"
    by fastforce
  then show "bit (ucast (ucast v :: byte) OR push_bit 8 (ucast (ucast (drop_bit 8 v) :: byte))
      OR push_bit 16 (ucast (ucast (drop_bit 16 v) :: byte))
      OR push_bit 24 (ucast (ucast (drop_bit 24 v) :: byte)) :: u32) n = bit v n"
    by cases (auto simp: bit_simps)
qed

lemma get_put_u16 [simp, wire]: "get_u16 (put_u16 v @ bs) = v"
  by (simp add: put_u16_def u16_of_bytes)

lemma get_put_u32 [simp, wire]: "get_u32 (put_u32 v @ bs) = v"
  by (simp add: put_u32_def u32_of_bytes)

lemma get_put_u16_Nil [simp, wire]: "get_u16 (put_u16 v) = v"
  using get_put_u16 [of v "[]"] by simp

lemma get_put_u32_Nil [simp, wire]: "get_u32 (put_u32 v) = v"
  using get_put_u32 [of v "[]"] by simp

lemma bytes_of_u16:
  fixes a b :: byte
  defines "w \<equiv> (ucast b OR push_bit 8 (ucast a) :: u16)"
  shows "ucast (drop_bit 8 w) = a" "ucast w = b"
  unfolding w_def by (rule bit_word_eqI, auto simp: bit_simps simp del: drop_bit_or dest: bit_imp_le_length)+

lemma bytes_of_u32:
  fixes a b c d :: byte
  defines "w \<equiv> (ucast d OR push_bit 8 (ucast c) OR push_bit 16 (ucast b) OR push_bit 24 (ucast a) :: u32)"
  shows "ucast (drop_bit 24 w) = a" "ucast (drop_bit 16 w) = b" "ucast (drop_bit 8 w) = c"
    "ucast w = d"
  unfolding w_def by (rule bit_word_eqI, auto simp: bit_simps simp del: drop_bit_or dest: bit_imp_le_length)+

lemma list_length_2: "length xs = 2 \<longleftrightarrow> (\<exists>a b. xs = [a, b])"
  by (auto simp: numeral_2_eq_2 length_Suc_conv)

lemma list_length_4: "length xs = 4 \<longleftrightarrow> (\<exists>a b c d. xs = [a, b, c, d])"
  by (auto simp: eval_nat_numeral length_Suc_conv)

lemma put_get_u16 [wire]: "length bs = 2 \<Longrightarrow> put_u16 (get_u16 bs) = bs"
  by (auto simp only: list_length_2 put_u16_def bytes_of_u16 get_u16.simps)

lemma put_get_u32 [wire]: "length bs = 4 \<Longrightarrow> put_u32 (get_u32 bs) = bs"
  by (auto simp only: list_length_4 put_u32_def bytes_of_u32 get_u32.simps)

lemma put_get_u16_slice [simp, wire]:
  "j = i + 2 \<Longrightarrow> j \<le> length bs \<Longrightarrow> put_u16 (get_u16 (go_slice i j bs)) = go_slice i j bs"
  by (rule put_get_u16) simp

lemma put_get_u32_slice [simp, wire]:
  "j = i + 4 \<Longrightarrow> j \<le> length bs \<Longrightarrow> put_u32 (get_u32 (go_slice i j bs)) = go_slice i j bs"
  by (rule put_get_u32) simp

lemma put_u16_inject [simp]: "put_u16 v = put_u16 w \<longleftrightarrow> v = w"
  by (metis get_put_u16_Nil)

lemma put_u32_inject [simp]: "put_u32 v = put_u32 w \<longleftrightarrow> v = w"
  by (metis get_put_u32_Nil)

lemma get_u16_take [simp]: "2 \<le> n \<Longrightarrow> get_u16 (take n bs) = get_u16 bs"
  by (cases n; cases "n - 1"; cases bs rule: get_u16.cases) auto

section \<open>Errors\<close>

text \<open>
  The error values of the program.  \<^verbatim>\<open>ErrorNew\<close> stands for \<^verbatim>\<open>errors.New(text)\<close> (compared by
  text), \<^verbatim>\<open>Wrap\<close> for \<^verbatim>\<open>fmt.Errorf("prefix: %w", err)\<close>, and \<^verbatim>\<open>Extern\<close> for an
  error of the operating system or the network that the code only passes on.
\<close>

datatype go_error =
    ErrInvalidVersion
  | ErrInvalidHeader
  | ErrPayloadTooLarge
  | ErrUnknownType
  | ErrQueueFull
  | EOF
  | ErrUnexpectedEOF
  | Canceled
  | DeadlineExceeded
  | ErrorNew string
  | Wrap string go_error
  | Extern string

text \<open>The text of an error, \<^verbatim>\<open>err.Error()\<close>.\<close>

primrec error_text :: "go_error \<Rightarrow> string" where
  "error_text ErrInvalidVersion = ''invalid frame version''"
| "error_text ErrInvalidHeader = ''invalid frame header''"
| "error_text ErrPayloadTooLarge = ''payload too large''"
| "error_text ErrUnknownType = ''unknown frame type''"
| "error_text ErrQueueFull = ''queue full''"
| "error_text EOF = ''EOF''"
| "error_text ErrUnexpectedEOF = ''unexpected EOF''"
| "error_text Canceled = ''context canceled''"
| "error_text DeadlineExceeded = ''context deadline exceeded''"
| "error_text (ErrorNew t) = t"
| "error_text (Wrap p e) = p @ '': '' @ error_text e"
| "error_text (Extern t) = t"

text \<open>\<^verbatim>\<open>errors.Is(err, target)\<close> for a sentinel target: the error or one it wraps.\<close>

fun errors_is :: "go_error \<Rightarrow> go_error \<Rightarrow> bool" where
  "errors_is (Wrap p e) t = (Wrap p e = t \<or> errors_is e t)"
| "errors_is e t = (e = t)"

section \<open>Readers and writers\<close>

text \<open>
  The \<^verbatim>\<open>io.Reader\<close> of a stream is the sequence of bytes it will still deliver and the
  error it delivers after them (\<^verbatim>\<open>io.EOF\<close> when the peer closes, another error when the
  connection breaks).  \<^verbatim>\<open>io.ReadFull\<close> takes exactly \<open>n\<close> bytes or fails: with the stream's
  own error, except that an \<^verbatim>\<open>io.EOF\<close> after some of the bytes is \<^verbatim>\<open>io.ErrUnexpectedEOF\<close>.
\<close>

record reader =
  avail :: "byte list"
  end_err :: go_error

definition read_full :: "nat \<Rightarrow> reader \<Rightarrow> (go_error + byte list) \<times> reader" where
  "read_full n r =
     (if n \<le> length (avail r) then (Inr (take n (avail r)), r\<lparr>avail := drop n (avail r)\<rparr>)
      else (Inl (if avail r \<noteq> [] \<and> end_err r = EOF then ErrUnexpectedEOF else end_err r),
            r\<lparr>avail := []\<rparr>))"

text \<open>
  The \<^verbatim>\<open>io.Writer\<close> of a stream is the bytes written to it and, if it is going to fail, the
  number of bytes it still accepts; the write that passes it is cut short and fails.
\<close>

record writer =
  written :: "byte list"
  room :: "nat option"
  write_err :: go_error

definition write_bytes :: "byte list \<Rightarrow> writer \<Rightarrow> go_error option \<times> writer" where
  "write_bytes bs w =
     (case room w of
        None \<Rightarrow> (None, w\<lparr>written := written w @ bs\<rparr>)
      | Some k \<Rightarrow>
          if length bs \<le> k
          then (None, w\<lparr>written := written w @ bs, room := Some (k - length bs)\<rparr>)
          else (Some (write_err w), w\<lparr>written := written w @ take k bs, room := Some 0\<rparr>))"

lemma read_full_append [simp]:
  "n = length bs \<Longrightarrow> avail r = bs @ rest \<Longrightarrow> read_full n r = (Inr bs, r\<lparr>avail := rest\<rparr>)"
  by (simp add: read_full_def)

lemma read_full_Inr:
  "read_full n r = (Inr bs, r') \<Longrightarrow> length bs = n \<and> avail r = bs @ avail r' \<and> end_err r' = end_err r"
  by (auto simp: read_full_def split: if_splits)

lemma read_full_Inl:
  "read_full n r = (Inl e, r') \<Longrightarrow> length (avail r) < n \<and> avail r' = []"
  by (auto simp: read_full_def split: if_splits)

lemma write_bytes_unlimited [simp]:
  "room w = None \<Longrightarrow> write_bytes bs w = (None, w\<lparr>written := written w @ bs\<rparr>)"
  by (simp add: write_bytes_def)

lemma write_bytes_room [simp]:
  "room w = None \<Longrightarrow> room (snd (write_bytes bs w)) = None"
  by simp

lemma write_bytes_prefix:
  "write_bytes bs w = (e, w') \<Longrightarrow>
     \<exists>k. written w' = written w @ take k bs \<and> (e = None \<longrightarrow> written w' = written w @ bs)"
  by (auto simp: write_bytes_def split: option.splits if_splits intro: exI [of _ "length bs"])

end
