(* ===== verification/SLPP_Frame.thy ===== *)
theory SLPP_Frame
  imports SLPP_Prelude
begin

text \<open>
  The wire frame and its codec: \<^verbatim>\<open>internal/core/constants.go\<close> and
  \<^verbatim>\<open>internal/core/frame.go\<close>.  The locale \<open>frame_codec\<close> is the Go interface
  \<^verbatim>\<open>FrameCodec\<close> with the laws a session relies on; \<^verbatim>\<open>Codec\<close> interprets it.
\<close>

section \<open>Constants\<close>

definition Version :: nat where [simp, go_consts]: "Version = 1"
definition HeaderLen :: nat where [simp, go_consts]: "HeaderLen = 20"
definition MaxPayloadLen :: nat where [simp, go_consts]: "MaxPayloadLen = 16 * 1024"
definition MaxChannelsPerSession :: int where [simp, go_consts]: "MaxChannelsPerSession = 128"
definition MaxQueuedBytesChannel :: int where [simp, go_consts]: "MaxQueuedBytesChannel = 64 * 1024"
definition MaxQueuedBytesSession :: int where [simp, go_consts]: "MaxQueuedBytesSession = 8 * 1024 * 1024"
definition MaxLocalUDPDatagram :: nat where [simp, go_consts]: "MaxLocalUDPDatagram = 1200"
definition DefaultHeartbeatSecs :: int where [simp, go_consts]: "DefaultHeartbeatSecs = 15"
definition DefaultIdleTimeoutSecs :: int where [simp, go_consts]: "DefaultIdleTimeoutSecs = 60"

definition FrameAUTH :: byte where [simp, go_consts]: "FrameAUTH = 0x01"
definition FrameAUTHOK :: byte where [simp, go_consts]: "FrameAUTHOK = 0x02"
definition FrameAUTHERR :: byte where [simp, go_consts]: "FrameAUTHERR = 0x03"
definition FrameSETTINGS :: byte where [simp, go_consts]: "FrameSETTINGS = 0x10"
definition FramePING :: byte where [simp, go_consts]: "FramePING = 0x11"
definition FramePONG :: byte where [simp, go_consts]: "FramePONG = 0x12"
definition FrameOPENTCP :: byte where [simp, go_consts]: "FrameOPENTCP = 0x20"
definition FrameOPENOK :: byte where [simp, go_consts]: "FrameOPENOK = 0x21"
definition FrameOPENERR :: byte where [simp, go_consts]: "FrameOPENERR = 0x22"
definition FrameTCPDATA :: byte where [simp, go_consts]: "FrameTCPDATA = 0x23"
definition FrameTCPCLOSE :: byte where [simp, go_consts]: "FrameTCPCLOSE = 0x24"
definition FrameOPENUDP :: byte where [simp, go_consts]: "FrameOPENUDP = 0x30"
definition FrameUDPDATA :: byte where [simp, go_consts]: "FrameUDPDATA = 0x31"
definition FrameUDPCLOSE :: byte where [simp, go_consts]: "FrameUDPCLOSE = 0x32"
definition FrameERROR :: byte where [simp, go_consts]: "FrameERROR = 0x7E"
definition FrameSESSIONCLOSE :: byte where [simp, go_consts]: "FrameSESSIONCLOSE = 0x7F"

definition KnownFrameType :: "byte \<Rightarrow> bool" where
  "KnownFrameType t \<longleftrightarrow> t \<in> set
     [FrameAUTH, FrameAUTHOK, FrameAUTHERR, FrameSETTINGS, FramePING, FramePONG,
      FrameOPENTCP, FrameOPENOK, FrameOPENERR, FrameTCPDATA, FrameTCPCLOSE,
      FrameOPENUDP, FrameUDPDATA, FrameUDPCLOSE, FrameERROR, FrameSESSIONCLOSE]"

section \<open>Frames\<close>

record frame =
  version :: byte
  ftype :: byte
  flags :: byte
  headerLen :: byte
  sessionID :: u32
  channelID :: u32
  seqNo :: u32
  payload :: "byte list"

text \<open>The composite literal \<^verbatim>\<open>Frame{...}\<close> leaves every field it does not name at zero.\<close>

definition zero_frame :: frame where
  "zero_frame = \<lparr>version = 0, ftype = 0, flags = 0, headerLen = 0,
     sessionID = 0, channelID = 0, seqNo = 0, payload = []\<rparr>"

section \<open>Encode\<close>

text \<open>The first two statements of \<^verbatim>\<open>Encode\<close> fill in a version and a header length left at zero.\<close>

definition frame_defaults :: "frame \<Rightarrow> frame" where
  "frame_defaults f =
     (let f1 = (if version f = 0 then f\<lparr>version := of_nat Version\<rparr> else f)
      in if headerLen f1 = 0 then f1\<lparr>headerLen := of_nat HeaderLen\<rparr> else f1)"

definition frame_header :: "frame \<Rightarrow> byte list" where
  "frame_header f = [version f, ftype f, flags f, headerLen f]
     @ put_u32 (sessionID f) @ put_u32 (channelID f) @ put_u32 (seqNo f)
     @ put_u32 (of_nat (length (payload f)))"

definition Encode :: "frame \<Rightarrow> writer \<Rightarrow> go_error option \<times> writer" where
  "Encode f0 w =
     (let f = frame_defaults f0 in
      if version f \<noteq> of_nat Version then (Some ErrInvalidVersion, w)
      else if \<not> KnownFrameType (ftype f) then (Some ErrUnknownType, w)
      else if length (payload f) > MaxPayloadLen then (Some ErrPayloadTooLarge, w)
      else case write_bytes (frame_header f) w of
             (Some e, w1) \<Rightarrow> (Some e, w1)
           | (None, w1) \<Rightarrow>
               if payload f = [] then (None, w1) else write_bytes (payload f) w1)"

section \<open>Decode\<close>

definition parse_header :: "byte list \<Rightarrow> frame" where
  "parse_header h = \<lparr>version = h ! 0, ftype = h ! 1, flags = h ! 2, headerLen = h ! 3,
     sessionID = get_u32 (go_slice 4 8 h), channelID = get_u32 (go_slice 8 12 h),
     seqNo = get_u32 (go_slice 12 16 h), payload = []\<rparr>"

definition Decode :: "reader \<Rightarrow> (go_error + frame) \<times> reader" where
  "Decode r =
     (case read_full HeaderLen r of
        (Inl e, r1) \<Rightarrow> (Inl e, r1)
      | (Inr h, r1) \<Rightarrow>
          let f = parse_header h in
          if version f \<noteq> of_nat Version then (Inl ErrInvalidVersion, r1)
          else if headerLen f < of_nat HeaderLen then (Inl ErrInvalidHeader, r1)
          else if \<not> KnownFrameType (ftype f) then (Inl ErrUnknownType, r1)
          else let payloadLen = unat (get_u32 (go_slice 16 20 h)) in
            if payloadLen > MaxPayloadLen then (Inl ErrPayloadTooLarge, r1)
            else if payloadLen = 0 then (Inr f, r1)
            else case read_full payloadLen r1 of
                   (Inl e, r2) \<Rightarrow> (Inl (Wrap ''read payload'' e), r2)
                 | (Inr p, r2) \<Rightarrow> (Inr (f\<lparr>payload := p\<rparr>), r2))"

section \<open>The codec's contract\<close>

text \<open>
  \<open>frame_wire f\<close> is what a successful \<^verbatim>\<open>Encode\<close> writes.  \<open>encodable\<close> is the
  condition under which it succeeds on a writer that does not fail; \<open>transmittable\<close> adds that
  a header length the caller set is one the decoder accepts.
\<close>

definition frame_wire :: "frame \<Rightarrow> byte list" where
  "frame_wire f = frame_header (frame_defaults f) @ payload f"

definition encodable :: "frame \<Rightarrow> bool" where
  "encodable f \<longleftrightarrow> (version f = 0 \<or> version f = of_nat Version) \<and> KnownFrameType (ftype f)
     \<and> length (payload f) \<le> MaxPayloadLen"

definition transmittable :: "frame \<Rightarrow> bool" where
  "transmittable f \<longleftrightarrow> encodable f \<and> (headerLen f = 0 \<or> of_nat HeaderLen \<le> headerLen f)"

lemma frame_defaults_simps [simp]:
  "ftype (frame_defaults f) = ftype f" "flags (frame_defaults f) = flags f"
  "sessionID (frame_defaults f) = sessionID f" "channelID (frame_defaults f) = channelID f"
  "seqNo (frame_defaults f) = seqNo f" "payload (frame_defaults f) = payload f"
  "version (frame_defaults f) = (if version f = 0 then 1 else version f)"
  "headerLen (frame_defaults f) = (if headerLen f = 0 then 20 else headerLen f)"
  by (auto simp: frame_defaults_def Let_def)

lemma frame_defaults_idem [simp]: "frame_defaults (frame_defaults f) = frame_defaults f"
  by (rule frame.equality) auto

lemma length_frame_header [simp]: "length (frame_header f) = 20"
  by (simp add: frame_header_def)

lemma frame_header_nonempty [simp]: "frame_header f \<noteq> []"
  by (simp add: frame_header_def)

lemma length_frame_wire: "length (frame_wire f) = 20 + length (payload f)"
  by (simp add: frame_wire_def)

lemma frame_wire_nonempty [simp]: "frame_wire f \<noteq> []"
  by (simp add: frame_wire_def)

lemma Encode_ok:
  "encodable f \<Longrightarrow> room w = None \<Longrightarrow>
     Encode f w = (None, w\<lparr>written := written w @ frame_wire f\<rparr>)"
  by (auto simp: Encode_def encodable_def frame_wire_def Let_def)

lemma Encode_not_encodable:
  "\<not> encodable f \<Longrightarrow>
     \<exists>e \<in> {ErrInvalidVersion, ErrUnknownType, ErrPayloadTooLarge}. Encode f w = (Some e, w)"
  by (auto simp: Encode_def encodable_def Let_def)

lemma unat_u32_of_len: "n \<le> 16384 \<Longrightarrow> unat (of_nat n :: u32) = n"
  by (simp add: unat_of_nat take_bit_nat_eq_self)

lemma header_fields:
  "frame_header f ! 0 = version f" "frame_header f ! 1 = ftype f" "frame_header f ! 2 = flags f"
  "frame_header f ! 3 = headerLen f"
  "get_u32 (go_slice 4 8 (frame_header f)) = sessionID f"
  "get_u32 (go_slice 8 12 (frame_header f)) = channelID f"
  "get_u32 (go_slice 12 16 (frame_header f)) = seqNo f"
  "get_u32 (go_slice 16 20 (frame_header f)) = of_nat (length (payload f))"
  by (simp_all add: frame_header_def go_slice_def)

lemma parse_frame_header [simp, wire]: "parse_header (frame_header f) = f\<lparr>payload := []\<rparr>"
  by (rule frame.equality) (simp_all add: parse_header_def header_fields header_fields(2) [unfolded One_nat_def])

lemma Decode_wire:
  assumes "transmittable f" and "avail r = frame_wire f @ rest"
  shows "Decode r = (Inr (frame_defaults f), r\<lparr>avail := rest\<rparr>)"
proof -
  let ?d = "frame_defaults f"
  have rd: "read_full HeaderLen r = (Inr (frame_header ?d), r\<lparr>avail := payload f @ rest\<rparr>)"
    using assms(2) by (simp add: frame_wire_def)
  have ok: "version ?d = of_nat Version" "\<not> headerLen ?d < of_nat HeaderLen"
    "KnownFrameType (ftype ?d)" "length (payload ?d) \<le> MaxPayloadLen"
    using assms(1) by (auto simp: transmittable_def encodable_def)
  have len: "unat (get_u32 (go_slice 16 20 (frame_header ?d))) = length (payload ?d)"
    using ok(4) by (simp add: header_fields unat_u32_of_len)
  show ?thesis
    unfolding Decode_def rd using ok by (simp add: len Let_def)
qed

lemma Decode_end: "avail r = [] \<Longrightarrow> Decode r = (Inl (end_err r), r)"
  by (simp add: Decode_def read_full_def)

section \<open>Decoding is the inverse of encoding\<close>

lemma slices_of_header:
  assumes "length h = 20"
  shows "h = [h ! 0, h ! 1, h ! 2, h ! 3] @ go_slice 4 8 h @ go_slice 8 12 h @ go_slice 12 16 h
    @ go_slice 16 20 h"
proof -
  have "h = go_slice 0 4 h @ go_slice 4 8 h @ go_slice 8 12 h @ go_slice 12 16 h @ go_slice 16 20 h @ drop 20 h"
    using drop_go_slice [of 0 4 h] drop_go_slice [of 4 8 h] drop_go_slice [of 8 12 h]
      drop_go_slice [of 12 16 h] drop_go_slice [of 16 20 h] by simp
  moreover have "go_slice 0 4 h = [h ! 0, h ! 1, h ! 2, h ! 3]"
    using assms by (intro nth_equalityI) (auto simp: go_slice_def nth_Cons' less_Suc_eq numeral_eq_Suc)
  ultimately show ?thesis using assms by simp
qed

lemma frame_header_parse:
  assumes "length h = 20" and "get_u32 (go_slice 16 20 h) = of_nat (length p)"
  shows "frame_header (parse_header h\<lparr>payload := p\<rparr>) = h"
  using slices_of_header [OF assms(1)] assms
  by (simp add: frame_header_def parse_header_def flip: assms(2))

lemma Decode_Inr:
  assumes "Decode r = (Inr f, r')"
  shows "version f = 1 \<and> 20 \<le> headerLen f \<and> KnownFrameType (ftype f)
    \<and> length (payload f) \<le> 16384 \<and> avail r = frame_wire f @ avail r' \<and> end_err r' = end_err r"
proof -
  obtain h r1 where rd: "read_full HeaderLen r = (Inr h, r1)"
    using assms by (auto simp: Decode_def split: prod.splits sum.splits)
  have h: "length h = 20" and av: "avail r = h @ avail r1" "end_err r1 = end_err r"
    using read_full_Inr [OF rd] by simp_all
  let ?p = "parse_header h" and ?n = "unat (get_u32 (go_slice 16 20 h))"
  have ok: "version ?p = 1" "\<not> headerLen ?p < 20" "KnownFrameType (ftype ?p)" "?n \<le> 16384"
    using assms rd by (auto simp: Decode_def Let_def split: if_splits)
  obtain pl where f: "f = ?p\<lparr>payload := pl\<rparr>" and pl: "length pl = ?n"
    and r': "avail r1 = pl @ avail r'" "end_err r' = end_err r1"
  proof (cases "?n = 0")
    case True
    then have "f = ?p" "r' = r1" using assms rd ok by (auto simp: Decode_def Let_def)
    moreover have "payload ?p = []" by (simp add: parse_header_def)
    ultimately show ?thesis using True by (intro that [of "[]"]) auto
  next
    case False
    then obtain pl where "read_full ?n r1 = (Inr pl, r')" "f = ?p\<lparr>payload := pl\<rparr>"
      using assms rd ok by (auto simp: Decode_def Let_def split: prod.splits sum.splits)
    then show ?thesis using read_full_Inr [of ?n r1 pl r'] by (intro that [of pl]) auto
  qed
  have "frame_header f = h"
    unfolding f by (rule frame_header_parse [OF h]) (simp add: pl)
  moreover have "frame_defaults f = f"
    using ok f by (intro frame.equality) auto
  ultimately show ?thesis
    using ok f pl av r' by (simp add: frame_wire_def)
qed

section \<open>The interface FrameCodec\<close>

text \<open>
  Writing a list of frames one after another, and reading a number of them: what the write
  loop and the read loop of a session do with a codec.
\<close>

primrec write_all ::
  "('f \<Rightarrow> writer \<Rightarrow> go_error option \<times> writer) \<Rightarrow> 'f list \<Rightarrow> writer \<Rightarrow> go_error option \<times> writer"
where
  "write_all enc [] w = (None, w)"
| "write_all enc (f # fs) w =
     (case enc f w of (Some e, w1) \<Rightarrow> (Some e, w1) | (None, w1) \<Rightarrow> write_all enc fs w1)"

primrec read_all ::
  "(reader \<Rightarrow> (go_error + 'f) \<times> reader) \<Rightarrow> nat \<Rightarrow> reader \<Rightarrow> (go_error + 'f list) \<times> reader"
where
  "read_all dec 0 r = (Inr [], r)"
| "read_all dec (Suc n) r =
     (case dec r of
        (Inl e, r1) \<Rightarrow> (Inl e, r1)
      | (Inr f, r1) \<Rightarrow>
          (case read_all dec n r1 of
             (Inl e, r2) \<Rightarrow> (Inl e, r2)
           | (Inr fs, r2) \<Rightarrow> (Inr (f # fs), r2)))"

locale frame_codec =
  fixes encode :: "'f \<Rightarrow> writer \<Rightarrow> go_error option \<times> writer"
    and decode :: "reader \<Rightarrow> (go_error + 'f) \<times> reader"
    and wire_of :: "'f \<Rightarrow> byte list"
    and norm :: "'f \<Rightarrow> 'f"
    and valid :: "'f \<Rightarrow> bool"
  assumes encode_valid: "valid f \<Longrightarrow> room w = None \<Longrightarrow>
      encode f w = (None, w\<lparr>written := written w @ wire_of f\<rparr>)"
    and decode_wire_of: "valid f \<Longrightarrow> avail r = wire_of f @ rest \<Longrightarrow>
      decode r = (Inr (norm f), r\<lparr>avail := rest\<rparr>)"
begin

lemma write_all_valid:
  "\<forall>f \<in> set fs. valid f \<Longrightarrow> room w = None \<Longrightarrow>
     write_all encode fs w = (None, w\<lparr>written := written w @ concat (map wire_of fs)\<rparr>)"
  by (induction fs arbitrary: w) (simp_all add: encode_valid)

lemma read_all_valid:
  "\<forall>f \<in> set fs. valid f \<Longrightarrow> avail r = concat (map wire_of fs) @ rest \<Longrightarrow>
     read_all decode (length fs) r = (Inr (map norm fs), r\<lparr>avail := rest\<rparr>)"
proof (induction fs arbitrary: r)
  case (Cons f fs)
  then have "decode r = (Inr (norm f), r\<lparr>avail := concat (map wire_of fs) @ rest\<rparr>)"
    by (intro decode_wire_of) simp_all
  with Cons show ?case by simp
qed simp

lemma stream_roundtrip:
  assumes "\<forall>f \<in> set fs. valid f" and "room w = None"
    and "avail r = written (snd (write_all encode fs (w\<lparr>written := []\<rparr>))) @ rest"
  shows "read_all decode (length fs) r = (Inr (map norm fs), r\<lparr>avail := rest\<rparr>)"
  using assms by (intro read_all_valid) (simp_all add: write_all_valid)

end

interpretation codec: frame_codec Encode Decode frame_wire frame_defaults transmittable
  by unfold_locales (simp_all add: Encode_ok Decode_wire transmittable_def)

section \<open>Properties of the codec\<close>

text \<open>C14. A list of frames that \<^verbatim>\<open>Encode\<close> writes one after another on a stream is what
  \<^verbatim>\<open>Decode\<close> reads back from it, frame by frame, in order and complete, with the version and
  header length filled in; the reader is left exactly at the bytes that follow.\<close>

theorem codec_stream_roundtrip:
  assumes "\<forall>f \<in> set fs. transmittable f"
    and "room w = None" and "written w = []" and "write_all Encode fs w = (e, w')"
    and "avail r = written w' @ rest"
  shows "e = None \<and>
    read_all Decode (length fs) r = (Inr (map frame_defaults fs), r\<lparr>avail := rest\<rparr>)"
  using codec.write_all_valid [OF assms(1,2)] codec.read_all_valid [OF assms(1), of r rest] assms(3-5)
  by simp

theorem codec_stream_roundtrip_witness:
  "let fs = [zero_frame\<lparr>ftype := FramePING\<rparr>, zero_frame\<lparr>ftype := FrameTCPDATA, payload := [1, 2, 3]\<rparr>];
       w = \<lparr>written = [], room = None, write_err = EOF\<rparr>;
       r = \<lparr>avail = concat (map frame_wire fs) @ [9], end_err = EOF\<rparr>
   in write_all Encode fs w = (None, w\<lparr>written := concat (map frame_wire fs)\<rparr>)
      \<and> read_all Decode 2 r = (Inr (map frame_defaults fs), r\<lparr>avail := [9]\<rparr>)"
proof -
  let ?fs = "[zero_frame\<lparr>ftype := FramePING\<rparr>, zero_frame\<lparr>ftype := FrameTCPDATA, payload := [1, 2, 3]\<rparr>]"
  let ?w = "\<lparr>written = [], room = None, write_err = EOF\<rparr>"
  have ok: "\<forall>f \<in> set ?fs. transmittable f"
    by (simp add: transmittable_def encodable_def KnownFrameType_def zero_frame_def)
  have w: "write_all Encode ?fs ?w = (None, ?w\<lparr>written := concat (map frame_wire ?fs)\<rparr>)"
    using codec.write_all_valid [OF ok, of ?w] by simp
  show ?thesis
    using codec_stream_roundtrip [OF ok _ _ w, of "\<lparr>avail = concat (map frame_wire ?fs) @ [9], end_err = EOF\<rparr>" "[9]"] w
    by (simp del: read_all.simps write_all.simps add: numeral_2_eq_2)
qed

text \<open>C15. Whatever bytes arrive, a frame that \<^verbatim>\<open>Decode\<close> returns has version 1, a header
  length of at least 20, a known type and at most 16 KiB of payload, and encoding it again gives
  exactly the bytes that were consumed: no two byte strings decode to the same frame.\<close>

theorem decode_canonical:
  assumes "Decode r = (Inr f, r')" and "room w = None"
  shows "transmittable f \<and> avail r = frame_wire f @ avail r' \<and>
    Encode f w = (None, w\<lparr>written := written w @ frame_wire f\<rparr>)"
proof -
  have "transmittable f"
    using Decode_Inr [OF assms(1)] by (simp add: transmittable_def encodable_def)
  then show ?thesis
    using Decode_Inr [OF assms(1)] assms(2) by (simp add: codec.encode_valid)
qed

theorem decode_canonical_witness:
  "let f = zero_frame\<lparr>version := 1, ftype := FrameTCPDATA, headerLen := 24, channelID := 7, payload := [104, 105]\<rparr>;
       w = \<lparr>written = [], room = None, write_err = EOF\<rparr>
   in transmittable f \<and> Encode f w = (None, w\<lparr>written := frame_wire f\<rparr>)"
proof -
  let ?f = "zero_frame\<lparr>version := 1, ftype := FrameTCPDATA, headerLen := 24, channelID := 7, payload := [104, 105]\<rparr>"
  let ?w = "\<lparr>written = [], room = None, write_err = EOF\<rparr>"
  have "transmittable ?f"
    by (simp add: transmittable_def encodable_def KnownFrameType_def zero_frame_def)
  then have d: "Decode \<lparr>avail = frame_wire ?f, end_err = EOF\<rparr> = (Inr ?f, \<lparr>avail = [], end_err = EOF\<rparr>)"
    using codec.decode_wire_of [of ?f "\<lparr>avail = frame_wire ?f, end_err = EOF\<rparr>" "[]"]
    by (simp add: frame_defaults_def Let_def)
  show ?thesis using decode_canonical [OF d, of ?w] by simp
qed

text \<open>A frame cut off anywhere is never taken for a frame: the error is \<^verbatim>\<open>io.EOF\<close> only
  between frames, \<^verbatim>\<open>io.ErrUnexpectedEOF\<close> inside the header, and a wrapped error inside the
  payload (wrapping \<^verbatim>\<open>io.EOF\<close> when the cut is right after the header).\<close>

theorem decode_truncated:
  assumes "transmittable f" and "k < length (frame_wire f)"
    and "avail r = take k (frame_wire f)" and "end_err r = EOF"
  shows "Decode r = (Inl (if k = 0 then EOF else if k < 20 then ErrUnexpectedEOF
    else Wrap ''read payload'' (if k = 20 then EOF else ErrUnexpectedEOF)), r\<lparr>avail := []\<rparr>)"
proof (cases "k < 20")
  case True
  then show ?thesis
    using assms by (auto simp: Decode_def read_full_def length_frame_wire)
next
  case False
  let ?d = "frame_defaults f"
  have av: "avail r = frame_header ?d @ take (k - 20) (payload f)"
    using assms(3) False by (simp add: frame_wire_def)
  have rd: "read_full HeaderLen r = (Inr (frame_header ?d), r\<lparr>avail := take (k - 20) (payload f)\<rparr>)"
    by (rule read_full_append) (simp_all add: av)
  have ok: "version ?d = of_nat Version" "\<not> headerLen ?d < of_nat HeaderLen"
    "KnownFrameType (ftype ?d)" "length (payload f) \<le> 16384" "k - 20 < length (payload f)"
    using assms(1,2) False by (auto simp: transmittable_def encodable_def length_frame_wire)
  have len: "unat (get_u32 (go_slice 16 20 (frame_header ?d))) = length (payload f)"
    using ok(4) by (simp add: header_fields unat_u32_of_len)
  show ?thesis
    unfolding Decode_def rd using ok False assms(4) by (auto simp: len Let_def read_full_def)
qed

theorem decode_truncated_witness:
  "let f = zero_frame\<lparr>ftype := FrameTCPDATA, payload := [1, 2]\<rparr>;
       r = \<lparr>avail = take 20 (frame_wire f), end_err = EOF\<rparr>
   in Decode r = (Inl (Wrap ''read payload'' EOF), r\<lparr>avail := []\<rparr>)"
  using decode_truncated [of "zero_frame\<lparr>ftype := FrameTCPDATA, payload := [1, 2]\<rparr>" 20
      "\<lparr>avail = take 20 (frame_wire (zero_frame\<lparr>ftype := FrameTCPDATA, payload := [1, 2]\<rparr>)), end_err = EOF\<rparr>"]
  by (simp add: transmittable_def encodable_def KnownFrameType_def zero_frame_def length_frame_wire)

end
