(* ===== verification/SLPP_Messages.thy ===== *)
theory SLPP_Messages
  imports SLPP_Frame "HOL-Library.Multiset"
begin

text \<open>
  The payloads carried by frames, \<^verbatim>\<open>internal/core/messages.go\<close>: the authentication
  payload, the length-prefixed address, the UDP datagram, its fragmentation and its reassembly.
\<close>

section \<open>Authentication payload\<close>

record auth_payload =
  Token :: string
  Nonce :: "byte list"   \<comment> \<open>the array \<^verbatim>\<open>[12]byte\<close>\<close>

definition EncodeAuthPayload :: "auth_payload \<Rightarrow> byte list" where
  "EncodeAuthPayload p =
     put_u16 (of_nat (length (Token p))) @ bytes_of_string (Token p) @ Nonce p"

definition DecodeAuthPayload :: "byte list \<Rightarrow> go_error + auth_payload" where
  "DecodeAuthPayload b =
     (if length b < 2 + 12 then Inl ErrUnexpectedEOF
      else let tokenLen = unat (get_u16 (go_slice 0 2 b)) in
        if length b < 2 + tokenLen + 12 then Inl ErrUnexpectedEOF
        else Inr \<lparr>Token = string_of_bytes (go_slice 2 (2 + tokenLen) b),
                  Nonce = go_slice (2 + tokenLen) (2 + tokenLen + 12) b\<rparr>)"

section \<open>Addresses\<close>

record open_tcp_payload =
  otp_Address :: string

definition EncodeAddress :: "string \<Rightarrow> byte list" where
  "EncodeAddress addr = put_u16 (of_nat (length addr)) @ bytes_of_string addr"

definition DecodeAddress :: "byte list \<Rightarrow> go_error + string" where
  "DecodeAddress b =
     (if length b < 2 then Inl ErrUnexpectedEOF
      else let n = unat (get_u16 (go_slice 0 2 b)) in
        if length b < 2 + n then Inl ErrUnexpectedEOF
        else Inr (string_of_bytes (go_slice 2 (2 + n) b)))"

section \<open>UDP datagrams\<close>

record udp_datagram =
  dgID :: u32
  SentMS :: u32
  DeadlineMS :: u16
  FragIndex :: u16
  FragCount :: u16
  TotalLen :: u16
  Data :: "byte list"

definition EncodeUDPDatagram :: "udp_datagram \<Rightarrow> byte list" where
  "EncodeUDPDatagram d =
     put_u32 (dgID d) @ put_u32 (SentMS d) @ put_u16 (DeadlineMS d) @ put_u16 (FragIndex d)
     @ put_u16 (FragCount d) @ put_u16 (TotalLen d) @ Data d"

definition DecodeUDPDatagram :: "byte list \<Rightarrow> go_error + udp_datagram" where
  "DecodeUDPDatagram b =
     (if length b < 16 then Inl ErrUnexpectedEOF
      else Inr \<lparr>dgID = get_u32 (go_slice 0 4 b), SentMS = get_u32 (go_slice 4 8 b),
                DeadlineMS = get_u16 (go_slice 8 10 b), FragIndex = get_u16 (go_slice 10 12 b),
                FragCount = get_u16 (go_slice 12 14 b), TotalLen = get_u16 (go_slice 14 16 b),
                Data = drop 16 b\<rparr>)"

section \<open>Reassembly\<close>

text \<open>
  A fragment slot is a Go slice that may be \<^verbatim>\<open>nil\<close>.  The copy
  \<^verbatim>\<open>append([]byte(nil), b...)\<close> of an empty go_slice is \<^verbatim>\<open>nil\<close> again.
\<close>

type_synonym slot = "byte list option"

definition clone_slice :: "byte list \<Rightarrow> slot" where
  "clone_slice b = (if b = [] then None else Some b)"

definition slot_bytes :: "slot \<Rightarrow> byte list" where
  "slot_bytes s = (case s of None \<Rightarrow> [] | Some b \<Rightarrow> b)"

record reassembler =
  fragments :: "u32 \<rightharpoonup> slot list"
  expected :: "u32 \<rightharpoonup> u16"

definition NewReassembler :: reassembler where
  "NewReassembler = \<lparr>fragments = Map.empty, expected = Map.empty\<rparr>"

text \<open>
  The result \<^verbatim>\<open>(nil, false, nil)\<close> is \<open>Inr None\<close>, a complete datagram is
  \<open>Inr (Some data)\<close>.
\<close>

definition Add :: "reassembler \<Rightarrow> udp_datagram \<Rightarrow> (go_error + byte list option) \<times> reassembler" where
  "Add r d =
     (if FragCount d = 0 then (Inl (ErrorNew ''invalid fragment count''), r)
      else if FragCount d = 1 then (Inr (Some (Data d)), r)
      else
        let r1 = (case fragments r (dgID d) of
            None \<Rightarrow> r\<lparr>fragments := (fragments r)(dgID d \<mapsto> replicate (unat (FragCount d)) None),
                      expected := (expected r)(dgID d \<mapsto> FragCount d)\<rparr>
          | Some _ \<Rightarrow> r);
          slots = (case fragments r1 (dgID d) of None \<Rightarrow> [] | Some ss \<Rightarrow> ss)
        in if unat (FragIndex d) \<ge> length slots
           then (Inl (ErrorNew ''fragment index out of range''), r1)
           else
             let slots2 = slots[unat (FragIndex d) := clone_slice (Data d)];
                 r2 = r1\<lparr>fragments := (fragments r1)(dgID d \<mapsto> slots2)\<rparr>
             in if None \<in> set slots2 then (Inr None, r2)
                else (Inr (Some (concat (map slot_bytes slots2))),
                      r2\<lparr>fragments := (fragments r2)(dgID d := None),
                         expected := (expected r2)(dgID d := None)\<rparr>))"

section \<open>Fragmentation\<close>

definition zero_datagram :: udp_datagram where
  "zero_datagram = \<lparr>dgID = 0, SentMS = 0, DeadlineMS = 0, FragIndex = 0, FragCount = 0,
     TotalLen = 0, Data = []\<rparr>"

definition FragmentUDP :: "byte list \<Rightarrow> u32 \<Rightarrow> u16 \<Rightarrow> go_error + udp_datagram list" where
  "FragmentUDP data ident deadlineMS =
     (if length data = 0 then Inr [zero_datagram\<lparr>dgID := ident, FragCount := 1\<rparr>]
      else let maxChunk = MaxPayloadLen - 16 in
        if maxChunk \<le> 0 then Inl (ErrorNew ''invalid chunk size'')
        else let fragCount = (length data + maxChunk - 1) div maxChunk in
          Inr (map (\<lambda>i.
            let start = i * maxChunk;
                stop = (if start + maxChunk > length data then length data else start + maxChunk)
            in zero_datagram\<lparr>dgID := ident, DeadlineMS := deadlineMS, FragIndex := of_nat i,
                 FragCount := of_nat fragCount, TotalLen := of_nat (length data),
                 Data := go_slice start stop data\<rparr>) [0..<fragCount]))"

section \<open>Codec lemmas\<close>

lemma unat_u16_of_len: "n < 65536 \<Longrightarrow> unat (of_nat n :: u16) = n"
  by (simp add: unat_of_nat take_bit_nat_eq_self)

lemma unat_u16_mod: "unat (of_nat n :: u16) = n mod 65536"
  by (simp add: unat_of_nat take_bit_eq_mod)

lemma DecodeUDP_Encode [simp, wire]: "DecodeUDPDatagram (EncodeUDPDatagram d) = Inr d"
  by (simp add: DecodeUDPDatagram_def EncodeUDPDatagram_def go_slice_def)

lemma EncodeUDP_Decode: "DecodeUDPDatagram b = Inr d \<Longrightarrow> EncodeUDPDatagram d = b"
  using drop_go_slice [of 0 4 b] drop_go_slice [of 4 8 b] drop_go_slice [of 8 10 b]
    drop_go_slice [of 10 12 b] drop_go_slice [of 12 14 b] drop_go_slice [of 14 16 b]
  by (auto simp: DecodeUDPDatagram_def EncodeUDPDatagram_def split: if_splits)

lemma length_EncodeUDPDatagram [simp]: "length (EncodeUDPDatagram d) = 16 + length (Data d)"
  by (simp add: EncodeUDPDatagram_def)

lemma DecodeAuth_Encode:
  assumes "length (Nonce p) = 12" and "length (Token p) < 65536"
  shows "DecodeAuthPayload (EncodeAuthPayload p @ rest) = Inr p"
  using assms
  by (auto simp: DecodeAuthPayload_def EncodeAuthPayload_def go_slice_def unat_u16_of_len Let_def
      intro: auth_payload.equality)

lemma DecodeAddress_Encode:
  "length addr < 65536 \<Longrightarrow> DecodeAddress (EncodeAddress addr @ rest) = Inr addr"
  by (auto simp: DecodeAddress_def EncodeAddress_def go_slice_def unat_u16_of_len Let_def)

text \<open>A string of 64 KiB or more does not fit its 16-bit length: the length wraps.\<close>

lemma DecodeAddress_Encode_wrap:
  "DecodeAddress (EncodeAddress addr) = Inr (take (length addr mod 65536) addr)"
proof -
  have "length addr mod 65536 \<le> length addr" by simp
  then have "string_of_bytes (take (length addr mod 65536) (bytes_of_string addr))
      = take (length addr mod 65536) addr"
    by (metis bytes_of_string_def string_of_bytes_of_string take_map)
  then show ?thesis
    by (auto simp: DecodeAddress_def EncodeAddress_def go_slice_def unat_u16_mod Let_def)
qed

section \<open>Chunks of a fragmented datagram\<close>

definition udp_chunk :: "byte list \<Rightarrow> nat \<Rightarrow> byte list" where
  "udp_chunk data i = take 16368 (drop (i * 16368) data)"

definition frag_count :: "byte list \<Rightarrow> nat" where
  "frag_count data = (length data + 16367) div 16368"

definition frag_at :: "byte list \<Rightarrow> u32 \<Rightarrow> u16 \<Rightarrow> nat \<Rightarrow> udp_datagram" where
  "frag_at data x dl i = zero_datagram\<lparr>dgID := x, DeadlineMS := dl, FragIndex := of_nat i,
     FragCount := of_nat (frag_count data), TotalLen := of_nat (length data),
     Data := udp_chunk data i\<rparr>"

lemma FragmentUDP_eq:
  "data \<noteq> [] \<Longrightarrow> FragmentUDP data x dl = Inr (map (frag_at data x dl) [0..<frag_count data])"
  by (auto simp: FragmentUDP_def frag_at_def udp_chunk_def frag_count_def go_slice_def Let_def
      add.commute)

lemma frag_at_simps [simp]:
  "dgID (frag_at data x dl i) = x" "DeadlineMS (frag_at data x dl i) = dl"
  "FragIndex (frag_at data x dl i) = of_nat i" "Data (frag_at data x dl i) = udp_chunk data i"
  "FragCount (frag_at data x dl i) = of_nat (frag_count data)"
  by (simp_all add: frag_at_def)

lemma concat_udp_chunks: "concat (map (udp_chunk data) [0..<k]) = take (k * 16368) data"
proof (induction k)
  case (Suc k)
  have "take (Suc k * 16368) data = take (k * 16368 + 16368) data"
    by (simp add: add.commute)
  with Suc show ?case by (simp add: udp_chunk_def take_add del: mult_Suc)
qed simp

lemma frag_count_covers: "length data \<le> frag_count data * 16368"
  by (simp add: frag_count_def)

lemma concat_all_chunks: "concat (map (udp_chunk data) [0..<frag_count data]) = data"
  using frag_count_covers [of data] by (simp add: concat_udp_chunks)

lemma udp_chunk_nonempty: "i < frag_count data \<Longrightarrow> udp_chunk data i \<noteq> []"
  by (simp add: udp_chunk_def frag_count_def)

lemma length_udp_chunk: "length (udp_chunk data i) \<le> 16368"
  by (simp add: udp_chunk_def)

section \<open>Reassembly, one datagram at a time\<close>

text \<open>
  The specification of the reassembler: it is one independent slot table per datagram
  identifier.  \<open>slot_add\<close> is what \<^verbatim>\<open>Add\<close> does to the table of the datagram's own
  identifier, and \<^verbatim>\<open>Add\<close> touches no other.
\<close>

definition slot_add ::
  "slot list option \<Rightarrow> udp_datagram \<Rightarrow> (go_error + byte list option) \<times> slot list option" where
  "slot_add t d =
     (if FragCount d = 0 then (Inl (ErrorNew ''invalid fragment count''), t)
      else if FragCount d = 1 then (Inr (Some (Data d)), t)
      else let slots = (case t of None \<Rightarrow> replicate (unat (FragCount d)) None | Some ss \<Rightarrow> ss) in
        if unat (FragIndex d) \<ge> length slots
        then (Inl (ErrorNew ''fragment index out of range''), Some slots)
        else let slots2 = slots[unat (FragIndex d) := clone_slice (Data d)] in
          if None \<in> set slots2 then (Inr None, Some slots2)
          else (Inr (Some (concat (map slot_bytes slots2))), None))"

lemma Add_slot_add:
  "fst (Add r d) = fst (slot_add (fragments r (dgID d)) d)"
  "fragments (snd (Add r d)) = (fragments r)(dgID d := snd (slot_add (fragments r (dgID d)) d))"
  by (auto simp: Add_def slot_add_def Let_def fun_eq_iff split: option.splits)

primrec add_all ::
  "reassembler \<Rightarrow> udp_datagram list \<Rightarrow> (go_error + byte list option) list \<times> reassembler" where
  "add_all r [] = ([], r)"
| "add_all r (d # ds) =
     (let (out, r1) = Add r d; (outs, r2) = add_all r1 ds in (out # outs, r2))"

primrec slot_add_all ::
  "slot list option \<Rightarrow> udp_datagram list \<Rightarrow> (go_error + byte list option) list \<times> slot list option"
where
  "slot_add_all t [] = ([], t)"
| "slot_add_all t (d # ds) =
     (let (out, t1) = slot_add t d; (outs, t2) = slot_add_all t1 ds in (out # outs, t2))"

lemma length_add_all [simp]: "length (fst (add_all r ds)) = length ds"
  by (induction ds arbitrary: r) (simp_all add: split_beta Let_def)

text \<open>The outcomes of the datagrams with one identifier, in any stream of datagrams.\<close>

definition outcomes_of ::
  "u32 \<Rightarrow> udp_datagram list \<Rightarrow> 'o list \<Rightarrow> 'o list" where
  "outcomes_of x ds outs = map snd (filter (\<lambda>(d, out). dgID d = x) (zip ds outs))"

lemma add_all_slot_add_all:
  "outcomes_of x ds (fst (add_all r ds))
     = fst (slot_add_all (fragments r x) (filter (\<lambda>d. dgID d = x) ds))
   \<and> fragments (snd (add_all r ds)) x
     = snd (slot_add_all (fragments r x) (filter (\<lambda>d. dgID d = x) ds))"
proof (induction ds arbitrary: r)
  case Nil
  then show ?case by (simp add: outcomes_of_def)
next
  case (Cons d ds)
  note IH = Cons.IH [of "snd (Add r d)"]
  show ?case
    using IH Add_slot_add [of r d]
    by (auto simp: outcomes_of_def Let_def split: prod.splits)
qed

text \<open>The table after the chunks at the indices \<open>S\<close> have arrived.\<close>

definition slots_with :: "byte list \<Rightarrow> nat set \<Rightarrow> slot list" where
  "slots_with data S =
     map (\<lambda>i. if i \<in> S then Some (udp_chunk data i) else None) [0..<frag_count data]"

lemma length_slots_with [simp]: "length (slots_with data S) = frag_count data"
  by (simp add: slots_with_def)

lemma slots_with_update:
  "i < frag_count data \<Longrightarrow>
     (slots_with data S)[i := Some (udp_chunk data i)] = slots_with data (insert i S)"
  by (rule nth_equalityI) (auto simp: slots_with_def nth_list_update)

lemma slots_with_complete: "None \<in> set (slots_with data S) \<longleftrightarrow> \<not> {..<frag_count data} \<subseteq> S"
  by (auto simp: slots_with_def)

lemma concat_slots_with:
  "{..<frag_count data} \<subseteq> S \<Longrightarrow> concat (map slot_bytes (slots_with data S)) = data"
proof -
  assume "{..<frag_count data} \<subseteq> S"
  then have "map slot_bytes (slots_with data S) = map (udp_chunk data) [0..<frag_count data]"
    by (auto simp: slots_with_def slot_bytes_def)
  then show ?thesis by (simp add: concat_all_chunks)
qed

definition table_with :: "byte list \<Rightarrow> nat set \<Rightarrow> slot list option \<Rightarrow> bool" where
  "table_with data S t \<longleftrightarrow> t = Some (slots_with data S) \<or> S = {} \<and> t = None"

lemma slot_add_chunk:
  assumes t: "table_with data S t" and i: "i < frag_count data"
    and k: "1 < frag_count data" "frag_count data < 65536"
  shows "slot_add t (frag_at data x dl i) =
    (if {..<frag_count data} \<subseteq> insert i S then (Inr (Some data), None)
     else (Inr None, Some (slots_with data (insert i S))))"
proof -
  let ?d = "frag_at data x dl i"
  have cnt: "unat (FragCount ?d) = frag_count data" "unat (FragIndex ?d) = i"
    using i k by (simp_all add: unat_u16_of_len)
  then have neq: "FragCount ?d \<noteq> 0" "FragCount ?d \<noteq> 1"
    using k by (metis unat_0 not_less0, metis unat_1 less_irrefl)
  have "replicate (frag_count data) None = slots_with data {}"
    by (rule nth_equalityI) (simp_all add: slots_with_def)
  then have slots: "(case t of None \<Rightarrow> replicate (unat (FragCount ?d)) None | Some ss \<Rightarrow> ss)
      = slots_with data S"
    using t cnt by (auto simp: table_with_def)
  have upd: "(slots_with data S)[i := clone_slice (udp_chunk data i)] = slots_with data (insert i S)"
    using i by (simp add: clone_slice_def udp_chunk_nonempty slots_with_update)
  show ?thesis
    using neq i cnt
    by (simp add: slot_add_def slots upd Let_def slots_with_complete concat_slots_with)
qed

lemma slot_add_all_chunks:
  assumes "table_with data S t" and "is \<noteq> []" and "distinct is" and "set is \<inter> S = {}"
    and "set is \<union> S = {..<frag_count data}"
    and k: "1 < frag_count data" "frag_count data < 65536"
  shows "slot_add_all t (map (frag_at data x dl) is)
    = (replicate (length is - 1) (Inr None) @ [Inr (Some data)], None)"
  using assms(1-5)
proof (induction "is" arbitrary: t S)
  case (Cons i js)
  have i: "i < frag_count data" using Cons.prems by auto
  note step = slot_add_chunk [OF Cons.prems(1) i k, of x dl]
  show ?case
  proof (cases "js = []")
    case True
    then have "{..<frag_count data} \<subseteq> insert i S" using Cons.prems by auto
    with True show ?thesis using step by simp
  next
    case False
    then have "\<not> {..<frag_count data} \<subseteq> insert i S" using Cons.prems by (cases js) auto
    moreover have "slot_add_all (Some (slots_with data (insert i S))) (map (frag_at data x dl) js)
        = (replicate (length js - 1) (Inr None) @ [Inr (Some data)], None)"
      by (rule Cons.IH [of "insert i S"]) (use Cons.prems False in \<open>auto simp: table_with_def\<close>)
    ultimately show ?thesis
      using step False by (cases js) simp_all
  qed
qed simp

lemma slot_add_all_single:
  "slot_add_all t [d] = ([fst (slot_add t d)], snd (slot_add t d))"
  by (simp add: split_beta)

lemma slot_add_all_fragments:
  assumes "FragmentUDP data x dl = Inr frags" and "length data \<le> 65535 * 16368"
    and "mset ds = mset frags"
  shows "slot_add_all None ds = (replicate (length frags - 1) (Inr None) @ [Inr (Some data)], None)"
proof (cases "length data \<le> 16368")
  case True
  have "\<exists>d. frags = [d] \<and> FragCount d = 1 \<and> Data d = data"
  proof (cases "data = []")
    case True
    then show ?thesis using assms(1) by (auto simp: FragmentUDP_def zero_datagram_def)
  next
    case False
    then have "frag_count data = 1"
      using True by (cases data) (simp_all add: frag_count_def)
    then show ?thesis
      using assms(1) False True by (auto simp: FragmentUDP_eq udp_chunk_def)
  qed
  then obtain d where d: "frags = [d]" "FragCount d = 1" "Data d = data" by blast
  then have "ds = [d]" using assms(3) by simp
  with d show ?thesis by (simp add: slot_add_def)
next
  case False
  then have ne: "data \<noteq> []" by auto
  have k: "1 < frag_count data" "frag_count data < 65536"
    using False assms(2) by (simp_all add: frag_count_def)
  have frags: "frags = map (frag_at data x dl) [0..<frag_count data]"
    using assms(1) ne by (simp add: FragmentUDP_eq)
  define ix where "ix = map (\<lambda>d. unat (FragIndex d)) ds"
  have same: "frag_at data x dl (unat (FragIndex d)) = d" if "d \<in> set ds" for d
  proof -
    have "d \<in> set frags" using that assms(3) by (metis set_mset_mset)
    then show ?thesis using k frags by (auto simp: unat_u16_of_len)
  qed
  have ds: "ds = map (frag_at data x dl) ix"
    by (simp add: ix_def same map_idI)
  have "mset ix = image_mset (\<lambda>d. unat (FragIndex d)) (mset frags)"
    using assms(3) by (simp add: ix_def)
  also have "\<dots> = mset (map (\<lambda>i. unat (of_nat i :: u16)) [0..<frag_count data])"
    by (simp add: frags image_mset.compositionality comp_def)
  also have "map (\<lambda>i. unat (of_nat i :: u16)) [0..<frag_count data] = [0..<frag_count data]"
    by (rule map_idI) (use k in \<open>simp add: unat_u16_of_len\<close>)
  finally have ix: "mset ix = mset [0..<frag_count data]" .
  have dist: "distinct ix"
    using mset_eq_imp_distinct_iff [OF ix] by simp
  have set_ix: "set ix = {..<frag_count data}"
    using mset_eq_setD [OF ix] by (simp add: lessThan_atLeast0)
  have len: "length ix = frag_count data" "length frags = frag_count data"
    using mset_eq_length [OF ix] by (simp_all add: frags)
  then have "ix \<noteq> []" using k by auto
  then show ?thesis
    using slot_add_all_chunks [of data "{}" None ix x dl] k dist set_ix len unfolding ds
    by (simp add: table_with_def)
qed

section \<open>Properties of the payloads\<close>

text \<open>C19. The fragments of a datagram (up to the 65,535 that their 16-bit count can name) reassemble
  to it whatever their order of arrival and whatever fragments of other datagrams are interleaved
  with them: every fragment but the last to arrive reports "incomplete", the last returns exactly
  the original bytes, and the reassembler keeps nothing of the datagram.\<close>

theorem fragments_reassemble:
  assumes "FragmentUDP data x dl = Inr frags" and "length data \<le> 65535 * 16368"
    and "fragments r x = None"
    and "mset (filter (\<lambda>d. dgID d = x) ds) = mset frags"
  shows "outcomes_of x ds (fst (add_all r ds))
      = replicate (length frags - 1) (Inr None) @ [Inr (Some data)]
    \<and> fragments (snd (add_all r ds)) x = None"
  using add_all_slot_add_all [of x ds r] slot_add_all_fragments [OF assms(1,2,4)] assms(3)
  by simp

theorem fragments_reassemble_witness:
  "let data = replicate 20000 (98 :: byte); f = frag_at data 1 1000;
       other = zero_datagram\<lparr>dgID := 2, FragCount := 3, Data := [7]\<rparr>
   in outcomes_of 1 [f 1, other, f 0] (fst (add_all NewReassembler [f 1, other, f 0]))
      = [Inr None, Inr (Some data)]"
proof -
  let ?data = "replicate 20000 (98 :: byte)"
  let ?f = "frag_at ?data 1 1000"
  let ?other = "zero_datagram\<lparr>dgID := 2, FragCount := 3, Data := [7]\<rparr>"
  have "?data \<noteq> []" by (metis length_replicate list.size(3) zero_neq_numeral)
  moreover have "frag_count ?data = 2" by (simp add: frag_count_def)
  ultimately have fr: "FragmentUDP ?data 1 1000 = Inr [?f 0, ?f 1]"
    by (simp add: FragmentUDP_eq upt_rec numeral_2_eq_2)
  have "filter (\<lambda>d. dgID d = 1) [?f 1, ?other, ?f 0] = [?f 1, ?f 0]"
    by (simp add: zero_datagram_def)
  then have "mset (filter (\<lambda>d. dgID d = 1) [?f 1, ?other, ?f 0]) = mset [?f 0, ?f 1]"
    by (simp add: add_mset_commute)
  from fragments_reassemble [OF fr _ _ this, of NewReassembler] show ?thesis
    unfolding Let_def by (simp add: NewReassembler_def)
qed

text \<open>Fragmenting never fails; the fragments hold the datagram's bytes in order, none is
  empty unless the datagram is, all carry its identifier, and each one, encoded, fits the payload
  of a frame.\<close>

theorem fragments_partition:
  "\<exists>frags. FragmentUDP data x dl = Inr frags \<and> concat (map Data frags) = data
    \<and> length frags = max 1 ((length data + 16367) div 16368)
    \<and> (\<forall>d \<in> set frags. dgID d = x \<and> (Data d = [] \<longleftrightarrow> data = [])
         \<and> length (EncodeUDPDatagram d) \<le> MaxPayloadLen)"
proof (cases "data = []")
  case True
  then show ?thesis by (simp add: FragmentUDP_def zero_datagram_def)
next
  case False
  then have "0 < frag_count data" by (cases data) (simp_all add: frag_count_def)
  with False show ?thesis
    using length_udp_chunk [of data] udp_chunk_nonempty [of _ data]
    by (auto simp: FragmentUDP_eq comp_def concat_all_chunks max_def simp flip: frag_count_def)
qed

theorem fragments_partition_witness:
  "\<exists>frags. FragmentUDP [1, 2, 3] 7 1000 = Inr frags \<and> concat (map Data frags) = [1, 2, 3]
    \<and> length frags = 1 \<and> (\<forall>d \<in> set frags. dgID d = 7 \<and> Data d \<noteq> [])"
  using fragments_partition [of "[1, 2, 3]" 7 1000] by (auto simp: max_def)

text \<open>The datagram encoding is a bijection with the byte strings of at least 16 bytes:
  decoding inverts encoding, every decodable string is the encoding of what it decodes to, and the
  shorter ones are the ones refused.\<close>

theorem udp_datagram_bijection:
  "((DecodeUDPDatagram b = Inr d) = (b = EncodeUDPDatagram d))
   \<and> ((DecodeUDPDatagram b = Inl e) = (length b < 16 \<and> e = ErrUnexpectedEOF))"
  using EncodeUDP_Decode [of b d] DecodeUDP_Encode [of d]
  by (intro conjI) (blast, auto simp: DecodeUDPDatagram_def)

text \<open>The authentication payload of a token shorter than 64 KiB decodes to the token and the
  nonce that were encoded; any shorter prefix of it is refused.\<close>

theorem auth_payload_roundtrip:
  assumes "length (Nonce p) = 12" and "length (Token p) < 65536"
    and "k < length (EncodeAuthPayload p)"
  shows "DecodeAuthPayload (EncodeAuthPayload p) = Inr p \<and>
    DecodeAuthPayload (take k (EncodeAuthPayload p)) = Inl ErrUnexpectedEOF"
proof
  show "DecodeAuthPayload (EncodeAuthPayload p) = Inr p"
    using DecodeAuth_Encode [OF assms(1,2), of "[]"] by simp
  have "length (EncodeAuthPayload p) = 14 + length (Token p)"
    using assms(1) by (simp add: EncodeAuthPayload_def)
  moreover have "unat (get_u16 (go_slice 0 2 (take k (EncodeAuthPayload p)))) = length (Token p)"
    if "2 \<le> k"
    using that assms(2)
    by (simp add: EncodeAuthPayload_def go_slice_def min_def unat_u16_of_len)
  ultimately show "DecodeAuthPayload (take k (EncodeAuthPayload p)) = Inl ErrUnexpectedEOF"
    using assms(3) by (auto simp: DecodeAuthPayload_def Let_def)
qed

theorem auth_payload_roundtrip_witness:
  "let p = \<lparr>Token = ''secret'', Nonce = replicate 12 5\<rparr>
   in DecodeAuthPayload (EncodeAuthPayload p) = Inr p
      \<and> DecodeAuthPayload (take 19 (EncodeAuthPayload p)) = Inl ErrUnexpectedEOF"
  using auth_payload_roundtrip [of "\<lparr>Token = ''secret'', Nonce = replicate 12 5\<rparr>" 19]
  by (simp add: EncodeAuthPayload_def)

text \<open>An address decodes to itself if it is shorter than 64 KiB; a longer one is silently
  cut to its length modulo 65,536, because the length is written as 16 bits.\<close>

theorem address_roundtrip:
  "DecodeAddress (EncodeAddress addr) = Inr (take (length addr mod 65536) addr)"
  by (rule DecodeAddress_Encode_wrap)

end
