(* ===== verification/SLPP_Queue.thy ===== *)
theory SLPP_Queue
  imports SLPP_Frame
begin

text \<open>
  The bounded frame queue of a session, \<^verbatim>\<open>internal/core/queue.go\<close>: a ring buffer with a
  limit on the number of frames and on the payload bytes it holds.  Each method runs under the
  queue's mutex, so each is one atomic operation.  The locale \<open>bounded_fifo\<close> is the contract
  a session relies on; the ring buffer interprets it.
\<close>

section \<open>The ring buffer\<close>

record frame_queue =
  items :: "frame list"
  qhead :: nat
  qcount :: nat
  queuedByte :: int
  maxBytes :: int

definition NewFrameQueue :: "nat \<Rightarrow> int \<Rightarrow> frame_queue" where
  "NewFrameQueue cap max_bytes =
     \<lparr>items = replicate cap zero_frame, qhead = 0, qcount = 0, queuedByte = 0, maxBytes = max_bytes\<rparr>"

definition Push :: "frame \<Rightarrow> frame_queue \<Rightarrow> go_error option \<times> frame_queue" where
  "Push f q =
     (let nextBytes = queuedByte q + int (length (payload f)) in
      if nextBytes > maxBytes q \<or> qcount q = length (items q) then (Some ErrQueueFull, q)
      else let idx = (qhead q + qcount q) mod length (items q) in
        (None, q\<lparr>items := (items q)[idx := f], qcount := qcount q + 1, queuedByte := nextBytes\<rparr>))"

text \<open>\<^verbatim>\<open>Pop\<close>'s result \<^verbatim>\<open>(Frame{}, false)\<close> is \<open>None\<close>.\<close>

definition Pop :: "frame_queue \<Rightarrow> frame option \<times> frame_queue" where
  "Pop q =
     (if qcount q = 0 then (None, q)
      else let item = items q ! qhead q in
        (Some item,
         q\<lparr>items := (items q)[qhead q := zero_frame],
           qhead := (qhead q + 1) mod length (items q),
           qcount := qcount q - 1,
           queuedByte := queuedByte q - int (length (payload item))\<rparr>))"

definition Len :: "frame_queue \<Rightarrow> nat" where
  "Len q = qcount q"

definition QueuedBytes :: "frame_queue \<Rightarrow> int" where
  "QueuedBytes q = queuedByte q"

section \<open>Abstraction and invariant\<close>

definition payload_bytes :: "frame list \<Rightarrow> int" where
  "payload_bytes fs = (\<Sum>f \<leftarrow> fs. int (length (payload f)))"

definition q_list :: "frame_queue \<Rightarrow> frame list" where
  "q_list q = map (\<lambda>i. items q ! ((qhead q + i) mod length (items q))) [0..<qcount q]"

text \<open>
  The indices in use are the \<open>qcount\<close> ones from \<open>qhead\<close>, cyclically; every other
  slot has been cleared, so the queue keeps no payload alive that it no longer holds.
\<close>

definition q_inv :: "frame_queue \<Rightarrow> bool" where
  "q_inv q \<longleftrightarrow> qcount q \<le> length (items q) \<and> (items q \<noteq> [] \<longrightarrow> qhead q < length (items q))
     \<and> queuedByte q = payload_bytes (q_list q) \<and> queuedByte q \<le> maxBytes q
     \<and> (\<forall>i. qcount q \<le> i \<and> i < length (items q) \<longrightarrow>
          items q ! ((qhead q + i) mod length (items q)) = zero_frame)"

lemma payload_bytes_simps [simp]:
  "payload_bytes [] = 0" "payload_bytes (f # fs) = int (length (payload f)) + payload_bytes fs"
  "payload_bytes (fs @ gs) = payload_bytes fs + payload_bytes gs"
  by (simp_all add: payload_bytes_def)

lemma payload_bytes_nonneg [simp]: "0 \<le> payload_bytes fs"
  by (induction fs) simp_all

lemma length_q_list [simp]: "length (q_list q) = qcount q"
  by (simp add: q_list_def)

lemma mod_window_inj:
  fixes i j n h :: nat
  assumes "i < n" and "j < n" and "(h + i) mod n = (h + j) mod n"
  shows "i = j"
proof -
  have ordered: "b \<le> a" if "a \<le> b" "b < n" "(h + b) mod n = (h + a) mod n" for a b
  proof -
    have "n dvd (h + b) - (h + a)"
      using that(1,3) mod_eq_dvd_iff_nat [of "h + a" "h + b" n] by simp
    then have "n dvd b - a" by simp
    then show ?thesis using that(2) dvd_imp_le [of n "b - a"] by linarith
  qed
  show ?thesis
  proof (cases "i \<le> j")
    case True
    from ordered [OF this assms(2) assms(3) [symmetric]] True show ?thesis by simp
  next
    case False
    then have "j \<le> i" by simp
    from ordered [OF this assms(1,3)] False show ?thesis by simp
  qed
qed

lemma q_list_update_free:
  assumes "qcount q \<le> j" and "j < length (items q)"
  shows "q_list (q\<lparr>items := (items q)[(qhead q + j) mod length (items q) := f]\<rparr>) = q_list q"
proof (rule nth_equalityI)
  fix i assume "i < length (q_list (q\<lparr>items := (items q)[(qhead q + j) mod length (items q) := f]\<rparr>))"
  then have i: "i < qcount q" by simp
  then have "(qhead q + i) mod length (items q) \<noteq> (qhead q + j) mod length (items q)"
    using assms mod_window_inj [of i "length (items q)" j "qhead q"] by auto
  with i show "q_list (q\<lparr>items := (items q)[(qhead q + j) mod length (items q) := f]\<rparr>) ! i = q_list q ! i"
    by (simp add: q_list_def)
qed simp

lemma q_inv_New: "0 \<le> m \<Longrightarrow> q_inv (NewFrameQueue cap m)"
  by (simp add: q_inv_def NewFrameQueue_def q_list_def)

lemma q_list_New [simp]: "q_list (NewFrameQueue cap m) = []"
  by (simp add: q_list_def NewFrameQueue_def)

lemma New_limits [simp]:
  "length (items (NewFrameQueue cap m)) = cap" "maxBytes (NewFrameQueue cap m) = m"
  by (simp_all add: NewFrameQueue_def)

lemma qcount_New [simp]: "qcount (NewFrameQueue cap m) = 0"
  by (simp add: NewFrameQueue_def)

lemma Push_full:
  "fst (Push f q) = Some e \<Longrightarrow> e = ErrQueueFull \<and> snd (Push f q) = q"
  by (auto simp: Push_def Let_def split: if_splits)

lemma Push_accepts:
  "q_inv q \<Longrightarrow> fst (Push f q) = None \<longleftrightarrow>
     qcount q < length (items q) \<and> payload_bytes (q_list q) + int (length (payload f)) \<le> maxBytes q"
  by (auto simp: Push_def Let_def q_inv_def)

lemma Push_limits [simp]:
  "length (items (snd (Push f q))) = length (items q)" "maxBytes (snd (Push f q)) = maxBytes q"
  by (simp_all add: Push_def Let_def)

lemma Pop_limits [simp]:
  "length (items (snd (Pop q))) = length (items q)" "maxBytes (snd (Pop q)) = maxBytes q"
  by (simp_all add: Pop_def Let_def)

lemma Push_ok:
  assumes inv: "q_inv q" and ok: "fst (Push f q) = None"
  shows "q_list (snd (Push f q)) = q_list q @ [f] \<and> q_inv (snd (Push f q))"
proof
  let ?n = "length (items q)" and ?q = "snd (Push f q)"
  let ?u = "q\<lparr>items := (items q)[(qhead q + qcount q) mod ?n := f]\<rparr>"
  have c: "qcount q < ?n" and bytes: "payload_bytes (q_list q) + int (length (payload f)) \<le> maxBytes q"
    using Push_accepts [OF inv] ok by auto
  have q: "?q = ?u\<lparr>qcount := qcount q + 1, queuedByte := queuedByte q + int (length (payload f))\<rparr>"
    using ok by (auto simp: Push_def Let_def split: if_splits)
  have "q_list ?q = q_list ?u @ [f]"
  proof -
    have "(qhead q + qcount q) mod ?n < ?n" using c by (intro mod_less_divisor) linarith
    then show ?thesis by (simp add: q q_list_def)
  qed
  then show l: "q_list ?q = q_list q @ [f]"
    using c by (simp add: q_list_update_free)
  have h: "qhead q < ?n" using inv c by (auto simp: q_inv_def)
  have "items ?q ! ((qhead q + i) mod ?n) = zero_frame" if "qcount q < i" "i < ?n" for i
  proof -
    have "(qhead q + qcount q) mod ?n \<noteq> (qhead q + i) mod ?n"
      using that c mod_window_inj [of "qcount q" ?n i "qhead q"] by auto
    then show ?thesis using inv that by (simp add: q q_inv_def)
  qed
  then show "q_inv ?q"
    using inv c bytes l h unfolding q_inv_def by (simp add: q)
qed

lemma Pop_empty: "qcount q = 0 \<Longrightarrow> Pop q = (None, q)"
  by (simp add: Pop_def)

lemma Pop_some:
  assumes inv: "q_inv q" and ne: "qcount q \<noteq> 0"
  shows "\<exists>f. fst (Pop q) = Some f \<and> q_list q = f # q_list (snd (Pop q)) \<and> q_inv (snd (Pop q))"
proof -
  let ?n = "length (items q)" and ?q = "snd (Pop q)" and ?f = "items q ! qhead q"
  have h: "qhead q < ?n" and c: "qcount q \<le> ?n" using inv ne by (auto simp: q_inv_def)
  have sh: "((qhead q + 1) mod ?n + i) mod ?n = (qhead q + Suc i) mod ?n" for i
    by (simp add: mod_add_left_eq)
  have other: "(qhead q + Suc i) mod ?n \<noteq> qhead q" if "Suc i < ?n" for i
  proof
    assume "(qhead q + Suc i) mod ?n = qhead q"
    then have "(qhead q + Suc i) mod ?n = (qhead q + 0) mod ?n" using h by simp
    moreover have "0 < ?n" using that by linarith
    ultimately have "Suc i = 0" using that by (intro mod_window_inj [of "Suc i" ?n 0 "qhead q"])
    then show False by simp
  qed
  have keep: "(items q)[qhead q := zero_frame] ! ((qhead q + Suc i) mod ?n)
      = items q ! ((qhead q + Suc i) mod ?n)" if "Suc i < ?n" for i
    using other [OF that] by simp
  have q: "?q = q\<lparr>items := (items q)[qhead q := zero_frame], qhead := (qhead q + 1) mod ?n,
      qcount := qcount q - 1, queuedByte := queuedByte q - int (length (payload ?f))\<rparr>"
    using ne by (simp add: Pop_def Let_def)
  have "q_list q = map (\<lambda>i. items q ! ((qhead q + i) mod ?n)) (0 # map Suc [0..<qcount q - 1])"
    unfolding q_list_def using ne by (simp add: map_Suc_upt upt_conv_Cons)
  also have "\<dots> = ?f # q_list ?q"
    using h c ne by (auto simp: q q_list_def sh [simplified] keep [simplified])
  finally have l: "q_list q = ?f # q_list ?q" .
  have "items ?q ! ((qhead ?q + i) mod ?n) = zero_frame" if "qcount q - 1 \<le> i" "i < ?n" for i
  proof (cases "Suc i < ?n")
    case True
    have clear: "\<forall>j. qcount q \<le> j \<and> j < ?n \<longrightarrow> items q ! ((qhead q + j) mod ?n) = zero_frame"
      using inv by (simp add: q_inv_def)
    have "qcount q \<le> Suc i" using that(1) ne by linarith
    then have "items q ! ((qhead q + Suc i) mod ?n) = zero_frame"
      using clear True by blast
    then show ?thesis using keep [OF True] by (simp add: q sh [simplified])
  next
    case False
    then have "Suc i = ?n" using that(2) by linarith
    then have "(qhead q + Suc i) mod ?n = qhead q mod ?n" by (metis mod_add_self2)
    also have "\<dots> = qhead q" using h by (rule mod_less)
    finally have "(qhead q + Suc i) mod ?n = qhead q" .
    then show ?thesis using h by (simp add: q sh [simplified])
  qed
  moreover have "qcount ?q = qcount q - 1" "queuedByte ?q = queuedByte q - int (length (payload ?f))"
    by (simp_all add: q)
  moreover have "qhead ?q < ?n"
  proof -
    have "0 < ?n" using h by linarith
    then have "(qhead q + 1) mod ?n < ?n" by (rule mod_less_divisor)
    then show ?thesis by (simp add: q)
  qed
  moreover have "queuedByte q = payload_bytes (q_list q)" "queuedByte q \<le> maxBytes q"
    using inv by (simp_all add: q_inv_def)
  ultimately have "q_inv ?q"
    using c l unfolding q_inv_def by simp
  then show ?thesis using l ne by (auto simp: Pop_def Let_def)
qed

section \<open>The contract of a bounded queue\<close>

text \<open>A sequence of operations on a queue, from any number of goroutines, and its effect.\<close>

datatype 'f queue_op = OpPush 'f | OpPop

text \<open>
  \<open>run_queue\<close> returns the frames whose push was accepted and the frames popped, in order.
\<close>

primrec run_queue ::
  "('f \<Rightarrow> 'q \<Rightarrow> go_error option \<times> 'q) \<Rightarrow> ('q \<Rightarrow> 'f option \<times> 'q) \<Rightarrow> 'q \<Rightarrow> 'f queue_op list
     \<Rightarrow> 'f list \<times> 'f list \<times> 'q" where
  "run_queue push pop q [] = ([], [], q)"
| "run_queue push pop q (x # xs) =
     (case x of
        OpPush f \<Rightarrow>
          (let (e, q1) = push f q; (acc, out, q2) = run_queue push pop q1 xs
           in (if e = None then f # acc else acc, out, q2))
      | OpPop \<Rightarrow>
          (let (r, q1) = pop q; (acc, out, q2) = run_queue push pop q1 xs
           in (acc, case r of None \<Rightarrow> out | Some f \<Rightarrow> f # out, q2)))"

locale bounded_fifo =
  fixes push :: "'f \<Rightarrow> 'q \<Rightarrow> go_error option \<times> 'q"
    and pop :: "'q \<Rightarrow> 'f option \<times> 'q"
    and content :: "'q \<Rightarrow> 'f list"
    and inv :: "'q \<Rightarrow> bool"
  assumes push_accepted: "inv q \<Longrightarrow> fst (push f q) = None \<Longrightarrow>
      content (snd (push f q)) = content q @ [f] \<and> inv (snd (push f q))"
    and push_refused: "inv q \<Longrightarrow> fst (push f q) = Some e \<Longrightarrow> snd (push f q) = q"
    and pop_nothing: "inv q \<Longrightarrow> content q = [] \<Longrightarrow> pop q = (None, q)"
    and pop_something: "inv q \<Longrightarrow> content q \<noteq> [] \<Longrightarrow>
      \<exists>f. fst (pop q) = Some f \<and> content q = f # content (snd (pop q)) \<and> inv (snd (pop q))"
begin

lemma push_inv: "inv q \<Longrightarrow> inv (snd (push f q))"
  by (cases "fst (push f q)") (simp_all add: push_accepted push_refused)

lemma push_content:
  "inv q \<Longrightarrow> content (snd (push f q)) = content q @ (if fst (push f q) = None then [f] else [])"
  by (cases "fst (push f q)") (simp_all add: push_accepted push_refused)

lemma pop_inv: "inv q \<Longrightarrow> inv (snd (pop q))"
  using pop_something [of q] pop_nothing [of q] by (cases "content q = []") auto

lemma pop_content:
  "inv q \<Longrightarrow> content q = (case fst (pop q) of None \<Rightarrow> [] | Some f \<Rightarrow> [f]) @ content (snd (pop q))"
  using pop_something [of q] pop_nothing [of q] by (cases "content q = []") auto

lemma pop_Some: "inv q \<Longrightarrow> fst (pop q) = Some f \<Longrightarrow> content q = f # content (snd (pop q))"
  using pop_content [of q] by simp

lemma pop_None: "inv q \<Longrightarrow> fst (pop q) = None \<longleftrightarrow> content q = []"
  using pop_something [of q] pop_nothing [of q] by (cases "content q = []") auto

lemma fifo_order:
  "inv q \<Longrightarrow> run_queue push pop q xs = (acc, out, q') \<Longrightarrow>
     inv q' \<and> content q @ acc = out @ content q'"
proof (induction xs arbitrary: q acc out q')
  case (Cons x xs)
  show ?case
  proof (cases x)
    case (OpPush f)
    obtain acc1 out1 q1 where r: "run_queue push pop (snd (push f q)) xs = (acc1, out1, q1)"
      by (cases "run_queue push pop (snd (push f q)) xs") auto
    then have "acc = (if fst (push f q) = None then f # acc1 else acc1)" "out1 = out" "q1 = q'"
      using Cons.prems(2) OpPush by (auto simp: split_beta Let_def)
    then show ?thesis
      using Cons.IH [OF push_inv [OF Cons.prems(1)] r] push_content [OF Cons.prems(1), of f]
      by (auto split: if_splits)
  next
    case OpPop
    obtain acc1 out1 q1 where r: "run_queue push pop (snd (pop q)) xs = (acc1, out1, q1)"
      by (cases "run_queue push pop (snd (pop q)) xs") auto
    then have "out = (case fst (pop q) of None \<Rightarrow> out1 | Some f \<Rightarrow> f # out1)" "acc1 = acc" "q1 = q'"
      using Cons.prems(2) OpPop by (auto simp: split_beta Let_def split: option.splits)
    then show ?thesis
      using Cons.IH [OF pop_inv [OF Cons.prems(1)] r] pop_content [OF Cons.prems(1)]
      by (auto split: option.splits)
  qed
qed simp

end

lemma q_list_Nil: "q_list q = [] \<longleftrightarrow> qcount q = 0"
  by (metis length_0_conv length_q_list)

interpretation fq: bounded_fifo Push Pop q_list q_inv
proof unfold_locales
  show "q_list (snd (Push f q)) = q_list q @ [f] \<and> q_inv (snd (Push f q))"
    if "q_inv q" "fst (Push f q) = None" for q f
    using that by (rule Push_ok)
  show "snd (Push f q) = q" if "fst (Push f q) = Some e" for q f e
    using Push_full [OF that] by simp
  show "Pop q = (None, q)" if "q_list q = []" for q
    using that by (simp add: Pop_empty q_list_Nil)
  show "\<exists>f. fst (Pop q) = Some f \<and> q_list q = f # q_list (snd (Pop q)) \<and> q_inv (snd (Pop q))"
    if "q_inv q" "q_list q \<noteq> []" for q
    using that by (intro Pop_some) (simp_all add: q_list_Nil)
qed

lemma run_queue_limits:
  "run_queue Push Pop q xs = (acc, out, q') \<Longrightarrow>
     length (items q') = length (items q) \<and> maxBytes q' = maxBytes q"
proof (induction xs arbitrary: q acc out)
  case (Cons x xs)
  show ?case
  proof (cases x)
    case (OpPush f)
    obtain a b where "run_queue Push Pop (snd (Push f q)) xs = (a, b, q')"
      using Cons.prems OpPush
      by (cases "run_queue Push Pop (snd (Push f q)) xs") (auto simp: split_beta Let_def)
    from Cons.IH [OF this] show ?thesis by simp
  next
    case OpPop
    obtain a b where "run_queue Push Pop (snd (Pop q)) xs = (a, b, q')"
      using Cons.prems OpPop
      by (cases "run_queue Push Pop (snd (Pop q)) xs") (auto simp: split_beta Let_def)
    from Cons.IH [OF this] show ?thesis by simp
  qed
qed simp

section \<open>Properties of the queue\<close>

text \<open>C20. The ring buffer is a bounded first-in first-out queue: after any sequence of pushes and
  pops on a new queue, the frames whose push was accepted are exactly the frames popped followed
  by the frames still queued, in that order, and the queue never exceeds its capacity or its byte
  limit, of which \<^verbatim>\<open>QueuedBytes\<close> reports the exact use.\<close>

theorem queue_fifo_bounded:
  assumes "0 \<le> m" and "run_queue Push Pop (NewFrameQueue cap m) xs = (acc, out, q)"
  shows "acc = out @ q_list q \<and> Len q = length (q_list q) \<and> length (q_list q) \<le> cap
    \<and> QueuedBytes q = payload_bytes (q_list q) \<and> payload_bytes (q_list q) \<le> m"
proof -
  have "q_inv q \<and> acc = out @ q_list q"
    using fq.fifo_order [OF q_inv_New [OF assms(1)] assms(2)] by simp
  moreover have "length (items q) = cap \<and> maxBytes q = m"
    using run_queue_limits [OF assms(2)] by simp
  ultimately show ?thesis by (simp add: q_inv_def Len_def QueuedBytes_def)
qed

theorem queue_fifo_bounded_witness:
  "let f = (\<lambda>n. zero_frame\<lparr>seqNo := n, payload := [1, 2]\<rparr>);
       (acc, out, q) = run_queue Push Pop (NewFrameQueue 2 5)
         [OpPush (f 1), OpPush (f 2), OpPush (f 3), OpPop, OpPush (f 4)]
   in acc = [f 1, f 2, f 4] \<and> out = [f 1] \<and> acc = out @ q_list q"
proof -
  let ?f = "\<lambda>n. zero_frame\<lparr>seqNo := n, payload := [1, 2]\<rparr>"
  let ?xs = "[OpPush (?f 1), OpPush (?f 2), OpPush (?f 3), OpPop, OpPush (?f 4)]"
  obtain acc out q where r: "run_queue Push Pop (NewFrameQueue 2 5) ?xs = (acc, out, q)"
    by (cases "run_queue Push Pop (NewFrameQueue 2 5) ?xs") auto
  then have "acc = [?f 1, ?f 2, ?f 4]" "out = [?f 1]"
    by (auto simp: Push_def Pop_def NewFrameQueue_def Let_def numeral_2_eq_2)
  with r queue_fifo_bounded [OF _ r] show ?thesis by simp
qed

text \<open>On a well-formed queue \<^verbatim>\<open>Push\<close> accepts a frame exactly when there is a free slot
  and its payload fits the byte limit; a refused push returns \<^verbatim>\<open>ErrQueueFull\<close> and changes
  nothing, and an accepted one appends the frame.\<close>

theorem push_accepts_iff_fits:
  assumes "q_inv q"
  shows "if length (q_list q) < length (items q)
        \<and> payload_bytes (q_list q) + int (length (payload f)) \<le> maxBytes q
      then fst (Push f q) = None \<and> q_list (snd (Push f q)) = q_list q @ [f] \<and> q_inv (snd (Push f q))
      else Push f q = (Some ErrQueueFull, q)"
  using Push_accepts [OF assms, of f] Push_ok [OF assms, of f] Push_full [of f q]
  by (cases "fst (Push f q)") (auto simp: prod_eq_iff)

theorem push_accepts_iff_fits_witness:
  "let q = NewFrameQueue 1 3; f = zero_frame\<lparr>payload := [1, 2]\<rparr>
   in q_list (snd (Push f q)) = [f] \<and> Push f (snd (Push f q)) = (Some ErrQueueFull, snd (Push f q))"
proof -
  let ?q = "NewFrameQueue 1 3" and ?f = "zero_frame\<lparr>payload := [1, 2]\<rparr>"
  have "fst (Push ?f ?q) = None \<and> q_list (snd (Push ?f ?q)) = [?f] \<and> q_inv (snd (Push ?f ?q))"
    using push_accepts_iff_fits [OF q_inv_New, of 3 1 ?f] by simp
  then show ?thesis
    using push_accepts_iff_fits [of "snd (Push ?f ?q)" ?f] by simp
qed

end
