(* ===== verification/SLPP_Stats.thy ===== *)
theory SLPP_Stats
  imports SLPP_Prelude
begin

text \<open>
  The counters of \<^verbatim>\<open>internal/core/stats.go\<close> and their snapshot
  (\<^verbatim>\<open>pkg/api/types.go\<close>), and the mutex-protected map \<^verbatim>\<open>SafeMap\<close>.  Each
  method is one atomic operation.  The locale \<open>registry\<close> is the contract of a table keyed by
  channel or identifier; \<^verbatim>\<open>SafeMap\<close> interprets it, as the connection tables of the relays do.
\<close>

section \<open>Counters\<close>

text \<open>The signed counters are \<^verbatim>\<open>atomic.Int64\<close>: 64-bit words read as two's complement.\<close>

record stats =
  startedAt :: int
  activeSessions :: u64
  activeChannels :: u64
  framesIn :: u64
  framesOut :: u64
  bytesIn :: u64
  bytesOut :: u64
  droppedUDP :: u64
  expiredUDP :: u64
  authFailures :: u64
  reconnects :: u64
  sessionQueueBytes :: u64
  channelQueueBytes :: u64

definition NewStats :: "int \<Rightarrow> stats" where
  "NewStats now = \<lparr>startedAt = now, activeSessions = 0, activeChannels = 0, framesIn = 0,
     framesOut = 0, bytesIn = 0, bytesOut = 0, droppedUDP = 0, expiredUDP = 0, authFailures = 0,
     reconnects = 0, sessionQueueBytes = 0, channelQueueBytes = 0\<rparr>"

definition AddActiveSession :: "u64 \<Rightarrow> stats \<Rightarrow> stats" where
  "AddActiveSession delta st = st\<lparr>activeSessions := activeSessions st + delta\<rparr>"

definition AddActiveChannel :: "u64 \<Rightarrow> stats \<Rightarrow> stats" where
  "AddActiveChannel delta st = st\<lparr>activeChannels := activeChannels st + delta\<rparr>"

definition AddAuthFailure :: "stats \<Rightarrow> stats" where
  "AddAuthFailure st = st\<lparr>authFailures := authFailures st + 1\<rparr>"

definition AddExpiredUDP :: "stats \<Rightarrow> stats" where
  "AddExpiredUDP st = st\<lparr>expiredUDP := expiredUDP st + 1\<rparr>"

definition AddDroppedUDP :: "stats \<Rightarrow> stats" where
  "AddDroppedUDP st = st\<lparr>droppedUDP := droppedUDP st + 1\<rparr>"

definition SetSessionQueueBytes :: "u64 \<Rightarrow> stats \<Rightarrow> stats" where
  "SetSessionQueueBytes v st = st\<lparr>sessionQueueBytes := v\<rparr>"

definition SetChannelQueueBytes :: "u64 \<Rightarrow> stats \<Rightarrow> stats" where
  "SetChannelQueueBytes v st = st\<lparr>channelQueueBytes := v\<rparr>"

record stats_snapshot =
  snap_StartedAt :: int
  snap_ActiveSessions :: int
  snap_ActiveChannels :: int
  snap_FramesIn :: u64
  snap_FramesOut :: u64
  snap_BytesIn :: u64
  snap_BytesOut :: u64
  snap_DroppedUDP :: u64
  snap_ExpiredUDP :: u64
  snap_AuthFailures :: u64
  snap_Reconnects :: u64
  snap_SessionQueueBytes :: u64
  snap_ChannelQueueBytes :: u64

definition Snapshot :: "stats \<Rightarrow> stats_snapshot" where
  "Snapshot st = \<lparr>snap_StartedAt = startedAt st,
     snap_ActiveSessions = sint (activeSessions st),
     snap_ActiveChannels = sint (activeChannels st),
     snap_FramesIn = framesIn st, snap_FramesOut = framesOut st,
     snap_BytesIn = bytesIn st, snap_BytesOut = bytesOut st,
     snap_DroppedUDP = droppedUDP st, snap_ExpiredUDP = expiredUDP st,
     snap_AuthFailures = authFailures st, snap_Reconnects = reconnects st,
     snap_SessionQueueBytes = sessionQueueBytes st,
     snap_ChannelQueueBytes = channelQueueBytes st\<rparr>"

lemmas stats_defs = AddActiveSession_def AddActiveChannel_def AddAuthFailure_def
  AddExpiredUDP_def AddDroppedUDP_def SetSessionQueueBytes_def SetChannelQueueBytes_def

section \<open>SafeMap\<close>

record ('k, 'v) safe_map =
  sm :: "'k \<rightharpoonup> 'v"

definition NewSafeMap :: "('k, 'v) safe_map" where
  "NewSafeMap = \<lparr>sm = Map.empty\<rparr>"

text \<open>\<^verbatim>\<open>Load\<close>'s result \<^verbatim>\<open>(zero, false)\<close> is \<open>None\<close>.\<close>

definition SafeMap_Load :: "'k \<Rightarrow> ('k, 'v) safe_map \<Rightarrow> 'v option" where
  "SafeMap_Load k m = sm m k"

definition SafeMap_Store :: "'k \<Rightarrow> 'v \<Rightarrow> ('k, 'v) safe_map \<Rightarrow> ('k, 'v) safe_map" where
  "SafeMap_Store k v m = m\<lparr>sm := (sm m)(k \<mapsto> v)\<rparr>"

definition SafeMap_Delete :: "'k \<Rightarrow> ('k, 'v) safe_map \<Rightarrow> ('k, 'v) safe_map" where
  "SafeMap_Delete k m = m\<lparr>sm := (sm m)(k := None)\<rparr>"

text \<open>
  \<^verbatim>\<open>Range\<close> calls \<open>fn\<close>, which here returns whether to continue and a new accumulator,
  on the entries in the order \<open>ks\<close> in which Go visits them.
\<close>

fun SafeMap_Range ::
  "('k \<Rightarrow> 'v \<Rightarrow> 's \<Rightarrow> bool \<times> 's) \<Rightarrow> 'k list \<Rightarrow> ('k, 'v) safe_map \<Rightarrow> 's \<Rightarrow> 's" where
  "SafeMap_Range fn [] m s = s"
| "SafeMap_Range fn (k # ks) m s =
     (case sm m k of
        None \<Rightarrow> SafeMap_Range fn ks m s
      | Some v \<Rightarrow> (let (go_on, s1) = fn k v s in
          if go_on then SafeMap_Range fn ks m s1 else s1))"

section \<open>Tables by key\<close>

text \<open>Writes to a table; \<open>last_write\<close> is the outcome for one key of a sequence of them.\<close>

datatype ('k, 'v) table_write = PutAt 'k 'v | DeleteAt 'k

fun last_write :: "'k \<Rightarrow> ('k, 'v) table_write list \<Rightarrow> 'v option \<Rightarrow> 'v option" where
  "last_write k [] d = d"
| "last_write k (PutAt k' v # ws) d = last_write k ws (if k' = k then Some v else d)"
| "last_write k (DeleteAt k' # ws) d = last_write k ws (if k' = k then None else d)"

fun apply_writes ::
  "('k \<Rightarrow> 'v \<Rightarrow> 'm \<Rightarrow> 'm) \<Rightarrow> ('k \<Rightarrow> 'm \<Rightarrow> 'm) \<Rightarrow> ('k, 'v) table_write list \<Rightarrow> 'm \<Rightarrow> 'm" where
  "apply_writes put del [] m = m"
| "apply_writes put del (PutAt k v # ws) m = apply_writes put del ws (put k v m)"
| "apply_writes put del (DeleteAt k # ws) m = apply_writes put del ws (del k m)"

locale registry =
  fixes lookup :: "'k \<Rightarrow> 'm \<Rightarrow> 'v option"
    and put :: "'k \<Rightarrow> 'v \<Rightarrow> 'm \<Rightarrow> 'm"
    and del :: "'k \<Rightarrow> 'm \<Rightarrow> 'm"
  assumes lookup_put: "lookup k (put k' v m) = (if k = k' then Some v else lookup k m)"
    and lookup_del: "lookup k (del k' m) = (if k = k' then None else lookup k m)"
begin

lemma lookup_apply_writes: "lookup k (apply_writes put del ws m) = last_write k ws (lookup k m)"
proof (induction ws arbitrary: m)
  case (Cons w ws)
  then show ?case by (cases w) (auto simp: lookup_put lookup_del)
qed simp

lemma lookup_untouched:
  "\<forall>w \<in> set ws. (case w of PutAt k' v \<Rightarrow> k' | DeleteAt k' \<Rightarrow> k') \<noteq> k \<Longrightarrow>
     lookup k (apply_writes put del ws m) = lookup k m"
proof (induction ws arbitrary: m)
  case (Cons w ws)
  then show ?case by (cases w) (auto simp: lookup_put lookup_del)
qed simp

end

interpretation safe_map: registry SafeMap_Load SafeMap_Store SafeMap_Delete
  by unfold_locales (simp_all add: SafeMap_Load_def SafeMap_Store_def SafeMap_Delete_def)

end
