(* ===== verification/SLPP_Session.thy ===== *)
theory SLPP_Session
  imports SLPP_Queue SLPP_Stats
begin

text \<open>
  The session engine, \<^verbatim>\<open>internal/core/session.go\<close>: two bounded queues drained by the
  write loop, the read loop that hands frames to a handler, the heartbeat, and
  \<^verbatim>\<open>Run\<close> with \<^verbatim>\<open>Close\<close>.

  The three loops run as goroutines.  What they share is the queues (each under its mutex), the
  atomic counters, and the \<^verbatim>\<open>closed\<close> channel, so the model interleaves their iterations as
  atomic steps: an iteration touches the shared state of the others at one point only (one pop,
  one push of the handler, one atomic addition).  The shared \<^verbatim>\<open>Stats\<close> object is a field; another
  session changing it is a step of its own.
\<close>

section \<open>State\<close>

record session =
  s_id :: u32
  s_reader :: reader
  s_writer :: writer
  heartbeat :: int
  controlQ :: frame_queue
  dataQ :: frame_queue
  closed :: bool
  lastErr :: "go_error option"
  nextSeq :: u32
  lastActive :: int
  s_stats :: stats

text \<open>The interval that both programs pass, \<^verbatim>\<open>transport.DefaultHeartbeat\<close>.\<close>

definition DefaultHeartbeat :: int where
  "DefaultHeartbeat = DefaultHeartbeatSecs * 1000000000"

definition NewSession :: "u32 \<Rightarrow> reader \<Rightarrow> writer \<Rightarrow> stats \<Rightarrow> int \<Rightarrow> int \<Rightarrow> session" where
  "NewSession ident rd wr st hb now =
     \<lparr>s_id = ident, s_reader = rd, s_writer = wr,
      heartbeat = (if hb \<le> 0 then DefaultHeartbeatSecs * 1000000000 else hb),
      controlQ = NewFrameQueue 256 MaxQueuedBytesSession,
      dataQ = NewFrameQueue 1024 MaxQueuedBytesSession,
      closed = False, lastErr = None, nextSeq = 0, lastActive = now, s_stats = st\<rparr>"

section \<open>Queueing and writing frames\<close>

definition record_queue_bytes :: "session \<Rightarrow> session" where
  "record_queue_bytes s = s\<lparr>s_stats := SetSessionQueueBytes
     (of_int (QueuedBytes (controlQ s) + QueuedBytes (dataQ s))) (s_stats s)\<rparr>"

definition QueueControl :: "frame \<Rightarrow> session \<Rightarrow> go_error option \<times> session" where
  "QueueControl f s =
     (let (e, q) = Push f (controlQ s) in (e, record_queue_bytes (s\<lparr>controlQ := q\<rparr>)))"

definition QueueData :: "frame \<Rightarrow> session \<Rightarrow> go_error option \<times> session" where
  "QueueData f s =
     (let (e, q) = Push f (dataQ s) in (e, record_queue_bytes (s\<lparr>dataQ := q\<rparr>)))"

text \<open>\<open>stamp\<close> is the part of \<^verbatim>\<open>writeFrame\<close> that fills in session and sequence number.\<close>

definition stamp :: "frame \<Rightarrow> session \<Rightarrow> frame \<times> session" where
  "stamp f s =
     (let f1 = (if sessionID f = 0 then f\<lparr>sessionID := s_id s\<rparr> else f) in
      if seqNo f1 = 0 \<and> ftype f1 \<noteq> FramePING \<and> ftype f1 \<noteq> FramePONG
      then (f1\<lparr>seqNo := nextSeq s + 1\<rparr>, s\<lparr>nextSeq := nextSeq s + 1\<rparr>)
      else (f1, s))"

definition writeFrame :: "frame \<Rightarrow> session \<Rightarrow> go_error option \<times> session" where
  "writeFrame f s =
     (let (g, s1) = stamp f s in
      case Encode g (s_writer s1) of
        (Some e, w) \<Rightarrow> (Some e, s1\<lparr>s_writer := w\<rparr>)
      | (None, w) \<Rightarrow>
          (None, s1\<lparr>s_writer := w, s_stats := (s_stats s1)
             \<lparr>framesOut := framesOut (s_stats s1) + 1,
              bytesOut := bytesOut (s_stats s1) + of_nat (length (payload g))\<rparr>\<rparr>))"

section \<open>The three loops\<close>

text \<open>
  One iteration of a loop either continues or returns an error (\<open>None\<close> for
  \<^verbatim>\<open>nil\<close>).  \<open>select\<close> is the branch that the \<^verbatim>\<open>select\<close> statement at its head takes.
\<close>

datatype loop_result = Continue | Return "go_error option"

datatype select_branch = SelDone go_error | SelClosed | SelDefault

definition writeLoop_iter :: "select_branch \<Rightarrow> session \<Rightarrow> loop_result \<times> session" where
  "writeLoop_iter sel s =
     (case sel of
        SelDone e \<Rightarrow> (Return (Some e), s)
      | SelClosed \<Rightarrow> (Return None, s)
      | SelDefault \<Rightarrow>
          (case Pop (controlQ s) of
             (Some f, q) \<Rightarrow>
               (case writeFrame f (s\<lparr>controlQ := q\<rparr>) of
                  (Some e, s1) \<Rightarrow> (Return (Some e), s1)
                | (None, s1) \<Rightarrow> (Continue, s1))
           | (None, _) \<Rightarrow>
               (case Pop (dataQ s) of
                  (Some f, q) \<Rightarrow>
                    (case writeFrame f (s\<lparr>dataQ := q\<rparr>) of
                       (Some e, s1) \<Rightarrow> (Return (Some e), s1)
                     | (None, s1) \<Rightarrow> (Continue, s1))
                | (None, _) \<Rightarrow> (Continue, s))))"

definition heartbeatLoop_iter :: "select_branch \<Rightarrow> session \<Rightarrow> loop_result \<times> session" where
  "heartbeatLoop_iter sel s =
     (case sel of
        SelDone e \<Rightarrow> (Return (Some e), s)
      | SelClosed \<Rightarrow> (Return None, s)
      | SelDefault \<Rightarrow>
          (let s1 = s\<lparr>nextSeq := nextSeq s + 1\<rparr>;
               f = zero_frame\<lparr>ftype := FramePING, sessionID := s_id s1, seqNo := nextSeq s1\<rparr>
           in case QueueControl f s1 of
                (Some e, s2) \<Rightarrow> (Return (Some e), s2)
              | (None, s2) \<Rightarrow> (Continue, s2)))"

text \<open>A handler, \<^verbatim>\<open>SessionHandler\<close>, has a state of its own and may change the session.\<close>

type_synonym 'h handler = "frame \<Rightarrow> 'h \<Rightarrow> session \<Rightarrow> go_error option \<times> 'h \<times> session"

definition readLoop_iter ::
  "'h handler \<Rightarrow> select_branch \<Rightarrow> int \<Rightarrow> 'h \<Rightarrow> session \<Rightarrow> loop_result \<times> 'h \<times> session" where
  "readLoop_iter handle sel now h s =
     (case sel of
        SelDone e \<Rightarrow> (Return (Some e), h, s)
      | _ \<Rightarrow>
          (case Decode (s_reader s) of
             (Inl e, r) \<Rightarrow> (Return (Some e), h, s\<lparr>s_reader := r\<rparr>)
           | (Inr f, r) \<Rightarrow>
               (let s1 = s\<lparr>s_reader := r, lastActive := now, s_stats := (s_stats s)
                      \<lparr>framesIn := framesIn (s_stats s) + 1,
                       bytesIn := bytesIn (s_stats s) + of_nat (length (payload f))\<rparr>\<rparr>
                in case handle f h s1 of
                     (Some e, h2, s2) \<Rightarrow> (Return (Some e), h2, s2)
                   | (None, h2, s2) \<Rightarrow> (Continue, h2, s2))))"

section \<open>Close and Run\<close>

definition Close :: "go_error option \<Rightarrow> session \<Rightarrow> session" where
  "Close e s = (if closed s then s else s\<lparr>closed := True, lastErr := e\<rparr>)"

definition IsGraceful :: "go_error option \<Rightarrow> bool" where
  "IsGraceful e = (case e of None \<Rightarrow> True | Some err \<Rightarrow> errors_is err EOF \<or> errors_is err Canceled)"

definition session_Err :: "session \<Rightarrow> go_error option" where
  "session_Err s = lastErr s"

definition session_Stats :: "session \<Rightarrow> stats" where
  "session_Stats s = s_stats s"

definition session_LastActive :: "session \<Rightarrow> int" where
  "session_LastActive s = lastActive s"

text \<open>
  A session being run: the three goroutines, the channel \<open>errCh\<close> on which each sends its
  result once, the context (\<open>Some e\<close> once done), and \<^verbatim>\<open>Run\<close> itself, which has returned
  when \<open>result\<close> is set.
\<close>

record 'h running =
  sess :: session
  hand :: 'h
  ctx :: "go_error option"
  reading :: bool
  writing :: bool
  beating :: bool
  errCh :: "go_error option list"
  result :: "go_error option option"

definition start_run :: "'h \<Rightarrow> session \<Rightarrow> 'h running" where
  "start_run h s = \<lparr>sess = s, hand = h, ctx = None, reading = True, writing = True,
     beating = True, errCh = [], result = None\<rparr>"

definition may_select :: "'h running \<Rightarrow> select_branch \<Rightarrow> bool" where
  "may_select R sel =
     (case sel of
        SelDone e \<Rightarrow> ctx R = Some e
      | SelClosed \<Rightarrow> closed (sess R)
      | SelDefault \<Rightarrow> ctx R = None \<and> \<not> closed (sess R))"

definition after :: "loop_result \<Rightarrow> go_error option list" where
  "after res = (case res of Continue \<Rightarrow> [] | Return e \<Rightarrow> [e])"

text \<open>
  The read loop looks at the context only, not at \<^verbatim>\<open>closed\<close>: it goes on reading after
  \<^verbatim>\<open>Close\<close>.  The ticker branch of the heartbeat may be taken whenever it is ready, also when the
  context is done or the session closed, since \<^verbatim>\<open>select\<close> chooses among ready branches.
\<close>

inductive run_step :: "'h handler \<Rightarrow> 'h running \<Rightarrow> 'h running \<Rightarrow> bool" for handle where
  read_iter: "reading R \<Longrightarrow> sel \<noteq> SelClosed \<Longrightarrow> (\<forall>e. sel = SelDone e \<longrightarrow> ctx R = Some e) \<Longrightarrow>
     (sel = SelDefault \<longrightarrow> ctx R = None) \<Longrightarrow>
     readLoop_iter handle sel now (hand R) (sess R) = (res, h, s) \<Longrightarrow>
     run_step handle R (R\<lparr>sess := s, hand := h, reading := (res = Continue),
       errCh := errCh R @ after res\<rparr>)"
| write_iter: "writing R \<Longrightarrow> may_select R sel \<Longrightarrow> writeLoop_iter sel (sess R) = (res, s) \<Longrightarrow>
     run_step handle R (R\<lparr>sess := s, writing := (res = Continue), errCh := errCh R @ after res\<rparr>)"
| beat_iter: "beating R \<Longrightarrow> may_select R sel \<or> sel = SelDefault \<Longrightarrow>
     heartbeatLoop_iter sel (sess R) = (res, s) \<Longrightarrow>
     run_step handle R (R\<lparr>sess := s, beating := (res = Continue), errCh := errCh R @ after res\<rparr>)"
| cancel: "ctx R = None \<Longrightarrow> e \<in> {Canceled, DeadlineExceeded} \<Longrightarrow>
     run_step handle R (R\<lparr>ctx := Some e\<rparr>)"
| run_ctx: "result R = None \<Longrightarrow> ctx R = Some e \<Longrightarrow>
     run_step handle R (R\<lparr>sess := Close (Some e) (sess R),
       result := Some (lastErr (Close (Some e) (sess R)))\<rparr>)"
| run_err: "result R = None \<Longrightarrow> errCh R = e # es \<Longrightarrow>
     run_step handle R (R\<lparr>sess := Close e (sess R), errCh := es,
       result := Some (lastErr (Close e (sess R)))\<rparr>)"
| push_control: "QueueControl f (sess R) = (e, s) \<Longrightarrow> run_step handle R (R\<lparr>sess := s\<rparr>)"
| push_data: "QueueData f (sess R) = (e, s) \<Longrightarrow> run_step handle R (R\<lparr>sess := s\<rparr>)"
| other_stats: "run_step handle R (R\<lparr>sess := (sess R)\<lparr>s_stats := st\<rparr>\<rparr>)"
| other_handler: "run_step handle R (R\<lparr>hand := h\<rparr>)"

inductive run_steps :: "'h handler \<Rightarrow> 'h running \<Rightarrow> 'h running \<Rightarrow> bool" for handle where
  done_steps: "run_steps handle R R"
| more_steps: "run_steps handle R S \<Longrightarrow> run_step handle S T \<Longrightarrow> run_steps handle R T"

inductive_cases run_stepE: "run_step handle R S"

section \<open>Well-formed sessions\<close>

definition session_wf :: "session \<Rightarrow> bool" where
  "session_wf s \<longleftrightarrow> q_inv (controlQ s) \<and> q_inv (dataQ s)
     \<and> maxBytes (controlQ s) = MaxQueuedBytesSession \<and> maxBytes (dataQ s) = MaxQueuedBytesSession
     \<and> length (items (controlQ s)) = 256 \<and> length (items (dataQ s)) = 1024"

text \<open>What a handler, or another goroutine, may do to a session: queue frames and count.\<close>

definition queues_only :: "session \<Rightarrow> session \<Rightarrow> bool" where
  "queues_only s t \<longleftrightarrow> closed t = closed s \<and> lastErr t = lastErr s \<and> s_id t = s_id s
     \<and> lastActive t = lastActive s
     \<and> s_writer t = s_writer s \<and> s_reader t = s_reader s \<and> nextSeq t = nextSeq s
     \<and> (session_wf s \<longrightarrow> session_wf t)"

lemma queues_only_refl [simp]: "queues_only s s"
  by (simp add: queues_only_def)

lemma queues_only_trans [trans]: "queues_only s t \<Longrightarrow> queues_only t u \<Longrightarrow> queues_only s u"
  by (auto simp: queues_only_def)

lemma queues_only_stats [simp]: "queues_only s (s\<lparr>s_stats := st\<rparr>)"
  by (simp add: queues_only_def session_wf_def)

lemma session_wf_New: "session_wf (NewSession ident rd wr st hb now)"
  by (simp add: session_wf_def NewSession_def q_inv_New)

lemma record_queue_bytes_simps [simp]:
  "controlQ (record_queue_bytes s) = controlQ s" "dataQ (record_queue_bytes s) = dataQ s"
  "closed (record_queue_bytes s) = closed s" "lastErr (record_queue_bytes s) = lastErr s"
  "s_id (record_queue_bytes s) = s_id s" "s_writer (record_queue_bytes s) = s_writer s"
  "s_reader (record_queue_bytes s) = s_reader s" "nextSeq (record_queue_bytes s) = nextSeq s"
  "lastActive (record_queue_bytes s) = lastActive s"
  "framesOut (s_stats (record_queue_bytes s)) = framesOut (s_stats s)"
  "bytesOut (s_stats (record_queue_bytes s)) = bytesOut (s_stats s)"
  by (simp_all add: record_queue_bytes_def SetSessionQueueBytes_def)

lemma QueueControl_queues_only: "queues_only s (snd (QueueControl f s))"
  by (auto simp: queues_only_def QueueControl_def session_wf_def split_beta Let_def fq.push_inv)

lemma QueueData_queues_only: "queues_only s (snd (QueueData f s))"
  by (auto simp: queues_only_def QueueData_def session_wf_def split_beta Let_def fq.push_inv)

text \<open>A queue of a well-formed session accepts a frame exactly when there is room for it.\<close>

definition control_room :: "session \<Rightarrow> frame \<Rightarrow> bool" where
  "control_room s f \<longleftrightarrow> length (q_list (controlQ s)) < 256
     \<and> payload_bytes (q_list (controlQ s)) + int (length (payload f)) \<le> MaxQueuedBytesSession"

definition data_room :: "session \<Rightarrow> frame \<Rightarrow> bool" where
  "data_room s f \<longleftrightarrow> length (q_list (dataQ s)) < 1024
     \<and> payload_bytes (q_list (dataQ s)) + int (length (payload f)) \<le> MaxQueuedBytesSession"

lemma QueueControl_list:
  assumes "session_wf s"
  shows "fst (QueueControl f s) = (if control_room s f then None else Some ErrQueueFull)"
    and "q_list (controlQ (snd (QueueControl f s)))
      = q_list (controlQ s) @ (if control_room s f then [f] else [])"
    and "dataQ (snd (QueueControl f s)) = dataQ s" and "session_wf (snd (QueueControl f s))"
  using assms Push_accepts [of "controlQ s" f] Push_full [of f "controlQ s"]
    fq.push_content [of "controlQ s" f] QueueControl_queues_only [of s f]
  by (auto simp: session_wf_def control_room_def QueueControl_def split_beta Let_def queues_only_def)

lemma QueueData_list:
  assumes "session_wf s"
  shows "fst (QueueData f s) = (if data_room s f then None else Some ErrQueueFull)"
    and "q_list (dataQ (snd (QueueData f s)))
      = q_list (dataQ s) @ (if data_room s f then [f] else [])"
    and "controlQ (snd (QueueData f s)) = controlQ s" and "session_wf (snd (QueueData f s))"
  using assms Push_accepts [of "dataQ s" f] Push_full [of f "dataQ s"]
    fq.push_content [of "dataQ s" f] QueueData_queues_only [of s f]
  by (auto simp: session_wf_def data_room_def QueueData_def split_beta Let_def queues_only_def)

lemma stamp_session:
  "snd (stamp f s) = s\<lparr>nextSeq := nextSeq (snd (stamp f s))\<rparr>"
  by (simp add: stamp_def Let_def)

lemma stamp_simps [simp]:
  "controlQ (snd (stamp f s)) = controlQ s" "dataQ (snd (stamp f s)) = dataQ s"
  "closed (snd (stamp f s)) = closed s" "lastErr (snd (stamp f s)) = lastErr s"
  "s_id (snd (stamp f s)) = s_id s" "s_writer (snd (stamp f s)) = s_writer s"
  "s_reader (snd (stamp f s)) = s_reader s" "s_stats (snd (stamp f s)) = s_stats s"
  "payload (fst (stamp f s)) = payload f" "ftype (fst (stamp f s)) = ftype f"
  by (simp_all add: stamp_def Let_def)

lemma writeFrame_simps [simp]:
  "controlQ (snd (writeFrame f s)) = controlQ s" "dataQ (snd (writeFrame f s)) = dataQ s"
  "closed (snd (writeFrame f s)) = closed s" "lastErr (snd (writeFrame f s)) = lastErr s"
  "s_id (snd (writeFrame f s)) = s_id s" "s_reader (snd (writeFrame f s)) = s_reader s"
  by (simp_all add: writeFrame_def split_beta Let_def split: option.splits)

text \<open>An iteration of a loop, or \<^verbatim>\<open>Close\<close>, keeps a session well-formed.\<close>

lemma writeLoop_iter_cases:
  assumes "writeLoop_iter sel s = (res, t)"
  obtains (same) "t = s" "res = Return None \<longrightarrow> sel = SelClosed"
    | (control) f where "t = snd (writeFrame f (s\<lparr>controlQ := snd (Pop (controlQ s))\<rparr>))" "res \<noteq> Return None"
    | (data) f where "t = snd (writeFrame f (s\<lparr>dataQ := snd (Pop (dataQ s))\<rparr>))" "res \<noteq> Return None"
proof (cases sel)
  case SelDefault
  let ?c = "s\<lparr>controlQ := snd (Pop (controlQ s))\<rparr>" and ?d = "s\<lparr>dataQ := snd (Pop (dataQ s))\<rparr>"
  have "(t = s \<or> (\<exists>f. t = snd (writeFrame f ?c)) \<or> (\<exists>f. t = snd (writeFrame f ?d))) \<and> res \<noteq> Return None"
    using assms SelDefault
    by (auto simp: writeLoop_iter_def split: prod.splits option.splits)
      (metis prod.collapse prod.inject snd_conv)+
  then show ?thesis using that by blast
qed (use assms that in \<open>auto simp: writeLoop_iter_def\<close>)

lemma writeLoop_iter_keeps:
  assumes "writeLoop_iter sel s = (res, t)"
  shows "closed t = closed s \<and> lastErr t = lastErr s \<and> (session_wf s \<longrightarrow> session_wf t)
     \<and> (res = Return None \<longrightarrow> sel = SelClosed)"
proof -
  have cq: "q_inv (controlQ s) \<Longrightarrow> q_inv (snd (Pop (controlQ s)))"
    and dq: "q_inv (dataQ s) \<Longrightarrow> q_inv (snd (Pop (dataQ s)))"
    by (simp_all add: fq.pop_inv)
  from assms show ?thesis
    by (cases rule: writeLoop_iter_cases) (use cq dq in \<open>auto simp: session_wf_def\<close>)
qed

lemma Pop_subset: "q_inv q \<Longrightarrow> set (q_list (snd (Pop q))) \<subseteq> set (q_list q)"
  using fq.pop_content [of q] by (metis Un_upper2 set_append)

lemma writeLoop_iter_subset:
  assumes "session_wf s"
  shows "set (q_list (controlQ (snd (writeLoop_iter sel s)))) \<subseteq> set (q_list (controlQ s))
    \<and> set (q_list (dataQ (snd (writeLoop_iter sel s)))) \<subseteq> set (q_list (dataQ s))"
proof -
  have inv: "q_inv (controlQ s)" "q_inv (dataQ s)" using assms by (simp_all add: session_wf_def)
  obtain res t where "writeLoop_iter sel s = (res, t)" by (metis prod.exhaust)
  then show ?thesis
    by (cases rule: writeLoop_iter_cases) (use Pop_subset [OF inv(1)] Pop_subset [OF inv(2)]
      \<open>writeLoop_iter sel s = (res, t)\<close> in auto)
qed

lemma heartbeatLoop_iter_keeps:
  "heartbeatLoop_iter sel s = (res, t) \<Longrightarrow>
     closed t = closed s \<and> lastErr t = lastErr s \<and> (session_wf s \<longrightarrow> session_wf t)
     \<and> (res = Return None \<longrightarrow> sel = SelClosed)"
proof -
  assume it: "heartbeatLoop_iter sel s = (res, t)"
  show ?thesis
  proof (cases sel)
    case SelDefault
    define s1 where "s1 = s\<lparr>nextSeq := nextSeq s + 1\<rparr>"
    then obtain f where t: "t = snd (QueueControl f s1)" and "res \<noteq> Return None"
      using it SelDefault
      by (auto simp: heartbeatLoop_iter_def Let_def split: prod.splits option.splits)
        (metis snd_conv)+
    have "session_wf s1 = session_wf s" "closed s1 = closed s" "lastErr s1 = lastErr s"
      by (simp_all add: s1_def session_wf_def)
    then show ?thesis
      using QueueControl_queues_only [of s1 f] \<open>res \<noteq> Return None\<close> t
      by (auto simp: queues_only_def)
  qed (use it in \<open>auto simp: heartbeatLoop_iter_def\<close>)
qed

lemma session_wf_closed [simp]:
  "session_wf (s\<lparr>closed := b, lastErr := e\<rparr>) = session_wf s"
  by (simp add: session_wf_def)

lemma Close_keeps [simp]: "session_wf (Close e s) = session_wf s"
  by (simp add: Close_def session_wf_def)

section \<open>The contract of a handler\<close>

text \<open>
  The Go interface \<^verbatim>\<open>SessionHandler\<close>: the session relies on a handler to queue frames and
  count only, never to close the session or to touch its reader and writer.
\<close>

locale session_handler =
  fixes handle :: "'h handler"
  assumes handler_queues_only: "handle f h s = (e, h2, s2) \<Longrightarrow> queues_only s s2"
begin

lemma readLoop_iter_keeps:
  "readLoop_iter handle sel now h s = (res, h2, t) \<Longrightarrow>
     closed t = closed s \<and> lastErr t = lastErr s \<and> (session_wf s \<longrightarrow> session_wf t)
     \<and> res \<noteq> Return None"
proof (cases "Decode (s_reader s)")
  case (Pair d r)
  assume it: "readLoop_iter handle sel now h s = (res, h2, t)"
  show ?thesis
  proof (cases "\<exists>f. d = Inr f \<and> (\<forall>e. sel \<noteq> SelDone e)")
    case True
    then obtain f where f: "d = Inr f" "\<forall>e. sel \<noteq> SelDone e" by blast
    define s1 where "s1 = s\<lparr>s_reader := r, lastActive := now, s_stats := (s_stats s)
        \<lparr>framesIn := framesIn (s_stats s) + 1,
         bytesIn := bytesIn (s_stats s) + of_nat (length (payload f))\<rparr>\<rparr>"
    obtain e where h: "handle f h s1 = (e, h2, t)" and "res \<noteq> Return None"
      using it f Pair unfolding s1_def
      by (auto simp: readLoop_iter_def Let_def split: select_branch.splits prod.splits option.splits)
    have "session_wf s1 = session_wf s" "closed s1 = closed s" "lastErr s1 = lastErr s"
      by (simp_all add: s1_def session_wf_def)
    then show ?thesis
      using handler_queues_only [OF h] \<open>res \<noteq> Return None\<close> by (auto simp: queues_only_def)
  next
    case False
    then show ?thesis
      using it Pair
      by (cases sel; cases d) (auto simp: readLoop_iter_def session_wf_def)
  qed
qed

text \<open>The session was last active when it read its last frame.\<close>

lemma readLoop_iter_active:
  "readLoop_iter handle SelDefault now h s = (res, h2, t) \<Longrightarrow>
     session_LastActive t = (if isl (fst (Decode (s_reader s))) then session_LastActive s else now)"
  using handler_queues_only
  by (auto simp: readLoop_iter_def Let_def session_LastActive_def queues_only_def
      split: prod.splits sum.splits option.splits)

text \<open>The invariant of a run.\<close>

definition run_inv :: "'h running \<Rightarrow> bool" where
  "run_inv R \<longleftrightarrow> session_wf (sess R)
     \<and> (result R = None \<longrightarrow> \<not> closed (sess R) \<and> None \<notin> set (errCh R)
          \<and> length (errCh R) = of_bool (\<not> reading R) + of_bool (\<not> writing R) + of_bool (\<not> beating R))
     \<and> (\<forall>r. result R = Some r \<longrightarrow> closed (sess R) \<and> lastErr (sess R) = r \<and> r \<noteq> None)
     \<and> length (errCh R) \<le> of_bool (\<not> reading R) + of_bool (\<not> writing R) + of_bool (\<not> beating R)"

lemma run_inv_start: "session_wf s \<Longrightarrow> \<not> closed s \<Longrightarrow> run_inv (start_run h s)"
  by (simp add: run_inv_def start_run_def)

lemma run_inv_step: "run_step handle R S \<Longrightarrow> run_inv R \<Longrightarrow> run_inv S"
proof (induction rule: run_step.induct)
  case (read_iter R sel now res h s)
  then show ?case
    using readLoop_iter_keeps [OF read_iter(5)]
    by (cases res) (auto simp: run_inv_def after_def)
next
  case (write_iter R sel res s)
  then show ?case
    using writeLoop_iter_keeps [OF write_iter(3)]
    by (cases res) (auto simp: run_inv_def after_def may_select_def)
next
  case (beat_iter R sel res s)
  then show ?case
    using heartbeatLoop_iter_keeps [OF beat_iter(3)]
    by (cases res) (auto simp: run_inv_def after_def may_select_def)
next
  case (run_ctx R e)
  then show ?case by (auto simp: run_inv_def Close_def)
next
  case (run_err R e es)
  then show ?case by (cases e) (auto simp: run_inv_def Close_def)
next
  case (push_control f R e s)
  then show ?case
    using QueueControl_queues_only [of "sess R" f] by (auto simp: run_inv_def queues_only_def)
next
  case (push_data f R e s)
  then show ?case
    using QueueData_queues_only [of "sess R" f] by (auto simp: run_inv_def queues_only_def)
next
  case (other_stats R st)
  then show ?case
    using queues_only_stats [of "sess R" st] by (auto simp: run_inv_def queues_only_def)
qed (auto simp: run_inv_def)

lemma run_inv_steps: "run_steps handle R S \<Longrightarrow> run_inv R \<Longrightarrow> run_inv S"
  by (induction rule: run_steps.induct) (auto intro: run_inv_step)

lemma run_result:
  assumes "run_steps handle (start_run h s) R" and "session_wf s" and "\<not> closed s"
    and "result R = Some r"
  shows "\<exists>e. r = Some e \<and> lastErr (sess R) = Some e \<and> closed (sess R)"
  using run_inv_steps [OF assms(1) run_inv_start [OF assms(2,3)]] assms(4)
  by (auto simp: run_inv_def)

lemma run_can_return:
  assumes "run_steps handle (start_run h s) R" and "session_wf s" and "\<not> closed s"
    and "result R = None" and "ctx R \<noteq> None \<or> \<not> reading R \<or> \<not> writing R \<or> \<not> beating R"
  shows "\<exists>S. run_step handle R S \<and> result S \<noteq> None"
proof (cases "ctx R")
  case (Some e)
  let ?S = "R\<lparr>sess := Close (Some e) (sess R), result := Some (lastErr (Close (Some e) (sess R)))\<rparr>"
  have "run_step handle R ?S" using assms(4) Some by (rule run_step.run_ctx)
  moreover have "result ?S \<noteq> None" by simp
  ultimately show ?thesis by blast
next
  case None
  then have "errCh R \<noteq> []"
    using run_inv_steps [OF assms(1) run_inv_start [OF assms(2,3)]] assms(4,5)
    by (auto simp: run_inv_def)
  then obtain e es where "errCh R = e # es" by (cases "errCh R") auto
  let ?S = "R\<lparr>sess := Close e (sess R), errCh := es, result := Some (lastErr (Close e (sess R)))\<rparr>"
  have "run_step handle R ?S" using assms(4) \<open>errCh R = e # es\<close> by (rule run_step.run_err)
  moreover have "result ?S \<noteq> None" by simp
  ultimately show ?thesis by blast
qed

lemma run_send_never_blocks:
  assumes "run_steps handle (start_run h s) R" and "session_wf s" and "\<not> closed s"
  shows "length (errCh R) \<le> 3"
  using run_inv_steps [OF assms(1) run_inv_start [OF assms(2,3)]]
  by (cases "reading R"; cases "writing R"; cases "beating R") (auto simp: run_inv_def)

end

section \<open>What the write loop puts on the wire\<close>

datatype frame_class = Control | Data

instantiation frame_class :: linorder
begin

definition less_eq_frame_class :: "frame_class \<Rightarrow> frame_class \<Rightarrow> bool" where
  "less_eq_frame_class a b \<longleftrightarrow> a = Control \<or> b = Data"

definition less_frame_class :: "frame_class \<Rightarrow> frame_class \<Rightarrow> bool" where
  "less_frame_class a b \<longleftrightarrow> a = Control \<and> b = Data"

instance
  by standard
    (auto simp: less_eq_frame_class_def less_frame_class_def split: frame_class.splits,
      (metis frame_class.exhaust)+)

end

definition queue_of :: "frame_class \<Rightarrow> session \<Rightarrow> frame_queue" where
  "queue_of c s = (case c of Control \<Rightarrow> controlQ s | Data \<Rightarrow> dataQ s)"

lemma queue_of_simps [simp]: "queue_of Control s = controlQ s" "queue_of Data s = dataQ s"
  by (simp_all add: queue_of_def)

lemma all_class: "(\<forall>c. P c) \<longleftrightarrow> P Control \<and> P Data"
  by (metis frame_class.exhaust)

text \<open>The operations on a session that runs without errors, in any interleaving.\<close>

datatype session_event = EvQueue frame_class frame | EvWrite | EvBeat

definition beat_frame :: "session \<Rightarrow> frame" where
  "beat_frame s = zero_frame\<lparr>ftype := FramePING, sessionID := s_id s, seqNo := nextSeq s + 1\<rparr>"

fun apply_event :: "session_event \<Rightarrow> session \<Rightarrow> session" where
  "apply_event (EvQueue Control f) s = snd (QueueControl f s)"
| "apply_event (EvQueue Data f) s = snd (QueueData f s)"
| "apply_event EvWrite s = snd (writeLoop_iter SelDefault s)"
| "apply_event EvBeat s = snd (heartbeatLoop_iter SelDefault s)"

text \<open>The frame an event adds to a queue, and the frame it writes.\<close>

definition pushed :: "session_event \<Rightarrow> session \<Rightarrow> (frame_class \<times> frame) list" where
  "pushed ev s =
     (case ev of
        EvQueue Control f \<Rightarrow> if fst (Push f (controlQ s)) = None then [(Control, f)] else []
      | EvQueue Data f \<Rightarrow> if fst (Push f (dataQ s)) = None then [(Data, f)] else []
      | EvWrite \<Rightarrow> []
      | EvBeat \<Rightarrow> if fst (Push (beat_frame s) (controlQ s)) = None
                   then [(Control, beat_frame s)] else [])"

definition wrote :: "session_event \<Rightarrow> session \<Rightarrow> (frame_class \<times> frame) list" where
  "wrote ev s =
     (case ev of
        EvWrite \<Rightarrow>
          (case q_list (controlQ s) of
             f # _ \<Rightarrow> [(Control, fst (stamp f s))]
           | [] \<Rightarrow> (case q_list (dataQ s) of
                 f # _ \<Rightarrow> [(Data, fst (stamp f s))]
               | [] \<Rightarrow> []))
      | _ \<Rightarrow> [])"

primrec event_log ::
  "(session_event \<Rightarrow> session \<Rightarrow> (frame_class \<times> frame) list) \<Rightarrow> session_event list \<Rightarrow> session
     \<Rightarrow> (frame_class \<times> frame) list" where
  "event_log what [] s = []"
| "event_log what (ev # evs) s = what ev s @ event_log what evs (apply_event ev s)"

definition of_class :: "frame_class \<Rightarrow> (frame_class \<times> frame) list \<Rightarrow> frame list" where
  "of_class c log = map snd (filter (\<lambda>x. fst x = c) log)"

text \<open>\<open>g\<close> is the queued frame \<open>f\<close> with the session and sequence number filled in.\<close>

definition stamped :: "u32 \<Rightarrow> frame \<Rightarrow> frame \<Rightarrow> bool" where
  "stamped sid f g \<longleftrightarrow>
     g = f\<lparr>sessionID := (if sessionID f = 0 then sid else sessionID f), seqNo := seqNo g\<rparr>
     \<and> (seqNo f \<noteq> 0 \<or> ftype f \<in> {FramePING, FramePONG} \<longrightarrow> seqNo g = seqNo f)"

lemma stamped_stamp: "stamped (s_id s) f (fst (stamp f s))"
  by (auto simp: stamped_def stamp_def Let_def)

lemma transmittable_stamp [simp]: "transmittable (fst (stamp f s)) = transmittable f"
  by (simp add: transmittable_def encodable_def stamp_def Let_def)

lemma transmittable_beat [simp]: "transmittable (beat_frame s)"
  by (simp add: transmittable_def encodable_def beat_frame_def zero_frame_def KnownFrameType_def)

lemma of_class_simps [simp]:
  "of_class c [] = []"
  "of_class c (x # log) = (if fst x = c then [snd x] else []) @ of_class c log"
  "of_class c (log @ log2) = of_class c log @ of_class c log2"
  by (simp_all add: of_class_def)

definition ready :: "session \<Rightarrow> bool" where
  "ready s \<longleftrightarrow> session_wf s \<and> room (s_writer s) = None
     \<and> (\<forall>c. \<forall>f \<in> set (q_list (queue_of c s)). transmittable f)"

fun event_ok :: "session_event \<Rightarrow> bool" where
  "event_ok (EvQueue c f) = transmittable f"
| "event_ok _ = True"

definition count_written :: "(frame_class \<times> frame) list \<Rightarrow> nat" where
  "count_written log = (\<Sum>x \<leftarrow> log. length (payload (snd x)))"

text \<open>One event: how it moves the queues, the wire and the counters.\<close>

definition event_effect :: "session_event \<Rightarrow> session \<Rightarrow> session \<Rightarrow> bool" where
  "event_effect ev s t \<longleftrightarrow> ready t \<and> s_id t = s_id s
     \<and> written (s_writer t) = written (s_writer s) @ concat (map (frame_wire \<circ> snd) (wrote ev s))
     \<and> (\<forall>x \<in> set (wrote ev s). transmittable (snd x))
     \<and> (\<forall>c. \<exists>fs. q_list (queue_of c s) @ of_class c (pushed ev s) = fs @ q_list (queue_of c t)
            \<and> list_all2 (stamped (s_id s)) fs (of_class c (wrote ev s)))
     \<and> framesOut (s_stats t) = framesOut (s_stats s) + of_nat (length (wrote ev s))
     \<and> bytesOut (s_stats t) = bytesOut (s_stats s) + of_nat (count_written (wrote ev s))"

lemma writeFrame_ok:
  assumes "transmittable f" and "room (s_writer s) = None"
  shows "writeFrame f s = (None, (snd (stamp f s))
    \<lparr>s_writer := (s_writer s)\<lparr>written := written (s_writer s) @ frame_wire (fst (stamp f s))\<rparr>,
     s_stats := (s_stats s)\<lparr>framesOut := framesOut (s_stats s) + 1,
       bytesOut := bytesOut (s_stats s) + of_nat (length (payload f))\<rparr>\<rparr>)"
  using assms
  by (simp add: writeFrame_def split_beta Let_def codec.encode_valid)

lemma queue_effect:
  assumes "ready s" and "event_ok (EvQueue c f)"
  shows "event_effect (EvQueue c f) s (apply_event (EvQueue c f) s)"
proof -
  have inv: "q_inv (controlQ s)" "q_inv (dataQ s)"
    using assms(1) by (simp_all add: ready_def session_wf_def)
  show ?thesis
    using assms inv QueueControl_queues_only [of s f] QueueData_queues_only [of s f]
      fq.push_content [OF inv(1), of f] fq.push_content [OF inv(2), of f]
    by (cases c)
      (auto simp: event_effect_def ready_def queues_only_def QueueControl_def QueueData_def pushed_def
        wrote_def split_beta Let_def count_written_def all_class)
qed

lemma beat_effect:
  assumes "ready s"
  shows "event_effect EvBeat s (apply_event EvBeat s)"
proof -
  define s1 where "s1 = s\<lparr>nextSeq := nextSeq s + 1\<rparr>"
  have "apply_event EvBeat s = apply_event (EvQueue Control (beat_frame s)) s1"
    by (simp add: heartbeatLoop_iter_def s1_def beat_frame_def Let_def split_beta
        split: option.splits)
  moreover have "ready s1"
    using assms by (simp add: ready_def session_wf_def s1_def queue_of_def split: frame_class.splits)
  then have "event_effect (EvQueue Control (beat_frame s)) s1
      (apply_event (EvQueue Control (beat_frame s)) s1)"
    by (rule queue_effect) simp
  ultimately show ?thesis
    by (simp add: event_effect_def pushed_def wrote_def s1_def all_class)
qed

lemma pop_effect:
  assumes "ready s" and "q_list (queue_of c s) = f # rest"
  shows "\<exists>q. Pop (queue_of c s) = (Some f, q) \<and> q_list q = rest \<and> q_inv q
    \<and> maxBytes q = maxBytes (queue_of c s) \<and> length (items q) = length (items (queue_of c s))"
proof -
  have inv: "q_inv (queue_of c s)"
    using assms(1) by (cases c) (simp_all add: ready_def session_wf_def)
  obtain g q where gq: "Pop (queue_of c s) = (Some g, q)"
    using fq.pop_None [OF inv] assms(2) by (cases "Pop (queue_of c s)"; cases "fst (Pop (queue_of c s))") auto
  then show ?thesis
    using fq.pop_content [OF inv] fq.pop_inv [OF inv] assms(2) Pop_limits [of "queue_of c s"] by simp
qed

lemma write_effect:
  assumes "ready s"
  shows "event_effect EvWrite s (apply_event EvWrite s)
    \<and> fst (writeLoop_iter SelDefault s) = Continue"
proof -
  have inv: "q_inv (controlQ s)" "q_inv (dataQ s)" and rm: "room (s_writer s) = None"
    using assms by (simp_all add: ready_def session_wf_def)
  have tr: "\<And>f. f \<in> set (q_list (controlQ s)) \<Longrightarrow> transmittable f"
    "\<And>f. f \<in> set (q_list (dataQ s)) \<Longrightarrow> transmittable f"
    using assms by (auto simp: ready_def all_class)
  show ?thesis
  proof (cases "q_list (controlQ s)")
    case (Cons f rest)
    then obtain q where q: "Pop (controlQ s) = (Some f, q)" "q_list q = rest" "q_inv q"
      "maxBytes q = maxBytes (controlQ s)" "length (items q) = length (items (controlQ s))"
      using pop_effect [OF assms, of Control] by auto
    have st: "stamp f (s\<lparr>controlQ := q\<rparr>) = (fst (stamp f s), (snd (stamp f s))\<lparr>controlQ := q\<rparr>)"
      by (simp add: stamp_def Let_def)
    have "transmittable f" using tr Cons by simp
    then show ?thesis
      using Cons q tr assms stamped_stamp [of s f]
      by (simp add: writeLoop_iter_def writeFrame_ok rm st event_effect_def ready_def session_wf_def
          all_class wrote_def pushed_def count_written_def)
  next
    case Nil
    then have c: "Pop (controlQ s) = (None, controlQ s)" by (simp add: Pop_empty q_list_Nil)
    show ?thesis
    proof (cases "q_list (dataQ s)")
      case (Cons f rest)
      then obtain q where q: "Pop (dataQ s) = (Some f, q)" "q_list q = rest" "q_inv q"
        "maxBytes q = maxBytes (dataQ s)" "length (items q) = length (items (dataQ s))"
        using pop_effect [OF assms, of Data] by auto
      have st: "stamp f (s\<lparr>dataQ := q\<rparr>) = (fst (stamp f s), (snd (stamp f s))\<lparr>dataQ := q\<rparr>)"
        by (simp add: stamp_def Let_def)
      have "transmittable f" using tr Cons by simp
      then show ?thesis
        using Nil Cons c q tr assms stamped_stamp [of s f]
        by (simp add: writeLoop_iter_def writeFrame_ok rm st event_effect_def ready_def session_wf_def
            all_class wrote_def pushed_def count_written_def)
    next
      case Nil2: Nil
      then have "Pop (dataQ s) = (None, dataQ s)" by (simp add: Pop_empty q_list_Nil)
      then show ?thesis
        using Nil Nil2 c assms
        by (simp add: writeLoop_iter_def event_effect_def wrote_def pushed_def count_written_def)
    qed
  qed
qed

lemma apply_event_effect: "ready s \<Longrightarrow> event_ok ev \<Longrightarrow> event_effect ev s (apply_event ev s)"
  using queue_effect beat_effect write_effect by (cases ev) auto

primrec apply_events :: "session_event list \<Rightarrow> session \<Rightarrow> session" where
  "apply_events [] s = s"
| "apply_events (ev # evs) s = apply_events evs (apply_event ev s)"

lemma events_effect:
  assumes "ready s" and "\<forall>ev \<in> set evs. event_ok ev"
  shows "ready (apply_events evs s)
    \<and> written (s_writer (apply_events evs s))
        = written (s_writer s) @ concat (map (frame_wire \<circ> snd) (event_log wrote evs s))
    \<and> (\<forall>x \<in> set (event_log wrote evs s). transmittable (snd x))
    \<and> (\<forall>c. \<exists>fs. q_list (queue_of c s) @ of_class c (event_log pushed evs s)
          = fs @ q_list (queue_of c (apply_events evs s))
        \<and> list_all2 (stamped (s_id s)) fs (of_class c (event_log wrote evs s)))
    \<and> framesOut (s_stats (apply_events evs s))
        = framesOut (s_stats s) + of_nat (length (event_log wrote evs s))
    \<and> bytesOut (s_stats (apply_events evs s))
        = bytesOut (s_stats s) + of_nat (count_written (event_log wrote evs s))"
  using assms
proof (induction evs arbitrary: s)
  case Nil
  then show ?case by (simp add: count_written_def)
next
  case (Cons ev evs)
  let ?t = "apply_event ev s"
  have eff: "event_effect ev s ?t" using Cons.prems by (simp add: apply_event_effect)
  then have "ready ?t" "s_id ?t = s_id s" by (simp_all add: event_effect_def)
  have "\<forall>ev \<in> set evs. event_ok ev" using Cons.prems(2) by simp
  note IH = Cons.IH [OF \<open>ready ?t\<close> this, unfolded \<open>s_id ?t = s_id s\<close>]
  have queues: "\<exists>fs. q_list (queue_of c s) @ of_class c (event_log pushed (ev # evs) s)
        = fs @ q_list (queue_of c (apply_events (ev # evs) s))
      \<and> list_all2 (stamped (s_id s)) fs (of_class c (event_log wrote (ev # evs) s))" for c
  proof -
    obtain fs where fs: "q_list (queue_of c s) @ of_class c (pushed ev s) = fs @ q_list (queue_of c ?t)"
      "list_all2 (stamped (s_id s)) fs (of_class c (wrote ev s))"
      using eff unfolding event_effect_def by blast
    obtain gs where gs: "q_list (queue_of c ?t) @ of_class c (event_log pushed evs ?t)
          = gs @ q_list (queue_of c (apply_events evs ?t))"
        "list_all2 (stamped (s_id s)) gs (of_class c (event_log wrote evs ?t))"
      using IH by blast
    have "list_all2 (stamped (s_id s)) (fs @ gs)
        (of_class c (wrote ev s) @ of_class c (event_log wrote evs ?t))"
      using fs(2) gs(2) by (rule list_all2_appendI)
    moreover have "q_list (queue_of c s) @ of_class c (pushed ev s) @ of_class c (event_log pushed evs ?t)
        = (fs @ gs) @ q_list (queue_of c (apply_events evs ?t))"
      using fs(1) gs(1) by (metis append.assoc)
    ultimately show ?thesis by (intro exI [of _ "fs @ gs"]) simp
  qed
  have "count_written (wrote ev s @ log) = count_written (wrote ev s) + count_written log" for log
    by (simp add: count_written_def)
  then show ?case
    using IH eff queues unfolding event_effect_def
    by (auto simp: add.assoc comp_def)
qed

lemma ready_New:
  "room wr = None \<Longrightarrow> ready (NewSession ident rd wr st hb now)"
  by (simp add: ready_def session_wf_New) (simp add: NewSession_def queue_of_def split: frame_class.splits)

lemma New_simps [simp]:
  "q_list (queue_of c (NewSession ident rd wr st hb now)) = []"
  "s_id (NewSession ident rd wr st hb now) = ident"
  "s_writer (NewSession ident rd wr st hb now) = wr"
  "s_stats (NewSession ident rd wr st hb now) = st"
  "closed (NewSession ident rd wr st hb now) = False"
  by (simp_all add: NewSession_def queue_of_def split: frame_class.splits)

section \<open>Draining\<close>

definition queued :: "session \<Rightarrow> nat" where
  "queued s = qcount (controlQ s) + qcount (dataQ s)"

lemma wrote_write:
  "wrote EvWrite s =
     (if q_list (controlQ s) \<noteq> [] then [(Control, fst (stamp (hd (q_list (controlQ s))) s))]
      else if q_list (dataQ s) \<noteq> [] then [(Data, fst (stamp (hd (q_list (dataQ s))) s))] else [])"
  by (simp add: wrote_def split: list.splits)

lemma write_order:
  assumes "ready s"
  shows "(q_list (controlQ s) \<noteq> [] \<longrightarrow> wrote EvWrite s = [(Control, fst (stamp (hd (q_list (controlQ s))) s))])
    \<and> (q_list (controlQ s) = [] \<longrightarrow> q_list (controlQ (apply_event EvWrite s)) = [])
    \<and> queued (apply_event EvWrite s) = queued s - 1"
proof -
  let ?t = "apply_event EvWrite s"
  have eff: "event_effect EvWrite s ?t" using write_effect [OF assms] by simp
  obtain fs gs where
    fs: "q_list (controlQ s) = fs @ q_list (controlQ ?t)" "length fs = length (of_class Control (wrote EvWrite s))"
    and gs: "q_list (dataQ s) = gs @ q_list (dataQ ?t)" "length gs = length (of_class Data (wrote EvWrite s))"
    using eff unfolding event_effect_def all_class
    by (auto simp: pushed_def dest!: list_all2_lengthD)
  have "queued s = queued ?t + length fs + length gs"
    using arg_cong [OF fs(1), of length] arg_cong [OF gs(1), of length] by (simp add: queued_def)
  moreover have "length fs + length gs = (if queued s = 0 then 0 else 1)"
    using fs(2) gs(2) by (auto simp: wrote_def queued_def q_list_Nil [symmetric] split: list.splits)
  ultimately have "queued ?t = queued s - 1" by (simp split: if_splits)
  then show ?thesis
    using fs(1) by (simp add: wrote_write)
qed

lemma drain:
  assumes "ready s" and "queued s \<le> n"
  shows "queued (apply_events (replicate n EvWrite) s) = 0
    \<and> sorted (map fst (event_log wrote (replicate n EvWrite) s))
    \<and> (q_list (controlQ s) = [] \<longrightarrow> Control \<notin> fst ` set (event_log wrote (replicate n EvWrite) s))"
  using assms
proof (induction n arbitrary: s)
  case (Suc n)
  let ?t = "apply_event EvWrite s"
  have t: "ready ?t" using write_effect [OF Suc.prems(1)] by (simp add: event_effect_def)
  have "queued ?t \<le> n" using write_order [OF Suc.prems(1)] Suc.prems(2) by linarith
  note IH = Suc.IH [OF t this]
  show ?case
  proof (cases "q_list (controlQ s) = []")
    case True
    then have "q_list (controlQ ?t) = []" using write_order [OF Suc.prems(1)] by blast
    then have "Control \<notin> fst ` set (event_log wrote (replicate n EvWrite) ?t)" using IH by blast
    then have "\<forall>c \<in> fst ` set (event_log wrote (replicate n EvWrite) ?t). c = Data"
      by (metis frame_class.exhaust)
    then show ?thesis
      using IH True by (auto simp: wrote_write less_eq_frame_class_def simp del: apply_event.simps)
  next
    case False
    then show ?thesis
      using IH by (simp add: wrote_write less_eq_frame_class_def del: apply_event.simps)
  qed
qed simp

section \<open>Filling the queues\<close>

lemma push_many:
  assumes "q_inv q" and "length (q_list q) + length fs \<le> length (items q)"
    and "payload_bytes (q_list q) + payload_bytes fs \<le> maxBytes q"
  shows "let r = fold (\<lambda>f q. snd (Push f q)) fs q in
    q_inv r \<and> q_list r = q_list q @ fs \<and> length (items r) = length (items q) \<and> maxBytes r = maxBytes q"
  using assms
proof (induction fs arbitrary: q)
  case (Cons f fs)
  have "payload_bytes (q_list q) + int (length (payload f)) \<le> maxBytes q"
    using Cons.prems(3) payload_bytes_nonneg [of fs] by (simp del: payload_bytes_nonneg)
  then have "fst (Push f q) = None"
    using Push_accepts [OF Cons.prems(1), of f] Cons.prems(2) by simp
  then have "q_inv (snd (Push f q)) \<and> q_list (snd (Push f q)) = q_list q @ [f]"
    using Push_ok [OF Cons.prems(1)] by simp
  then show ?case
    using Cons.IH [of "snd (Push f q)"] Cons.prems(2,3) by (simp add: Let_def)
qed simp

lemma apply_pushes_data:
  "dataQ (apply_events (map (EvQueue Data) fs) s) = fold (\<lambda>f q. snd (Push f q)) fs (dataQ s)
   \<and> controlQ (apply_events (map (EvQueue Data) fs) s) = controlQ s"
  by (induction fs arbitrary: s) (simp_all add: QueueData_def split_beta Let_def)

lemma apply_events_append: "apply_events (xs @ ys) s = apply_events ys (apply_events xs s)"
  by (induction xs arbitrary: s) simp_all

lemma filled_data_queue:
  assumes "t = apply_events (map (EvQueue Data) fs) (NewSession ident rd wr st hb now)"
    and "length fs \<le> 1024" and "payload_bytes fs \<le> MaxQueuedBytesSession"
  shows "session_wf t \<and> q_list (dataQ t) = fs \<and> q_list (controlQ t) = []"
proof -
  let ?s = "NewSession ident rd wr st hb now"
  have "q_inv (dataQ ?s)" "q_list (dataQ ?s) = []" "length (items (dataQ ?s)) = 1024"
    "maxBytes (dataQ ?s) = MaxQueuedBytesSession"
    by (simp_all add: NewSession_def q_inv_New)
  then show ?thesis
    using push_many [of "dataQ ?s" fs] apply_pushes_data [of fs ?s] assms
    by (simp add: session_wf_def Let_def NewSession_def q_inv_New)
qed

section \<open>Properties of the session engine\<close>

text \<open>C13. Whatever the interleaving of pushes, heartbeats and iterations of the write loop on a new
  session, the peer that decodes what was written reads whole frames; within each class they are
  exactly the accepted frames in the order of their acceptance, with session and sequence number
  filled in, and those not yet written are the ones still queued.\<close>

theorem session_delivers_in_order:
  assumes "room wr = None" and "written wr = []" and "\<forall>ev \<in> set evs. event_ok ev"
    and "s = NewSession ident rd wr st hb now" and "t = apply_events evs s"
    and "log = event_log wrote evs s"
  shows "read_all Decode (length log) \<lparr>avail = written (s_writer t), end_err = e\<rparr>
      = (Inr (map (frame_defaults \<circ> snd) log), \<lparr>avail = [], end_err = e\<rparr>)
    \<and> (\<exists>fs. of_class c (event_log pushed evs s) = fs @ q_list (queue_of c t)
          \<and> list_all2 (stamped ident) fs (of_class c log))"
proof -
  have "ready s" using assms(1,4) by (simp add: ready_New)
  note eff = events_effect [OF this assms(3)]
  have wr: "written (s_writer t) = concat (map frame_wire (map snd log))"
    using eff assms(2,4-6) by simp
  have tr: "\<forall>f \<in> set (map snd log). transmittable f"
    using eff assms(6) by auto
  have "read_all Decode (length (map snd log)) \<lparr>avail = written (s_writer t), end_err = e\<rparr>
      = (Inr (map frame_defaults (map snd log)), \<lparr>avail = [], end_err = e\<rparr>)"
    using codec.read_all_valid [OF tr, of "\<lparr>avail = written (s_writer t), end_err = e\<rparr>" "[]"] wr
    by simp
  moreover have "\<exists>fs. q_list (queue_of c s) @ of_class c (event_log pushed evs s)
        = fs @ q_list (queue_of c (apply_events evs s))
      \<and> list_all2 (stamped (s_id s)) fs (of_class c (event_log wrote evs s))"
    using eff by blast
  ultimately show ?thesis using assms(4-6) by simp
qed

theorem session_delivers_in_order_witness:
  "let f = zero_frame\<lparr>ftype := FrameTCPDATA, channelID := 2, payload := [1, 2]\<rparr>;
       s = NewSession 7 \<lparr>avail = [], end_err = EOF\<rparr> \<lparr>written = [], room = None, write_err = EOF\<rparr>
             (NewStats 0) 0 0;
       evs = [EvQueue Data f, EvBeat, EvWrite, EvWrite];
       log = event_log wrote evs s
   in read_all Decode (length log) \<lparr>avail = written (s_writer (apply_events evs s)), end_err = EOF\<rparr>
      = (Inr (map (frame_defaults \<circ> snd) log), \<lparr>avail = [], end_err = EOF\<rparr>)"
proof -
  let ?f = "zero_frame\<lparr>ftype := FrameTCPDATA, channelID := 2, payload := [1, 2]\<rparr>"
  have "transmittable ?f"
    by (simp add: transmittable_def encodable_def zero_frame_def KnownFrameType_def)
  then have "\<forall>ev \<in> set [EvQueue Data ?f, EvBeat, EvWrite, EvWrite]. event_ok ev" by simp
  from session_delivers_in_order [OF _ _ this refl refl refl,
      of "\<lparr>written = [], room = None, write_err = EOF\<rparr>"]
  show ?thesis unfolding Let_def by simp
qed

text \<open>Control frames go first: on a session in good order, as many iterations of the write loop
  as there are frames queued write all of them, every control frame before any data frame, with no
  iteration failing; \<^verbatim>\<open>framesOut\<close> and \<^verbatim>\<open>bytesOut\<close> count what was written.\<close>

theorem write_loop_drains:
  assumes "ready s" and "queued s \<le> n"
    and "t = apply_events (replicate n EvWrite) s" and "log = event_log wrote (replicate n EvWrite) s"
  shows "q_list (controlQ t) = [] \<and> q_list (dataQ t) = []
    \<and> list_all2 (stamped (s_id s)) (q_list (controlQ s) @ q_list (dataQ s)) (map snd log)
    \<and> sorted (map fst log)
    \<and> framesOut (s_stats t) = framesOut (s_stats s) + of_nat (length log)
    \<and> bytesOut (s_stats t) = bytesOut (s_stats s) + of_nat (count_written log)"
proof -
  have "\<forall>ev \<in> set (replicate n EvWrite). event_ok ev" by simp
  note eff = events_effect [OF assms(1) this, folded assms(3,4)]
  have empty: "q_list (controlQ t) = []" "q_list (dataQ t) = []"
    and sorted: "sorted (map fst log)"
    using drain [OF assms(1,2)] unfolding assms(3,4) by (auto simp: queued_def q_list_Nil)
  have "event_log pushed (replicate n EvWrite) s' = []" for s'
    by (induction n arbitrary: s') (simp_all add: pushed_def)
  then have cls: "list_all2 (stamped (s_id s)) (q_list (queue_of c s)) (of_class c log)" for c
    using eff empty by (cases c) (auto simp: all_class)
  have "map snd log' = of_class Control log' @ of_class Data log'" if "sorted (map fst log')" for log'
    using that
  proof (induction log')
    case (Cons x xs)
    show ?case
    proof (cases "fst x")
      case Data
      then have "\<forall>y \<in> set xs. fst y = Data"
        using Cons.prems by (auto simp: less_eq_frame_class_def)
      then have "of_class Control xs = []" "of_class Data xs = map snd xs"
        by (auto simp: of_class_def filter_empty_conv filter_id_conv)
      with Data show ?thesis by simp
    qed (use Cons in simp)
  qed simp
  from this [OF sorted] have "list_all2 (stamped (s_id s)) (q_list (controlQ s) @ q_list (dataQ s)) (map snd log)"
    using cls [of Control] cls [of Data] by (simp add: list_all2_appendI)
  with empty sorted eff show ?thesis by simp
qed

theorem write_loop_drains_witness:
  "let f = zero_frame\<lparr>ftype := FrameTCPDATA, payload := [1, 2]\<rparr>;
       s0 = NewSession 7 \<lparr>avail = [], end_err = EOF\<rparr> \<lparr>written = [], room = None, write_err = EOF\<rparr>
             (NewStats 0) 0 0;
       s = apply_events [EvQueue Data f, EvBeat] s0;
       log = event_log wrote [EvWrite, EvWrite] s
   in queued s = 2 \<and> sorted (map fst log)
      \<and> list_all2 (stamped (s_id s)) (q_list (controlQ s) @ q_list (dataQ s)) (map snd log)"
proof -
  let ?f = "zero_frame\<lparr>ftype := FrameTCPDATA, payload := [1, 2]\<rparr>"
  let ?s0 = "NewSession 7 \<lparr>avail = [], end_err = EOF\<rparr> \<lparr>written = [], room = None, write_err = EOF\<rparr>
      (NewStats 0) 0 0"
  let ?s = "apply_events [EvQueue Data ?f, EvBeat] ?s0"
  have "transmittable ?f"
    by (simp add: transmittable_def encodable_def zero_frame_def KnownFrameType_def)
  then have "\<forall>ev \<in> set [EvQueue Data ?f, EvBeat]. event_ok ev" by simp
  from events_effect [OF ready_New this, of "\<lparr>written = [], room = None, write_err = EOF\<rparr>"]
  have r: "ready ?s" by simp
  have q: "queued ?s = 2"
    by (simp add: queued_def QueueData_def QueueControl_def heartbeatLoop_iter_def NewSession_def
        record_queue_bytes_def NewFrameQueue_def Push_def Let_def zero_frame_def)
  have two: "replicate 2 EvWrite = [EvWrite, EvWrite]" by (simp add: numeral_2_eq_2)
  have "queued ?s \<le> 2" by (simp only: q)
  from write_loop_drains [OF r this refl refl, unfolded two] q show ?thesis
    unfolding Let_def by blast
qed

text \<open>The payload bytes queued on a well-formed session never exceed twice the constant
  \<^verbatim>\<open>MaxQueuedBytesSession\<close>, because each of the two queues has that limit for itself; a new
  session does reach more than the constant, with frames that the codec accepts.\<close>

theorem session_queue_bound:
  "(session_wf s \<longrightarrow> payload_bytes (q_list (controlQ s)) + payload_bytes (q_list (dataQ s))
      \<le> 2 * MaxQueuedBytesSession)
   \<and> (\<exists>evs. (\<forall>ev \<in> set evs. event_ok ev) \<and>
       (let t = apply_events evs (NewSession ident rd wr st hb now) in
          session_wf t \<and> payload_bytes (q_list (controlQ t)) + payload_bytes (q_list (dataQ t))
            > MaxQueuedBytesSession))"
proof (intro conjI impI)
  show "payload_bytes (q_list (controlQ s)) + payload_bytes (q_list (dataQ s)) \<le> 2 * MaxQueuedBytesSession"
    if "session_wf s"
    using that by (simp add: session_wf_def q_inv_def)
next
  let ?f = "zero_frame\<lparr>ftype := FrameTCPDATA, payload := replicate 16384 0\<rparr>"
  let ?s = "NewSession ident rd wr st hb now"
  define evs where "evs = map (EvQueue Data) (replicate 512 ?f) @ [EvQueue Control ?f]"
  define t1 where "t1 = apply_events (map (EvQueue Data) (replicate 512 ?f)) ?s"
  have pb: "payload_bytes (replicate n ?f) = 16384 * int n" for n
    by (induction n) (simp_all add: algebra_simps)
  have wf: "session_wf t1" and d: "q_list (dataQ t1) = replicate 512 ?f"
    using filled_data_queue [OF t1_def] pb [of 512] by simp_all
  have c: "controlQ t1 = NewFrameQueue 256 8388608"
    using apply_pushes_data [of "replicate 512 ?f" ?s] by (simp add: t1_def NewSession_def)
  have ctl: "fst (Push ?f (controlQ t1)) = None"
    using Push_accepts [of "controlQ t1" ?f] c by (simp add: q_inv_New)
  define t where "t = apply_events evs ?s"
  have t: "t = snd (QueueControl ?f t1)"
    by (simp add: t_def evs_def t1_def apply_events_append)
  have "session_wf t" using QueueControl_queues_only [of t1 ?f] wf t by (simp add: queues_only_def)
  moreover have "q_list (controlQ t) = [?f]" "dataQ t = dataQ t1"
    using Push_ok [of "controlQ t1" ?f] ctl c
    by (simp_all add: t QueueControl_def split_beta Let_def q_inv_New)
  moreover have "transmittable ?f"
    by (simp add: transmittable_def encodable_def zero_frame_def KnownFrameType_def)
  then have "\<forall>ev \<in> set evs. event_ok ev" by (auto simp: evs_def)
  ultimately show "\<exists>evs. (\<forall>ev \<in> set evs. event_ok ev) \<and>
       (let t = apply_events evs ?s in
          session_wf t \<and> payload_bytes (q_list (controlQ t)) + payload_bytes (q_list (dataQ t))
            > MaxQueuedBytesSession)"
    using d pb [of 512] by (intro exI [of _ evs]) (simp add: t_def Let_def)
qed

theorem session_queue_bound_witness:
  "\<exists>evs. (\<forall>ev \<in> set evs. event_ok ev) \<and>
     (let t = apply_events evs (NewSession 1 \<lparr>avail = [], end_err = EOF\<rparr>
            \<lparr>written = [], room = None, write_err = EOF\<rparr> (NewStats 0) 0 0) in
        session_wf t \<and> payload_bytes (q_list (controlQ t)) + payload_bytes (q_list (dataQ t))
          > MaxQueuedBytesSession
        \<and> payload_bytes (q_list (controlQ t)) + payload_bytes (q_list (dataQ t))
          \<le> 2 * MaxQueuedBytesSession)"
  using session_queue_bound unfolding Let_def by meson

end
