(* ===== verification/SLPP_Base64.thy ===== *)
theory SLPP_Base64
  imports SLPP_Prelude
begin

text \<open>
  The part of Go's \<^verbatim>\<open>encoding/base64\<close> that \<^verbatim>\<open>internal/auth/token.go\<close> uses:
  \<^verbatim>\<open>EncodeToString\<close> of the two unpadded encodings.  Three bytes give four characters of the
  alphabet, from the high bits down; one or two bytes left over give two or three.
\<close>

definition std_alphabet :: string where
  "std_alphabet = ''ABCDEFGHIJKLMNOPQRSTUVWXYZabcdefghijklmnopqrstuvwxyz0123456789+/''"

definition url_alphabet :: string where
  "url_alphabet = ''ABCDEFGHIJKLMNOPQRSTUVWXYZabcdefghijklmnopqrstuvwxyz0123456789-_''"

fun sextets :: "byte list \<Rightarrow> u32 list" where
  "sextets (a # b # c # bs) =
     (let val = push_bit 16 (ucast a) OR push_bit 8 (ucast b) OR ucast c :: u32
      in [drop_bit 18 val AND 0x3F, drop_bit 12 val AND 0x3F, drop_bit 6 val AND 0x3F, val AND 0x3F]
         @ sextets bs)"
| "sextets [a, b] =
     (let val = push_bit 16 (ucast a) OR push_bit 8 (ucast b) :: u32
      in [drop_bit 18 val AND 0x3F, drop_bit 12 val AND 0x3F, drop_bit 6 val AND 0x3F])"
| "sextets [a] =
     (let val = push_bit 16 (ucast a) :: u32
      in [drop_bit 18 val AND 0x3F, drop_bit 12 val AND 0x3F])"
| "sextets [] = []"

definition raw_encode :: "string \<Rightarrow> byte list \<Rightarrow> string" where
  "raw_encode alphabet bs = map (\<lambda>v. alphabet ! unat v) (sextets bs)"

abbreviation RawStdEncoding :: "byte list \<Rightarrow> string" where
  "RawStdEncoding \<equiv> raw_encode std_alphabet"

abbreviation RawURLEncoding :: "byte list \<Rightarrow> string" where
  "RawURLEncoding \<equiv> raw_encode url_alphabet"

section \<open>Length and injectivity\<close>

lemma alphabets_distinct:
  "distinct std_alphabet" "distinct url_alphabet"
  by (simp_all add: std_alphabet_def url_alphabet_def)

lemma length_alphabets [simp]: "length std_alphabet = 64" "length url_alphabet = 64"
  by (simp_all add: std_alphabet_def url_alphabet_def)

lemma length_sextets: "length (sextets bs) = (length bs * 4 + 2) div 3"
  by (induction bs rule: sextets.induct) (simp_all add: Let_def)

lemma and_3F_bound: "(v AND 0x3F :: u32) \<in> {w. unat w < 64}"
proof -
  have "unat (v AND 0x3F :: u32) \<le> unat (0x3F :: u32)"
    by (rule word_le_nat_alt [THEN iffD1]) (rule word_and_le1)
  then show ?thesis by simp
qed

lemma sextets_bound: "v \<in> set (sextets bs) \<Longrightarrow> unat v < 64"
  using and_3F_bound by (induction bs rule: sextets.induct) (auto simp: Let_def)

lemma and_3F: "v AND 0x3F = take_bit 6 (v :: u32)"
  by (simp add: take_bit_eq_mask mask_eq_exp_minus_1)

lemma byte_eqI:
  fixes a b :: byte
  assumes "bit a 0 = bit b 0" "bit a 1 = bit b 1" "bit a 2 = bit b 2" "bit a 3 = bit b 3"
    "bit a 4 = bit b 4" "bit a 5 = bit b 5" "bit a 6 = bit b 6" "bit a 7 = bit b 7"
  shows "a = b"
proof (rule bit_word_eqI)
  fix n assume "n < LENGTH(8)"
  then have "n \<in> {0, 1, 2, 3, 4, 5, 6, 7}" by auto
  then show "bit a n = bit b n" using assms by auto
qed

text \<open>The bytes back from four sextets.\<close>

lemma bytes_of_sextets3:
  fixes a b c :: byte
  defines "val \<equiv> (push_bit 16 (ucast a) OR push_bit 8 (ucast b) OR ucast c :: u32)"
  shows "ucast (push_bit 2 (drop_bit 18 val AND 0x3F) OR drop_bit 4 (drop_bit 12 val AND 0x3F)) = a"
    and "ucast (push_bit 4 (drop_bit 12 val AND 0x3F) OR drop_bit 2 (drop_bit 6 val AND 0x3F)) = b"
    and "ucast (push_bit 6 (drop_bit 6 val AND 0x3F) OR (val AND 0x3F)) = c"
proof -
  show "ucast (push_bit 2 (drop_bit 18 val AND 0x3F) OR drop_bit 4 (drop_bit 12 val AND 0x3F)) = a"
    unfolding and_3F val_def
    by (rule byte_eqI) (auto simp: bit_simps dest: bit_imp_le_length)
  show "ucast (push_bit 4 (drop_bit 12 val AND 0x3F) OR drop_bit 2 (drop_bit 6 val AND 0x3F)) = b"
    unfolding and_3F val_def
    by (rule byte_eqI) (auto simp: bit_simps dest: bit_imp_le_length)
  show "ucast (push_bit 6 (drop_bit 6 val AND 0x3F) OR (val AND 0x3F)) = c"
    unfolding and_3F val_def
    by (rule byte_eqI) (auto simp: bit_simps dest: bit_imp_le_length)
qed

lemma bytes_of_sextets2:
  fixes a b :: byte
  defines "val \<equiv> (push_bit 16 (ucast a) OR push_bit 8 (ucast b) :: u32)"
  shows "ucast (push_bit 2 (drop_bit 18 val AND 0x3F) OR drop_bit 4 (drop_bit 12 val AND 0x3F)) = a"
    and "ucast (push_bit 4 (drop_bit 12 val AND 0x3F) OR drop_bit 2 (drop_bit 6 val AND 0x3F)) = b"
  using bytes_of_sextets3 [of a b 0] by (simp_all add: val_def)

lemma bytes_of_sextets1:
  fixes a :: byte
  defines "val \<equiv> (push_bit 16 (ucast a) :: u32)"
  shows "ucast (push_bit 2 (drop_bit 18 val AND 0x3F) OR drop_bit 4 (drop_bit 12 val AND 0x3F)) = a"
  using bytes_of_sextets3 [of a 0 0] by (simp_all add: val_def)

lemma sextets_inject:
  "length bs = length cs \<Longrightarrow> sextets bs = sextets cs \<Longrightarrow> bs = cs"
proof (induction bs arbitrary: cs rule: sextets.induct)
  case (1 a b c bs)
  then obtain a' b' c' cs' where cs: "cs = a' # b' # c' # cs'" "length bs = length cs'"
    by (auto simp: length_Suc_conv Suc_length_conv)
  have "a = a' \<and> b = b' \<and> c = c'"
    using 1(3) bytes_of_sextets3 [of a b c] bytes_of_sextets3 [of a' b' c']
    unfolding cs sextets.simps Let_def append_Cons list.inject by metis
  moreover have "bs = cs'"
    using 1 cs by (auto simp: Let_def)
  ultimately show ?case by (simp add: cs)
next
  case (2 a b)
  then obtain a' b' where cs: "cs = [a', b']"
    by (auto simp: length_Suc_conv Suc_length_conv)
  show ?case
    using 2(2) bytes_of_sextets2 [of a b] bytes_of_sextets2 [of a' b']
    unfolding cs sextets.simps Let_def list.inject by metis
next
  case (3 a)
  then obtain a' where cs: "cs = [a']"
    by (auto simp: length_Suc_conv Suc_length_conv)
  show ?case
    using 3(2) bytes_of_sextets1 [of a] bytes_of_sextets1 [of a']
    unfolding cs sextets.simps Let_def list.inject by metis
qed simp

lemma length_raw_encode: "length (raw_encode alphabet bs) = (length bs * 4 + 2) div 3"
  by (simp add: raw_encode_def length_sextets)

lemma raw_encode_inject:
  assumes "distinct alphabet" and "length alphabet = 64" and "length bs = length cs"
    and "raw_encode alphabet bs = raw_encode alphabet cs"
  shows "bs = cs"
proof -
  have "inj_on (\<lambda>v :: u32. alphabet ! unat v) (set (sextets bs) \<union> set (sextets cs))"
    using assms(1,2) sextets_bound
    by (auto simp: inj_on_def nth_eq_iff_index_eq intro: unsigned_word_eqI [where ?'a = nat])
  then have "sextets bs = sextets cs"
    using assms(4) unfolding raw_encode_def by (rule inj_on_map_eq_map [THEN iffD1])
  then show ?thesis using assms(3) by (rule sextets_inject [rotated])
qed

end
