(* ===== verification/SLPP_Auth.thy ===== *)
theory SLPP_Auth
  imports SLPP_Base64
begin

text \<open>
  The token store of the server, \<^verbatim>\<open>internal/auth/token.go\<close>: loading and saving the token
  file, validation of a token and a nonce with the replay cache, revocation and generation.

  Every method runs under the store's mutex.  Points in time and durations are integers, in
  nanoseconds; a clock reading is an argument of the operation that makes it.  The order in which
  Go ranges over a map is arbitrary: it is the argument \<open>ks\<close>, a list of the map's keys.  The
  token file is modelled by what \<^verbatim>\<open>os.ReadFile\<close> and \<^verbatim>\<open>json.Unmarshal\<close> make of it.
\<close>

section \<open>State\<close>

record token_record =
  rec_id :: string
  rec_token :: string
  ExpiresAt :: int
  Revoked :: bool

definition zero_token_record :: token_record where
  "zero_token_record = \<lparr>rec_id = [], rec_token = [], ExpiresAt = 0, Revoked = False\<rparr>"

record store =
  store_path :: string
  tokens :: "string \<rightharpoonup> token_record"
  replay :: "string \<rightharpoonup> int"

datatype token_file =
    NoFile
  | Unreadable go_error
  | NotJSON go_error
  | TokenFile "token_record list"

type_synonym disk = "string \<Rightarrow> token_file"

text \<open>A write of a file succeeds, or fails and leaves something behind.\<close>

datatype write_outcome = WriteOK | WriteFail go_error token_file

definition range_order :: "('k \<rightharpoonup> 'v) \<Rightarrow> 'k list \<Rightarrow> bool" where
  "range_order m ks \<longleftrightarrow> distinct ks \<and> set ks = dom m"

definition range_values :: "('k \<rightharpoonup> 'v) \<Rightarrow> 'k list \<Rightarrow> 'v list" where
  "range_values m ks = List.map_filter m ks"

section \<open>Operations\<close>

definition load_tokens :: "token_record list \<Rightarrow> (string \<rightharpoonup> token_record)" where
  "load_tokens recs = foldl (\<lambda>m r. m(rec_id r \<mapsto> r)) Map.empty recs"

definition NewStore :: "disk \<Rightarrow> string \<Rightarrow> go_error + store" where
  "NewStore dk path =
     (let s = \<lparr>store_path = path, tokens = Map.empty, replay = Map.empty\<rparr> in
      if path = [] then Inr s
      else case dk path of
          NoFile \<Rightarrow> Inr s
        | Unreadable e \<Rightarrow> Inl e
        | NotJSON e \<Rightarrow> Inl e
        | TokenFile recs \<Rightarrow> Inr (s\<lparr>tokens := load_tokens recs\<rparr>))"

definition flushLocked ::
  "store \<Rightarrow> string list \<Rightarrow> write_outcome \<Rightarrow> disk \<Rightarrow> go_error option \<times> disk" where
  "flushLocked s ks wr dk =
     (if store_path s = [] then (None, dk)
      else case wr of
          WriteOK \<Rightarrow> (None, dk(store_path s := TokenFile (range_values (tokens s) ks)))
        | WriteFail e left \<Rightarrow> (Some e, dk(store_path s := left)))"

text \<open>
  \<^verbatim>\<open>time.Until\<close> is a subtraction of two points in time that saturates at the limits of
  the 64-bit \<^verbatim>\<open>time.Duration\<close>.  \<^verbatim>\<open>Validate\<close> reads the clock twice: \<open>now\<close> at its start
  and \<open>now2\<close> inside \<^verbatim>\<open>time.Until\<close>.
\<close>

definition sat_duration :: "int \<Rightarrow> int" where
  "sat_duration d = max (- (2 ^ 63)) (min (2 ^ 63 - 1) d)"

definition replay_key :: "string \<Rightarrow> byte list \<Rightarrow> string" where
  "replay_key token nonce = token @ '':'' @ RawStdEncoding nonce"

definition matching :: "store \<Rightarrow> string list \<Rightarrow> string \<Rightarrow> token_record option" where
  "matching s ks token = find (\<lambda>r. rec_token r = token) (range_values (tokens s) ks)"

definition Validate ::
  "string list \<Rightarrow> int \<Rightarrow> int \<Rightarrow> string \<Rightarrow> byte list \<Rightarrow> store \<Rightarrow> go_error option \<times> store" where
  "Validate ks now now2 token nonce s =
     (case matching s ks token of
        None \<Rightarrow> (Some (ErrorNew ''invalid token''), s)
      | Some r \<Rightarrow>
          if Revoked r \<or> now > ExpiresAt r
          then (Some (ErrorNew ''token expired or revoked''), s)
          else
            let key = replay_key token nonce;
                seen = (case replay s key of None \<Rightarrow> False | Some expiry \<Rightarrow> expiry > now)
            in if seen then (Some (ErrorNew ''replayed nonce''), s)
               else (None, s\<lparr>replay := (replay s)
                       (key \<mapsto> now + sat_duration (ExpiresAt r - now2))\<rparr>))"

definition Revoke ::
  "string \<Rightarrow> string list \<Rightarrow> write_outcome \<Rightarrow> store \<times> disk \<Rightarrow> go_error option \<times> store \<times> disk" where
  "Revoke ident ks wr sd =
     (let (s, dk) = sd in
      case tokens s ident of
        None \<Rightarrow> (Some (ErrorNew ''token not found''), s, dk)
      | Some r \<Rightarrow>
          let s1 = s\<lparr>tokens := (tokens s)(ident \<mapsto> r\<lparr>Revoked := True\<rparr>)\<rparr>;
              (e, dk1) = flushLocked s1 ks wr dk
          in (e, s1, dk1))"

text \<open>
  \<^verbatim>\<open>Generate\<close> draws 32 and 8 random bytes; either draw can fail.  On success it returns the
  record together with the error of the flush, if any: the record is in the store either way.
\<close>

definition Generate ::
  "int \<Rightarrow> int \<Rightarrow> go_error + byte list \<Rightarrow> go_error + byte list \<Rightarrow> string list \<Rightarrow> write_outcome
     \<Rightarrow> store \<times> disk \<Rightarrow> (token_record \<times> go_error option) \<times> store \<times> disk" where
  "Generate now ttl rnd_token rnd_id ks wr sd =
     (let (s, dk) = sd in
      case rnd_token of
        Inl e \<Rightarrow> ((zero_token_record, Some e), s, dk)
      | Inr tokenBytes \<Rightarrow>
          (case rnd_id of
             Inl e \<Rightarrow> ((zero_token_record, Some e), s, dk)
           | Inr idBytes \<Rightarrow>
               let r = \<lparr>rec_id = RawURLEncoding idBytes, rec_token = RawURLEncoding tokenBytes,
                        ExpiresAt = now + ttl, Revoked = False\<rparr>;
                   s1 = s\<lparr>tokens := (tokens s)(rec_id r \<mapsto> r)\<rparr>;
                   (e, dk1) = flushLocked s1 ks wr dk
               in ((r, e), s1, dk1)))"

definition List_tokens :: "string list \<Rightarrow> store \<Rightarrow> token_record list" where
  "List_tokens ks s = range_values (tokens s) ks"

section \<open>Maps and their ranges\<close>

lemma range_values_simps [simp]:
  "range_values m [] = []"
  "range_values m (k # ks) = (case m k of None \<Rightarrow> range_values m ks | Some v \<Rightarrow> v # range_values m ks)"
  by (simp_all add: range_values_def map_filter_simps split: option.splits)

lemma set_range_values: "range_order m ks \<Longrightarrow> set (range_values m ks) = ran m"
  by (force simp: range_order_def range_values_def map_filter_def ran_def dom_def image_iff)

definition ids_agree :: "(string \<rightharpoonup> token_record) \<Rightarrow> bool" where
  "ids_agree m \<longleftrightarrow> (\<forall>k r. m k = Some r \<longrightarrow> rec_id r = k)"

definition unique_tokens :: "(string \<rightharpoonup> token_record) \<Rightarrow> bool" where
  "unique_tokens m \<longleftrightarrow>
     (\<forall>i j r r'. m i = Some r \<and> m j = Some r' \<and> rec_token r = rec_token r' \<longrightarrow> i = j)"

lemma foldl_load:
  "foldl (\<lambda>m r. m(rec_id r \<mapsto> r)) m0 recs = m0 ++ load_tokens recs"
proof (induction recs arbitrary: m0)
  case (Cons r recs)
  show ?case
    unfolding load_tokens_def foldl_Cons Cons.IH [of "m0(rec_id r \<mapsto> r)"] Cons.IH [of "[rec_id r \<mapsto> r]"]
    by (auto simp: map_add_def fun_eq_iff split: option.splits)
qed (simp add: load_tokens_def)

lemma load_tokens_Cons: "load_tokens (r # recs) = [rec_id r \<mapsto> r] ++ load_tokens recs"
  using foldl_load [of "[rec_id r \<mapsto> r]" recs] by (simp add: load_tokens_def)

lemma load_tokens_ids: "ids_agree (load_tokens recs)"
proof (induction recs)
  case Nil
  then show ?case by (simp add: load_tokens_def ids_agree_def)
next
  case (Cons r recs)
  then show ?case
    by (auto simp: load_tokens_Cons ids_agree_def map_add_def split: option.splits if_splits)
qed

lemma load_range_values:
  "ids_agree m \<Longrightarrow> distinct ks \<Longrightarrow> load_tokens (range_values m ks) = m |` set ks"
proof (induction ks)
  case Nil
  then show ?case by (simp add: load_tokens_def)
next
  case (Cons k ks)
  show ?case
  proof (cases "m k")
    case None
    with Cons show ?thesis by (auto simp: restrict_map_def fun_eq_iff)
  next
    case (Some r)
    then have "rec_id r = k" using Cons.prems by (simp add: ids_agree_def)
    with Some Cons show ?thesis
      by (auto simp: load_tokens_Cons restrict_map_def map_add_def fun_eq_iff split: option.splits)
  qed
qed

lemma load_range_order: "ids_agree m \<Longrightarrow> range_order m ks \<Longrightarrow> load_tokens (range_values m ks) = m"
  using load_range_values [of m ks] by (auto simp: range_order_def restrict_map_def fun_eq_iff)

section \<open>Validation\<close>

lemma matching_None:
  "range_order (tokens s) ks \<Longrightarrow>
     matching s ks token = None \<longleftrightarrow> (\<forall>r \<in> ran (tokens s). rec_token r \<noteq> token)"
  by (auto simp: matching_def find_None_iff simp flip: set_range_values)

lemma matching_Some:
  "range_order (tokens s) ks \<Longrightarrow> matching s ks token = Some r \<Longrightarrow>
     rec_token r = token \<and> (\<exists>i. tokens s i = Some r)"
  using set_range_values [of "tokens s" ks]
  by (auto simp: matching_def find_Some_iff ran_def dest!: nth_mem)

lemma matching_unique:
  assumes "range_order (tokens s) ks" and "unique_tokens (tokens s)"
    and "tokens s i = Some r" and "rec_token r = token"
  shows "matching s ks token = Some r"
proof -
  obtain r' where r': "matching s ks token = Some r'"
    using assms matching_None [of s ks token] by (cases "matching s ks token") (auto simp: ran_def)
  then obtain j where "tokens s j = Some r'" "rec_token r' = token"
    using matching_Some [OF assms(1) r'] by blast
  then show ?thesis using assms r' unfolding unique_tokens_def by (metis option.inject)
qed

lemma Validate_state:
  "Validate ks now now2 token nonce s = (e, s') \<Longrightarrow>
     tokens s' = tokens s \<and> store_path s' = store_path s \<and> (e \<noteq> None \<longrightarrow> s' = s)"
  by (auto simp: Validate_def Let_def split: option.splits if_splits)

lemma Validate_accepted:
  "Validate ks now now2 token nonce s = (None, s') \<Longrightarrow>
     \<exists>r. matching s ks token = Some r \<and> \<not> Revoked r \<and> now \<le> ExpiresAt r
       \<and> (\<forall>E. replay s (replay_key token nonce) = Some E \<longrightarrow> E \<le> now)
       \<and> replay s' = (replay s)(replay_key token nonce \<mapsto> now + sat_duration (ExpiresAt r - now2))"
  by (force simp: Validate_def Let_def split: option.splits if_splits)

lemma replay_key_inject:
  assumes "length n = 12" and "length n' = 12"
  shows "replay_key t n = replay_key t' n' \<longleftrightarrow> t = t' \<and> n = n'"
proof
  assume eq: "replay_key t n = replay_key t' n'"
  have "length (RawStdEncoding n) = length (RawStdEncoding n')"
    using assms by (simp add: length_raw_encode)
  then have "t = t'" and enc: "RawStdEncoding n = RawStdEncoding n'"
    using eq unfolding replay_key_def by auto
  moreover have "n = n'"
    using raw_encode_inject [OF alphabets_distinct(1) _ _ enc] assms by simp
  ultimately show "t = t' \<and> n = n'" by simp
qed simp

section \<open>Runs of the store\<close>

datatype store_op =
    DoValidate "string list" int int string "byte list"
  | DoRevoke string "string list" write_outcome
  | DoGenerate int int "go_error + byte list" "go_error + byte list" "string list" write_outcome

primrec store_step :: "store_op \<Rightarrow> store \<times> disk \<Rightarrow> store \<times> disk" where
  "store_step (DoValidate ks now now2 token nonce) sd =
     (snd (Validate ks now now2 token nonce (fst sd)), snd sd)"
| "store_step (DoRevoke ident ks wr) sd = snd (Revoke ident ks wr sd)"
| "store_step (DoGenerate now ttl rt ri ks wr) sd = snd (Generate now ttl rt ri ks wr sd)"

text \<open>The token and nonce an operation accepts, if it is a validation that succeeds.\<close>

primrec accepts :: "store_op \<Rightarrow> store \<times> disk \<Rightarrow> (string \<times> byte list) option" where
  "accepts (DoValidate ks now now2 token nonce) sd =
     (if fst (Validate ks now now2 token nonce (fst sd)) = None then Some (token, nonce) else None)"
| "accepts (DoRevoke ident ks wr) sd = None"
| "accepts (DoGenerate now ttl rt ri ks wr) sd = None"

text \<open>A validation reads the clock before the point in time \<open>E\<close>.\<close>

primrec op_before :: "store_op \<Rightarrow> int \<Rightarrow> bool" where
  "op_before (DoValidate ks now now2 token nonce) E = (now < E)"
| "op_before (DoRevoke ident ks wr) E = True"
| "op_before (DoGenerate now ttl rt ri ks wr) E = True"

primrec run_ops :: "('op \<Rightarrow> 's \<Rightarrow> 's) \<Rightarrow> 'op list \<Rightarrow> 's \<Rightarrow> 's" where
  "run_ops step [] s = s"
| "run_ops step (x # xs) s = run_ops step xs (step x s)"

primrec accepted_ops :: "('op \<Rightarrow> 's \<Rightarrow> 's) \<Rightarrow> ('op \<Rightarrow> 's \<Rightarrow> 'k option) \<Rightarrow> 'op list \<Rightarrow> 's \<Rightarrow> 'k list" where
  "accepted_ops step acc [] s = []"
| "accepted_ops step acc (x # xs) s =
     (case acc x s of None \<Rightarrow> [] | Some k \<Rightarrow> [k]) @ accepted_ops step acc xs (step x s)"

text \<open>
  The contract of the Go interface \<^verbatim>\<open>Validator\<close> that matters to the tunnel: a credential
  that has been accepted is live until some point in time, and a live credential is not accepted
  again whatever else the store does.
\<close>

locale replay_guard =
  fixes step :: "'op \<Rightarrow> 's \<Rightarrow> 's"
    and acc :: "'op \<Rightarrow> 's \<Rightarrow> 'k option"
    and before :: "'op \<Rightarrow> int \<Rightarrow> bool"
    and live :: "'k \<Rightarrow> int \<Rightarrow> 's \<Rightarrow> bool"
  assumes live_step: "live k E s \<Longrightarrow> before x E \<Longrightarrow> live k E (step x s)"
    and live_refused: "live k E s \<Longrightarrow> before x E \<Longrightarrow> acc x s \<noteq> Some k"
begin

lemma live_run: "live k E s \<Longrightarrow> \<forall>x \<in> set xs. before x E \<Longrightarrow> live k E (run_ops step xs s)"
  by (induction xs arbitrary: s) (simp_all add: live_step)

lemma live_never_accepted:
  "live k E s \<Longrightarrow> \<forall>x \<in> set xs. before x E \<Longrightarrow> k \<notin> set (accepted_ops step acc xs s)"
proof (induction xs arbitrary: s)
  case (Cons x xs)
  then have "acc x s \<noteq> Some k" "live k E (step x s)"
    by (simp_all add: live_refused live_step)
  with Cons show ?case by (auto split: option.splits)
qed simp

end

definition replay_live :: "string \<times> byte list \<Rightarrow> int \<Rightarrow> store \<times> disk \<Rightarrow> bool" where
  "replay_live k E sd \<longleftrightarrow> (\<exists>E' \<ge> E. replay (fst sd) (replay_key (fst k) (snd k)) = Some E')"

lemma Revoke_replay: "replay (fst (snd (Revoke i ks wr sd))) = replay (fst sd)"
  by (auto simp: Revoke_def Let_def split_beta split: option.splits)

lemma Generate_replay: "replay (fst (snd (Generate now ttl rt ri ks wr sd))) = replay (fst sd)"
  by (auto simp: Generate_def Let_def split_beta split: sum.splits)

interpretation rg: replay_guard store_step accepts op_before replay_live
proof unfold_locales
  fix k E sd x
  assume live: "replay_live k E sd" and bef: "op_before x E"
  then obtain E' where E': "E \<le> E'" "replay (fst sd) (replay_key (fst k) (snd k)) = Some E'"
    by (auto simp: replay_live_def)
  show "replay_live k E (store_step x sd)"
  proof (cases x)
    case (DoValidate ks now now2 token nonce)
    obtain e s' where v: "Validate ks now now2 token nonce (fst sd) = (e, s')" by fastforce
    show ?thesis
    proof (cases e)
      case None
      then have "replay_key token nonce \<noteq> replay_key (fst k) (snd k)"
        using Validate_accepted v E' bef DoValidate by fastforce
      then show ?thesis
        using Validate_accepted v None E' DoValidate by (fastforce simp: replay_live_def)
    next
      case Some
      then show ?thesis using Validate_state [OF v] live v DoValidate by (simp add: replay_live_def)
    qed
  qed (use live in \<open>simp_all add: replay_live_def Revoke_replay Generate_replay\<close>)
  show "accepts x sd \<noteq> Some k"
  proof (cases x)
    case (DoValidate ks now now2 token nonce)
    then show ?thesis
      using E' bef by (auto simp: Validate_def Let_def split: option.splits if_splits)
  qed simp_all
qed

section \<open>Revocation and persistence\<close>

definition all_revoked :: "string \<Rightarrow> (string \<rightharpoonup> token_record) \<Rightarrow> bool" where
  "all_revoked token m \<longleftrightarrow> (\<forall>i r. m i = Some r \<and> rec_token r = token \<longrightarrow> Revoked r)"

primrec op_generates :: "string \<Rightarrow> store_op \<Rightarrow> bool" where
  "op_generates token (DoValidate ks now now2 t n) = False"
| "op_generates token (DoRevoke ident ks wr) = False"
| "op_generates token (DoGenerate now ttl rt ri ks wr) =
     (\<exists>bs \<in> Basic_BNFs.setr rt. RawURLEncoding bs = token)"

lemma ids_agree_step:
  "ids_agree (tokens (fst sd)) \<Longrightarrow> ids_agree (tokens (fst (store_step x sd)))"
  by (cases x)
    (auto simp: Revoke_def Generate_def Let_def split_beta ids_agree_def Validate_def
      split: option.splits sum.splits if_splits)

lemma ids_agree_run:
  "ids_agree (tokens (fst sd)) \<Longrightarrow> ids_agree (tokens (fst (run_ops store_step xs sd)))"
  by (induction xs arbitrary: sd) (simp_all add: ids_agree_step)

lemma NewStore_tokens:
  "NewStore dk p = Inr s \<Longrightarrow>
     store_path s = p \<and> replay s = Map.empty \<and> ids_agree (tokens s)
     \<and> (\<forall>recs. p \<noteq> [] \<and> dk p = TokenFile recs \<longrightarrow> tokens s = load_tokens recs)"
  using load_tokens_ids
  by (auto simp: NewStore_def Let_def ids_agree_def split: token_file.splits if_splits)

lemma all_revoked_step:
  "all_revoked token (tokens (fst sd)) \<Longrightarrow> \<not> op_generates token x \<Longrightarrow>
     all_revoked token (tokens (fst (store_step x sd)))"
  by (cases x)
    (auto simp: all_revoked_def Revoke_def Generate_def Let_def split_beta Validate_def
      split: option.splits sum.splits if_splits)

lemma all_revoked_run:
  "all_revoked token (tokens (fst sd)) \<Longrightarrow> \<forall>x \<in> set xs. \<not> op_generates token x \<Longrightarrow>
     all_revoked token (tokens (fst (run_ops store_step xs sd)))"
  by (induction xs arbitrary: sd) (simp_all add: all_revoked_step)

lemma all_revoked_refused:
  assumes "range_order (tokens s) ks" and "all_revoked token (tokens s)"
  shows "fst (Validate ks now now2 token nonce s) \<noteq> None"
  using assms matching_Some [OF assms(1), of token]
  by (auto simp: Validate_def all_revoked_def split: option.splits)

lemma Revoke_ok:
  assumes "tokens s i = Some r" and "unique_tokens (tokens s)"
  shows "all_revoked (rec_token r) (tokens (fst (snd (Revoke i ks wr (s, dk)))))"
  using assms unfolding unique_tokens_def
  by (auto simp: Revoke_def all_revoked_def Let_def split_beta split: if_splits)

section \<open>Properties of the token store\<close>

text \<open>C16. Once a token and a nonce have been accepted, with an entry in the replay cache that
  expires at \<open>E\<close> (the token's expiry, less the delay between the two clock readings), the same
  token and nonce are not accepted again by any later operation that reads the clock before \<open>E\<close>,
  whatever validations, revocations and generations come in between.\<close>

theorem no_replay:
  assumes "Validate ks now now2 token nonce s = (None, s1)"
    and "matching s ks token = Some r" and "E = now + sat_duration (ExpiresAt r - now2)"
    and "\<forall>x \<in> set xs. op_before x E"
  shows "(token, nonce) \<notin> set (accepted_ops store_step accepts xs (s1, dk))"
proof (rule rg.live_never_accepted [OF _ assms(4)])
  show "replay_live (token, nonce) E (s1, dk)"
    using Validate_accepted [OF assms(1)] assms(2,3) by (auto simp: replay_live_def)
qed

definition demo_record :: token_record where
  "demo_record = \<lparr>rec_id = ''id1'', rec_token = ''tok'', ExpiresAt = 100, Revoked = False\<rparr>"

definition demo_store :: store where
  "demo_store = \<lparr>store_path = ''tokens.json'', tokens = [''id1'' \<mapsto> demo_record], replay = Map.empty\<rparr>"

lemmas demo_defs = demo_record_def demo_store_def Validate_def matching_def Let_def sat_duration_def

theorem no_replay_witness:
  "let s1 = snd (Validate [''id1''] 10 10 ''tok'' (replicate 12 1) demo_store)
   in (''tok'', replicate 12 1) \<notin> set (accepted_ops store_step accepts
        [DoValidate [''id1''] 20 20 ''tok'' (replicate 12 2),
         DoValidate [''id1''] 99 99 ''tok'' (replicate 12 1)] (s1, \<lambda>_. NoFile))"
proof -
  obtain s1 where v: "Validate [''id1''] 10 10 ''tok'' (replicate 12 1) demo_store = (None, s1)"
    by (simp add: demo_defs)
  have m: "matching demo_store [''id1''] ''tok'' = Some demo_record"
    and E: "100 = 10 + sat_duration (ExpiresAt demo_record - 10)"
    by (simp_all add: demo_defs)
  show ?thesis
    unfolding Let_def v snd_conv by (rule no_replay [OF v m E]) simp
qed

text \<open>C22. On a store without two records for one token, whatever order Go ranges over the map,
  \<^verbatim>\<open>Validate\<close> accepts a token and nonce exactly when a record of the token is present, not
  revoked and not expired, and the replay cache holds no live entry for the pair.\<close>

theorem validate_accepts_iff:
  assumes "range_order (tokens s) ks" and "unique_tokens (tokens s)"
  shows "fst (Validate ks now now2 token nonce s) = None \<longleftrightarrow>
    (\<exists>i r. tokens s i = Some r \<and> rec_token r = token \<and> \<not> Revoked r \<and> now \<le> ExpiresAt r)
    \<and> (\<forall>E. replay s (replay_key token nonce) = Some E \<longrightarrow> E \<le> now)"
    (is "?acc \<longleftrightarrow> ?spec")
proof
  assume ?acc
  then show ?spec
    using Validate_accepted [of ks now now2 token nonce s "snd (Validate ks now now2 token nonce s)"]
      matching_Some [OF assms(1)] by (metis prod.collapse)
next
  assume spec: ?spec
  then obtain i r where r: "tokens s i = Some r" "rec_token r = token" "\<not> Revoked r" "now \<le> ExpiresAt r"
    by blast
  have "matching s ks token = Some r"
    using matching_unique [OF assms r(1,2)] .
  then show ?acc
    using r spec by (auto simp: Validate_def Let_def split: option.splits)
qed

theorem validate_accepts_iff_witness:
  "fst (Validate [''id1''] 100 100 ''tok'' (replicate 12 1) demo_store) = None
   \<and> fst (Validate [''id1''] 101 101 ''tok'' (replicate 12 1) demo_store) \<noteq> None"
proof -
  have "range_order (tokens demo_store) [''id1'']" "unique_tokens (tokens demo_store)"
    by (auto simp: range_order_def unique_tokens_def demo_store_def)
  from validate_accepts_iff [OF this, of 100 100 "''tok''" "replicate 12 1"]
    validate_accepts_iff [OF this, of 101 101 "''tok''" "replicate 12 1"]
  show ?thesis by (auto simp: demo_record_def demo_store_def)
qed

text \<open>C25. Revocation is permanent: after \<^verbatim>\<open>Revoke\<close> of the record that holds a token, no
  sequence of operations that does not generate the same token again makes \<^verbatim>\<open>Validate\<close> accept
  it, and a store loaded from the file that a successful \<^verbatim>\<open>Revoke\<close> wrote refuses it too.\<close>

theorem revoked_token_refused:
  assumes "tokens s i = Some r" and "unique_tokens (tokens s)" and "ids_agree (tokens s)"
    and "Revoke i ks WriteOK (s, dk) = (e, s1, dk1)" and "range_order (tokens s) ks"
    and "store_path s \<noteq> []"
    and "\<forall>x \<in> set xs. \<not> op_generates (rec_token r) x"
    and "run_ops store_step xs (s1, dk2) = (s2, dk3)" and "range_order (tokens s2) ks2"
  shows "e = None \<and> fst (Validate ks2 now now2 (rec_token r) nonce s2) \<noteq> None \<and>
    (\<exists>s3. NewStore dk1 (store_path s) = Inr s3
       \<and> fst (Validate ks now now2 (rec_token r) nonce s3) \<noteq> None)"
proof -
  have rev: "all_revoked (rec_token r) (tokens s1)"
    using Revoke_ok [OF assms(1,2), of ks WriteOK dk] assms(4) by simp
  have s1: "s1 = s\<lparr>tokens := (tokens s)(i \<mapsto> r\<lparr>Revoked := True\<rparr>)\<rparr>" "e = None"
    and dk1: "dk1 = dk(store_path s := TokenFile (range_values (tokens s1) ks))"
    using assms(1,4,6) by (auto simp: Revoke_def flushLocked_def Let_def)
  have "ids_agree (tokens s1)" "range_order (tokens s1) ks"
    using assms(1,3,5) by (auto simp: s1 ids_agree_def range_order_def)
  then have "NewStore dk1 (store_path s)
      = Inr \<lparr>store_path = store_path s, tokens = tokens s1, replay = Map.empty\<rparr>"
    using assms(6) by (simp add: NewStore_def dk1 load_range_order)
  moreover have "all_revoked (rec_token r) (tokens s2)"
    using all_revoked_run [of "rec_token r" "(s1, dk2)" xs] rev assms(7,8) by simp
  moreover have "fst (Validate ks now now2 (rec_token r) nonce
      \<lparr>store_path = store_path s, tokens = tokens s1, replay = Map.empty\<rparr>) \<noteq> None"
    using rev \<open>range_order (tokens s1) ks\<close> by (intro all_revoked_refused) simp_all
  moreover have "fst (Validate ks2 now now2 (rec_token r) nonce s2) \<noteq> None"
    using assms(9) calculation(2) by (rule all_revoked_refused)
  ultimately show ?thesis using s1(2) by blast
qed

theorem revoked_token_refused_witness:
  "fst (Validate [''id1''] 50 50 ''tok'' (replicate 12 9)
      (fst (snd (Revoke ''id1'' [''id1''] WriteOK (demo_store, \<lambda>_. NoFile))))) \<noteq> None"
proof -
  obtain e s1 dk1 where rv: "Revoke ''id1'' [''id1''] WriteOK (demo_store, \<lambda>_. NoFile) = (e, s1, dk1)"
    by (metis prod_cases3)
  have hyp: "tokens demo_store ''id1'' = Some demo_record" "unique_tokens (tokens demo_store)"
    "ids_agree (tokens demo_store)" "range_order (tokens demo_store) [''id1'']" "store_path demo_store \<noteq> []"
    by (auto simp: range_order_def unique_tokens_def ids_agree_def demo_store_def demo_record_def)
  have s1: "range_order (tokens s1) [''id1'']"
    using rv
    by (auto simp: Revoke_def flushLocked_def demo_store_def range_order_def Let_def split: if_splits)
  have "rec_token demo_record = ''tok''" by (simp add: demo_record_def)
  with revoked_token_refused [OF hyp(1-3) rv hyp(4,5), of "[]" "\<lambda>_. NoFile" s1 "\<lambda>_. NoFile" "[''id1'']"] s1
  show ?thesis by (simp add: rv)
qed

text \<open>A store saved by a successful flush is loaded back unchanged: the same records under
  the same identifiers, with an empty replay cache; and every operation keeps identifiers and map
  keys in agreement, which is what makes this so.\<close>

theorem token_file_roundtrip:
  assumes "NewStore dk0 p = Inr s0" and "p \<noteq> []"
    and "run_ops store_step xs (s0, dk) = (s, dk2)" and "range_order (tokens s) ks"
    and "flushLocked s ks WriteOK dk2 = (e, dk3)" and "store_path s = p"
  shows "e = None \<and> NewStore dk3 p = Inr (s\<lparr>replay := Map.empty\<rparr>)"
proof -
  have "ids_agree (tokens s)"
    using ids_agree_run [of "(s0, dk)" xs] NewStore_tokens [OF assms(1)] assms(3) by simp
  then show ?thesis
    using assms(2,4-6) by (auto simp: flushLocked_def NewStore_def load_range_order)
qed

theorem token_file_roundtrip_witness:
  "let disk1 = (\<lambda>_. NoFile)(''tokens.json'' := TokenFile [demo_record])
   in NewStore disk1 ''tokens.json'' = Inr demo_store"
proof -
  let ?d0 = "(\<lambda>_. NoFile)(''tokens.json'' := TokenFile [demo_record])"
  have n: "NewStore ?d0 ''tokens.json'' = Inr demo_store"
    by (simp add: NewStore_def load_tokens_def demo_store_def demo_record_def)
  have f: "flushLocked demo_store [''id1''] WriteOK (\<lambda>_. NoFile) = (None, ?d0)"
    by (simp add: flushLocked_def demo_store_def)
  have r: "run_ops store_step [] (demo_store, \<lambda>_. NoFile) = (demo_store, \<lambda>_. NoFile)" by simp
  have o: "range_order (tokens demo_store) [''id1'']" "store_path demo_store = ''tokens.json''"
    by (auto simp: range_order_def demo_store_def)
  from token_file_roundtrip [OF n _ r o(1) f o(2)] show ?thesis
    by (simp add: demo_store_def)
qed

end
