(* ===== verification/SLPP_Relay.thy ===== *)
theory SLPP_Relay
  imports SLPP_Session SLPP_Messages
begin

text \<open>
  The relays of the server, \<^verbatim>\<open>internal/relay/tcp.go\<close> and \<^verbatim>\<open>internal/relay/udp.go\<close>: tables
  from channel to connection, the operations that the session handler calls, and the loops that
  copy from a connection back into the tunnel.

  A connection is a handle, as a Go \<^verbatim>\<open>net.Conn\<close> is a reference: the table of a relay and a copy
  loop may hold the same one, and a connection that a table has lost goes on existing.  The state
  of the connections that a relay has dialled is a \<open>network\<close>; the outcome of the next
  \<^verbatim>\<open>Dial\<close>, and whether the peer still takes what is written, are part of it, for the
  environment to change.  The locale \<open>relay\<close> is the contract of both relays.
\<close>

section \<open>Connections\<close>

text \<open>
  \<open>sent\<close> lists what each \<^verbatim>\<open>Write\<close> has delivered.  A broken connection is one whose
  writes deliver at most \<open>k\<close> bytes and fail with \<open>e\<close>.
\<close>

record conn =
  sent :: "byte list list"
  conn_open :: bool
  broken :: "(nat \<times> go_error) option"

record network =
  sockets :: "nat \<rightharpoonup> conn"
  next_sock :: nat
  dial_error :: "string \<Rightarrow> string \<Rightarrow> go_error option"

definition new_network :: "(string \<Rightarrow> string \<Rightarrow> go_error option) \<Rightarrow> network" where
  "new_network d = \<lparr>sockets = Map.empty, next_sock = 0, dial_error = d\<rparr>"

definition net_closed :: go_error where
  "net_closed = Extern ''use of closed network connection''"

definition conn_write :: "byte list \<Rightarrow> conn \<Rightarrow> go_error option \<times> conn" where
  "conn_write data k =
     (if \<not> conn_open k then (Some net_closed, k)
      else case broken k of
          None \<Rightarrow> (None, k\<lparr>sent := sent k @ [data]\<rparr>)
        | Some (n, e) \<Rightarrow> (Some e, k\<lparr>sent := sent k @ [take n data]\<rparr>))"

definition sock_write :: "nat \<Rightarrow> byte list \<Rightarrow> network \<Rightarrow> go_error option \<times> network" where
  "sock_write c data w =
     (case sockets w c of
        None \<Rightarrow> (Some net_closed, w)
      | Some k \<Rightarrow> (let (e, k1) = conn_write data k in (e, w\<lparr>sockets := (sockets w)(c \<mapsto> k1)\<rparr>)))"

definition sock_close :: "nat \<Rightarrow> network \<Rightarrow> network" where
  "sock_close c w =
     (case sockets w c of
        None \<Rightarrow> w
      | Some k \<Rightarrow> w\<lparr>sockets := (sockets w)(c \<mapsto> k\<lparr>conn_open := False\<rparr>)\<rparr>)"

definition dial :: "string \<Rightarrow> string \<Rightarrow> network \<Rightarrow> (go_error + nat) \<times> network" where
  "dial proto addr w =
     (case dial_error w proto addr of
        Some e \<Rightarrow> (Inl e, w)
      | None \<Rightarrow> (Inr (next_sock w),
          w\<lparr>sockets := (sockets w)(next_sock w \<mapsto> \<lparr>sent = [], conn_open = True, broken = None\<rparr>),
            next_sock := next_sock w + 1\<rparr>))"

text \<open>What a \<^verbatim>\<open>Read\<close> into a buffer returns: bytes, an error, or both.\<close>

type_synonym read_result = "byte list \<times> go_error option"

definition read_ok :: "nat \<Rightarrow> read_result \<Rightarrow> bool" where
  "read_ok bufsize rd \<longleftrightarrow> length (fst rd) \<le> bufsize"

section \<open>The TCP relay\<close>

text \<open>\<open>tcopiers\<close> are the copy goroutines that are running, each with its own connection.\<close>

record tcp_relay =
  tconns :: "u32 \<rightharpoonup> nat"
  tcopiers :: "(u32 \<times> nat) list"

definition NewTCPRelay :: tcp_relay where
  "NewTCPRelay = \<lparr>tconns = Map.empty, tcopiers = []\<rparr>"

definition Register :: "u32 \<Rightarrow> nat \<Rightarrow> tcp_relay \<Rightarrow> tcp_relay" where
  "Register ch c r = r\<lparr>tconns := (tconns r)(ch \<mapsto> c)\<rparr>"

definition TCP_Open :: "u32 \<Rightarrow> string \<Rightarrow> tcp_relay \<times> network \<Rightarrow> go_error option \<times> tcp_relay \<times> network" where
  "TCP_Open ch address rw =
     (let (r, w) = rw in
      case dial ''tcp'' address w of
        (Inl e, w1) \<Rightarrow> (Some e, r, w1)
      | (Inr c, w1) \<Rightarrow>
          let r1 = Register ch c r
          in (None, r1\<lparr>tcopiers := tcopiers r1 @ [(ch, c)]\<rparr>, w1))"

definition TCP_Close :: "u32 \<Rightarrow> tcp_relay \<times> network \<Rightarrow> tcp_relay \<times> network" where
  "TCP_Close ch rw =
     (let (r, w) = rw; conn = tconns r ch; r1 = r\<lparr>tconns := (tconns r)(ch := None)\<rparr>
      in (r1, case conn of None \<Rightarrow> w | Some c \<Rightarrow> sock_close c w))"

definition TCP_Write :: "u32 \<Rightarrow> byte list \<Rightarrow> tcp_relay \<times> network \<Rightarrow> go_error option \<times> tcp_relay \<times> network" where
  "TCP_Write ch data rw =
     (let (r, w) = rw in
      case tconns r ch of
        None \<Rightarrow> (Some EOF, r, w)
      | Some c \<Rightarrow> let (e, w1) = sock_write c data w in (e, r, w1))"

definition data_frame :: "byte \<Rightarrow> u32 \<Rightarrow> byte list \<Rightarrow> frame" where
  "data_frame ty ch p = zero_frame\<lparr>ftype := ty, channelID := ch, payload := p\<rparr>"

text \<open>
  An iteration of \<^verbatim>\<open>copyRemoteToTunnel\<close> for the read result \<open>rd\<close>; the boolean
  tells whether the loop goes on.
\<close>

definition copyRemoteToTunnel_iter ::
  "u32 \<Rightarrow> nat \<Rightarrow> read_result \<Rightarrow> tcp_relay \<times> network \<Rightarrow> session
     \<Rightarrow> bool \<times> (tcp_relay \<times> network) \<times> session" where
  "copyRemoteToTunnel_iter ch c rd rw s =
     (let (buf, err) = rd;
          s1 = (if length buf > 0 then snd (QueueData (data_frame FrameTCPDATA ch buf) s) else s)
      in if err \<noteq> None then
           let s2 = snd (QueueControl (data_frame FrameTCPCLOSE ch []) s1);
               (r, w) = TCP_Close ch rw
           in (False, (r\<lparr>tcopiers := remove1 (ch, c) (tcopiers r)\<rparr>, w), s2)
         else (True, rw, s1))"

section \<open>The UDP relay\<close>

record udp_assoc =
  uconn :: nat
  expires :: int

record udp_relay =
  assocs :: "u32 \<rightharpoonup> udp_assoc"
  ureaders :: "(u32 \<times> nat) list"
  reasm :: reassembler

definition NewUDPRelay :: udp_relay where
  "NewUDPRelay = \<lparr>assocs = Map.empty, ureaders = [], reasm = NewReassembler\<rparr>"

definition UDP_Open ::
  "int \<Rightarrow> u32 \<Rightarrow> string \<Rightarrow> udp_relay \<times> network \<Rightarrow> go_error option \<times> udp_relay \<times> network" where
  "UDP_Open now ch address rw =
     (let (r, w) = rw in
      case dial ''udp'' address w of
        (Inl e, w1) \<Rightarrow> (Some e, r, w1)
      | (Inr c, w1) \<Rightarrow>
          let r1 = r\<lparr>assocs := (assocs r)(ch \<mapsto> \<lparr>uconn = c, expires = now + 60 * 1000000000\<rparr>)\<rparr>
          in (None, r1\<lparr>ureaders := ureaders r1 @ [(ch, c)]\<rparr>, w1))"

definition UDP_Close :: "u32 \<Rightarrow> udp_relay \<times> network \<Rightarrow> udp_relay \<times> network" where
  "UDP_Close ch rw =
     (let (r, w) = rw; assoc = assocs r ch; r1 = r\<lparr>assocs := (assocs r)(ch := None)\<rparr>
      in (r1, case assoc of None \<Rightarrow> w | Some a \<Rightarrow> sock_close (uconn a) w))"

definition UDP_Write ::
  "u32 \<Rightarrow> udp_datagram \<Rightarrow> udp_relay \<times> network \<Rightarrow> go_error option \<times> udp_relay \<times> network" where
  "UDP_Write ch dg rw =
     (let (r, w) = rw in
      case assocs r ch of
        None \<Rightarrow> (Some EOF, r, w)
      | Some a \<Rightarrow> let (e, w1) = sock_write (uconn a) (udp_datagram.Data dg) w in (e, r, w1))"

text \<open>\<open>nano\<close> is \<^verbatim>\<open>time.Now().UnixNano()\<close>, whose low 32 bits become the datagram's identifier.\<close>

definition UDP_readLoop_iter ::
  "int \<Rightarrow> u32 \<Rightarrow> nat \<Rightarrow> read_result \<Rightarrow> udp_relay \<times> network \<Rightarrow> session
     \<Rightarrow> bool \<times> (udp_relay \<times> network) \<times> session" where
  "UDP_readLoop_iter nano ch c rd rw s =
     (let (buf, err) = rd;
          s1 = (if length buf > 0 then
                  (case FragmentUDP buf (of_int nano) 1000 of
                     Inl _ \<Rightarrow> s
                   | Inr frags \<Rightarrow> fold (\<lambda>frag s.
                       snd (QueueData (data_frame FrameUDPDATA ch (EncodeUDPDatagram frag)) s)) frags s)
                else s)
      in if err \<noteq> None then
           let s2 = snd (QueueControl (data_frame FrameUDPCLOSE ch []) s1);
               (r, w) = UDP_Close ch rw
           in (False, (r\<lparr>ureaders := remove1 (ch, c) (ureaders r)\<rparr>, w), s2)
         else (True, rw, s1))"

section \<open>Connections and networks\<close>

definition network_wf :: "network \<Rightarrow> bool" where
  "network_wf w \<longleftrightarrow> dom (sockets w) = {..<next_sock w}"

definition delivered :: "nat \<Rightarrow> network \<Rightarrow> byte list list" where
  "delivered c w = (case sockets w c of None \<Rightarrow> [] | Some k \<Rightarrow> sent k)"

definition healthy :: "nat \<Rightarrow> network \<Rightarrow> bool" where
  "healthy c w \<longleftrightarrow> (\<exists>k. sockets w c = Some k \<and> conn_open k \<and> broken k = None)"

definition is_open :: "nat \<Rightarrow> network \<Rightarrow> bool" where
  "is_open c w \<longleftrightarrow> (\<exists>k. sockets w c = Some k \<and> conn_open k)"

lemma network_wf_new [simp]: "network_wf (new_network d)"
  by (simp add: network_wf_def new_network_def)

lemma network_wf_close [simp]: "network_wf (sock_close c w) = network_wf w"
  by (auto simp: network_wf_def sock_close_def split: option.splits)

lemma network_wf_write [simp]: "network_wf (snd (sock_write c data w)) = network_wf w"
  by (auto simp: network_wf_def sock_write_def split_beta split: option.splits)

lemma network_wf_dial [simp]: "network_wf w \<Longrightarrow> network_wf (snd (dial proto addr w))"
  by (auto simp: network_wf_def dial_def split: option.splits)

lemma next_sock_simps [simp]:
  "next_sock (sock_close c w) = next_sock w" "next_sock (snd (sock_write c data w)) = next_sock w"
  "dial_error (sock_close c w) = dial_error w" "dial_error (snd (sock_write c data w)) = dial_error w"
  "dial_error (snd (dial proto addr w)) = dial_error w"
  by (auto simp: sock_close_def sock_write_def dial_def split_beta split: option.splits)

lemma sock_close_other [simp]:
  "c \<noteq> d \<Longrightarrow> sockets (sock_close c w) d = sockets w d"
  by (auto simp: sock_close_def split: option.splits)

lemma sock_write_other [simp]:
  "c \<noteq> d \<Longrightarrow> sockets (snd (sock_write c data w)) d = sockets w d"
  by (auto simp: sock_write_def split_beta split: option.splits)

lemma dial_other:
  "d < next_sock w \<Longrightarrow> sockets (snd (dial proto addr w)) d = sockets w d"
  by (auto simp: dial_def split: option.splits)

lemma sock_write_healthy:
  "healthy c w \<Longrightarrow> fst (sock_write c data w) = None
     \<and> delivered c (snd (sock_write c data w)) = delivered c w @ [data]
     \<and> healthy c (snd (sock_write c data w))"
  by (auto simp: healthy_def delivered_def sock_write_def conn_write_def)

lemma is_open_write [simp]: "is_open d (snd (sock_write c data w)) = is_open d w"
  by (cases "c = d")
    (auto simp: is_open_def sock_write_def conn_write_def split: option.splits)

lemma delivered_close [simp]: "delivered d (sock_close c w) = delivered d w"
  by (cases "c = d") (auto simp: delivered_def sock_close_def split: option.splits)

lemma sock_close_closed [simp]: "\<not> is_open c (sock_close c w)"
  by (auto simp: is_open_def sock_close_def split: option.splits)

lemma is_open_close_other [simp]: "c \<noteq> d \<Longrightarrow> is_open d (sock_close c w) = is_open d w"
  by (simp add: is_open_def)

lemma dial_ok:
  "dial_error w proto addr = None \<Longrightarrow>
     fst (dial proto addr w) = Inr (next_sock w)
     \<and> next_sock (snd (dial proto addr w)) = next_sock w + 1
     \<and> healthy (next_sock w) (snd (dial proto addr w))
     \<and> delivered (next_sock w) (snd (dial proto addr w)) = []"
  by (simp add: dial_def healthy_def delivered_def)

lemma healthy_is_open: "healthy c w \<Longrightarrow> is_open c w"
  by (auto simp: healthy_def is_open_def)

section \<open>The contract of a relay\<close>

text \<open>
  What the session handler relies on, for the TCP and the UDP relay alike: opening dials and
  registers the new connection under the channel, closing closes the registered connection and
  forgets it, writing writes to the registered connection, and none of them touches the entry of
  another channel.
\<close>

datatype ('a, 'd) relay_op = OpOpen u32 'a | OpClose u32 | OpWrite u32 'd

locale relay =
  fixes conn_of :: "u32 \<Rightarrow> 'r \<Rightarrow> nat option"
    and open_ch :: "u32 \<Rightarrow> 'a \<Rightarrow> 'r \<times> network \<Rightarrow> go_error option \<times> 'r \<times> network"
    and close_ch :: "u32 \<Rightarrow> 'r \<times> network \<Rightarrow> 'r \<times> network"
    and write_ch :: "u32 \<Rightarrow> 'd \<Rightarrow> 'r \<times> network \<Rightarrow> go_error option \<times> 'r \<times> network"
    and proto :: string
    and addr_of :: "'a \<Rightarrow> string"
    and data_of :: "'d \<Rightarrow> byte list"
  assumes open_law: "open_ch ch addr (r, w) = (e, r2, w2) \<Longrightarrow>
      e = dial_error w proto (addr_of addr) \<and> w2 = snd (dial proto (addr_of addr) w)
      \<and> conn_of ch2 r2 = (if e = None \<and> ch2 = ch then Some (next_sock w) else conn_of ch2 r)"
    and close_law: "close_ch ch (r, w) = (r2, w2) \<Longrightarrow>
      w2 = (case conn_of ch r of None \<Rightarrow> w | Some c \<Rightarrow> sock_close c w)
      \<and> conn_of ch2 r2 = (if ch2 = ch then None else conn_of ch2 r)"
    and write_law: "write_ch ch d (r, w) = (e, r2, w2) \<Longrightarrow>
      (e, w2) = (case conn_of ch r of None \<Rightarrow> (Some EOF, w) | Some c \<Rightarrow> sock_write c (data_of d) w)
      \<and> conn_of ch2 r2 = conn_of ch2 r"
begin

text \<open>
  The invariant: registered connections exist and are open, and no connection is registered under
  two channels.
\<close>

definition table_inv :: "'r \<times> network \<Rightarrow> bool" where
  "table_inv rw \<longleftrightarrow> network_wf (snd rw)
     \<and> (\<forall>ch c. conn_of ch (fst rw) = Some c \<longrightarrow> c < next_sock (snd rw) \<and> is_open c (snd rw))
     \<and> (\<forall>ch ch2 c. conn_of ch (fst rw) = Some c \<and> conn_of ch2 (fst rw) = Some c \<longrightarrow> ch = ch2)"

lemma table_invI:
  assumes "network_wf w" and "\<And>ch c. conn_of ch r = Some c \<Longrightarrow> c < next_sock w \<and> is_open c w"
    and "\<And>ch ch2 c. conn_of ch r = Some c \<Longrightarrow> conn_of ch2 r = Some c \<Longrightarrow> ch = ch2"
  shows "table_inv (r, w)"
  unfolding table_inv_def fst_conv snd_conv using assms by blast

lemma table_invD:
  assumes "table_inv (r, w)"
  shows "network_wf w" and "conn_of ch r = Some c \<Longrightarrow> c < next_sock w \<and> is_open c w"
    and "conn_of ch r = Some c \<Longrightarrow> conn_of ch2 r = Some c \<Longrightarrow> ch = ch2"
  using assms unfolding table_inv_def fst_conv snd_conv by blast+

lemma open_inv:
  assumes inv: "table_inv (r, w)" and o: "open_ch ch addr (r, w) = (e, r2, w2)"
  shows "table_inv (r2, w2)"
proof (rule table_invI)
  have w2: "w2 = snd (dial proto (addr_of addr) w)" and e: "e = dial_error w proto (addr_of addr)"
    and co: "\<And>ch2. conn_of ch2 r2 = (if e = None \<and> ch2 = ch then Some (next_sock w) else conn_of ch2 r)"
    using open_law [OF o] by blast+
  show "network_wf w2" using table_invD(1) [OF inv] w2 by simp
  have le: "next_sock w \<le> next_sock w2" by (simp add: w2 dial_def split: option.splits)
  show "c < next_sock w2 \<and> is_open c w2" if c: "conn_of ch2 r2 = Some c" for ch2 c
  proof (cases "e = None \<and> ch2 = ch")
    case True
    then have "c = next_sock w" using c co [of ch2] by simp
    with True show ?thesis
      using dial_ok [of w proto "addr_of addr"] w2 e by (simp add: healthy_is_open)
  next
    case False
    then have "c < next_sock w" "is_open c w"
      using c co [of ch2] table_invD(2) [OF inv, of ch2 c] by (simp_all split: if_splits)
    then show ?thesis using le by (simp add: is_open_def w2 dial_other)
  qed
  show "ch1 = ch2" if "conn_of ch1 r2 = Some c" "conn_of ch2 r2 = Some c" for ch1 ch2 c
    using that co [of ch1] co [of ch2] table_invD(2) [OF inv, of ch1 c] table_invD(2) [OF inv, of ch2 c]
      table_invD(3) [OF inv, of ch1 c ch2] by (simp split: if_splits)
qed

lemma close_inv:
  assumes inv: "table_inv (r, w)" and o: "close_ch ch (r, w) = (r2, w2)"
  shows "table_inv (r2, w2)"
proof (rule table_invI)
  have w2: "w2 = (case conn_of ch r of None \<Rightarrow> w | Some c \<Rightarrow> sock_close c w)"
    and co: "\<And>ch2. conn_of ch2 r2 = (if ch2 = ch then None else conn_of ch2 r)"
    using close_law [OF o] by blast+
  show "network_wf w2" using table_invD(1) [OF inv] w2 by (simp split: option.splits)
  show "c < next_sock w2 \<and> is_open c w2" if "conn_of ch2 r2 = Some c" for ch2 c
  proof -
    have c: "ch2 \<noteq> ch" "conn_of ch2 r = Some c" using that co [of ch2] by (simp_all split: if_splits)
    then have "conn_of ch r \<noteq> Some c" using table_invD(3) [OF inv, of ch c ch2] by blast
    then show ?thesis using table_invD(2) [OF inv c(2)] w2 by (auto split: option.splits)
  qed
  show "ch1 = ch2" if "conn_of ch1 r2 = Some c" "conn_of ch2 r2 = Some c" for ch1 ch2 c
    using that co [of ch1] co [of ch2] table_invD(3) [OF inv, of ch1 c ch2] by (simp split: if_splits)
qed

lemma write_inv:
  assumes inv: "table_inv (r, w)" and o: "write_ch ch d (r, w) = (e, r2, w2)"
  shows "table_inv (r2, w2)"
proof (rule table_invI)
  have "(e, w2) = (case conn_of ch r of None \<Rightarrow> (Some EOF, w) | Some c \<Rightarrow> sock_write c (data_of d) w)"
    and co: "\<And>ch2. conn_of ch2 r2 = conn_of ch2 r"
    using write_law [OF o] by blast+
  then have w2: "w2 = w \<or> (\<exists>c. w2 = snd (sock_write c (data_of d) w))"
    by (cases "conn_of ch r") (simp_all, metis snd_conv)
  then show "network_wf w2" using table_invD(1) [OF inv] by auto
  show "c < next_sock w2 \<and> is_open c w2" if "conn_of ch2 r2 = Some c" for ch2 c
    using that co [of ch2] table_invD(2) [OF inv, of ch2 c] w2 by auto
  show "ch1 = ch2" if "conn_of ch1 r2 = Some c" "conn_of ch2 r2 = Some c" for ch1 ch2 c
    using that co [of ch1] co [of ch2] table_invD(3) [OF inv, of ch1 c ch2] by simp
qed

primrec relay_step :: "('a, 'd) relay_op \<Rightarrow> 'r \<times> network \<Rightarrow> 'r \<times> network" where
  "relay_step (OpOpen ch addr) rw = snd (open_ch ch addr rw)"
| "relay_step (OpClose ch) rw = close_ch ch rw"
| "relay_step (OpWrite ch d) rw = snd (write_ch ch d rw)"

lemma step_inv: "table_inv rw \<Longrightarrow> table_inv (relay_step x rw)"
proof (cases rw)
  case (Pair r w)
  assume inv: "table_inv rw"
  then have i: "table_inv (r, w)" using Pair by simp
  show ?thesis
  proof (cases x)
    case (OpOpen ch addr)
    obtain e r2 w2 where "open_ch ch addr (r, w) = (e, r2, w2)" by (metis prod_cases3)
    then show ?thesis using open_inv [OF i] OpOpen Pair by simp
  next
    case (OpClose ch)
    obtain r2 w2 where "close_ch ch (r, w) = (r2, w2)" by (metis prod.exhaust)
    then show ?thesis using close_inv [OF i] OpClose Pair by simp
  next
    case (OpWrite ch d)
    obtain e r2 w2 where "write_ch ch d (r, w) = (e, r2, w2)" by (metis prod_cases3)
    then show ?thesis using write_inv [OF i] OpWrite Pair by simp
  qed
qed

text \<open>Data on an open channel is delivered in order, whatever happens on the other channels.\<close>

primrec data_on :: "u32 \<Rightarrow> ('a, 'd) relay_op list \<Rightarrow> byte list list" where
  "data_on ch [] = []"
| "data_on ch (x # xs) =
     (case x of OpWrite ch2 d \<Rightarrow> if ch2 = ch then [data_of d] else [] | _ \<Rightarrow> []) @ data_on ch xs"

primrec leaves_open :: "u32 \<Rightarrow> ('a, 'd) relay_op \<Rightarrow> bool" where
  "leaves_open ch (OpOpen ch2 addr) = (ch2 \<noteq> ch)"
| "leaves_open ch (OpClose ch2) = (ch2 \<noteq> ch)"
| "leaves_open ch (OpWrite ch2 d) = True"

lemma step_delivers:
  assumes "table_inv rw" and "conn_of ch (fst rw) = Some c" and "healthy c (snd rw)"
    and "leaves_open ch x"
  shows "conn_of ch (fst (relay_step x rw)) = Some c \<and> healthy c (snd (relay_step x rw))
    \<and> delivered c (snd (relay_step x rw)) = delivered c (snd rw) @ data_on ch [x]"
proof -
  obtain r w where rw: "rw = (r, w)" by (cases rw)
  have lt: "c < next_sock w" and inj: "\<And>ch2. conn_of ch2 r = Some c \<Longrightarrow> ch2 = ch"
    using assms(1,2) table_invD(2) [of r w ch c] table_invD(3) [of r w _ c ch] by (auto simp: rw)
  show ?thesis
  proof (cases x)
    case (OpOpen ch2 addr)
    obtain e r2 w2 where o: "open_ch ch2 addr (r, w) = (e, r2, w2)" by (metis prod_cases3)
    have "sockets w2 c = sockets w c" using open_law [OF o] dial_other [OF lt] by simp
    then show ?thesis
      using open_law [OF o, of ch] assms(2-4) OpOpen o rw by (simp add: healthy_def delivered_def)
  next
    case (OpClose ch2)
    obtain r2 w2 where o: "close_ch ch2 (r, w) = (r2, w2)" by (metis prod.exhaust)
    have "conn_of ch2 r \<noteq> Some c" using inj assms(4) OpClose by auto
    then have "sockets w2 c = sockets w c"
      using close_law [OF o] by (auto split: option.splits)
    then show ?thesis
      using close_law [OF o, of ch] assms(2-4) OpClose o rw by (simp add: healthy_def delivered_def)
  next
    case (OpWrite ch2 d)
    obtain e r2 w2 where o: "write_ch ch2 d (r, w) = (e, r2, w2)" by (metis prod_cases3)
    note law = write_law [OF o, of ch]
    show ?thesis
    proof (cases "ch2 = ch")
      case True
      then have "w2 = snd (sock_write c (data_of d) w)"
        using law assms(2) rw by (auto) (metis snd_conv)
      then show ?thesis
        using law assms(2,3) True OpWrite o rw sock_write_healthy [of c w] by simp
    next
      case False
      then have "conn_of ch2 r \<noteq> Some c" using inj by auto
      then have "sockets w2 c = sockets w c"
        using law by (auto split: option.splits) (metis sock_write_other snd_conv)
      then show ?thesis
        using law assms(2,3) False OpWrite o rw by (simp add: healthy_def delivered_def)
    qed
  qed
qed

primrec relay_run :: "('a, 'd) relay_op list \<Rightarrow> 'r \<times> network \<Rightarrow> 'r \<times> network" where
  "relay_run [] rw = rw"
| "relay_run (x # xs) rw = relay_run xs (relay_step x rw)"

lemma run_inv: "table_inv rw \<Longrightarrow> table_inv (relay_run xs rw)"
  by (induction xs arbitrary: rw) (simp_all add: step_inv)

lemma run_delivers:
  assumes "table_inv rw" and "conn_of ch (fst rw) = Some c" and "healthy c (snd rw)"
    and "\<forall>x \<in> set xs. leaves_open ch x"
  shows "conn_of ch (fst (relay_run xs rw)) = Some c \<and> healthy c (snd (relay_run xs rw))
    \<and> delivered c (snd (relay_run xs rw)) = delivered c (snd rw) @ data_on ch xs"
  using assms
proof (induction xs arbitrary: rw)
  case (Cons x xs)
  note one = step_delivers [OF Cons.prems(1-3), of x]
  have "delivered c (snd (relay_run xs (relay_step x rw)))
      = delivered c (snd (relay_step x rw)) @ data_on ch xs \<and>
      conn_of ch (fst (relay_run xs (relay_step x rw))) = Some c
      \<and> healthy c (snd (relay_run xs (relay_step x rw)))"
    using Cons.IH [OF step_inv [OF Cons.prems(1), of x]] one Cons.prems(4) by simp
  then show ?case using one Cons.prems(4) by simp
qed simp

text \<open>A channel that is opened anew carries exactly the data written after.\<close>

lemma open_then_run:
  assumes "table_inv rw" and "open_ch ch addr rw = (None, rw2)" and "\<forall>x \<in> set xs. leaves_open ch x"
  shows "\<exists>c. conn_of ch (fst (relay_run xs rw2)) = Some c
    \<and> delivered c (snd (relay_run xs rw2)) = data_on ch xs"
proof -
  obtain r w r2 w2 where rw: "rw = (r, w)" "rw2 = (r2, w2)" by (cases rw; cases rw2)
  have o: "open_ch ch addr (r, w) = (None, r2, w2)" using assms(2) rw by simp
  have new: "conn_of ch r2 = Some (next_sock w)" "healthy (next_sock w) w2" "delivered (next_sock w) w2 = []"
    using open_law [OF o, of ch] dial_ok [of w proto "addr_of addr"] by auto
  have "table_inv rw2" using open_inv [of r w] assms(1) o rw by simp
  from run_delivers [OF this _ _ assms(3)] new rw show ?thesis by auto
qed

lemma write_unknown:
  "conn_of ch (fst rw) = None \<Longrightarrow> fst (write_ch ch d rw) = Some EOF \<and> snd (snd (write_ch ch d rw)) = snd rw"
  using write_law [of ch d "fst rw" "snd rw"] by (cases "write_ch ch d rw") auto

end


section \<open>The two relays meet the contract\<close>

definition tcp_conn :: "u32 \<Rightarrow> tcp_relay \<Rightarrow> nat option" where
  "tcp_conn ch r = tconns r ch"

definition udp_conn :: "u32 \<Rightarrow> udp_relay \<Rightarrow> nat option" where
  "udp_conn ch r = map_option uconn (assocs r ch)"

text \<open>The address to open a UDP association for, with the clock reading of the call.\<close>

definition UDP_Open_at :: "u32 \<Rightarrow> int \<times> string \<Rightarrow> udp_relay \<times> network \<Rightarrow> go_error option \<times> udp_relay \<times> network" where
  "UDP_Open_at ch a = UDP_Open (fst a) ch (snd a)"

interpretation tr: relay tcp_conn TCP_Open TCP_Close TCP_Write "''tcp''" "\<lambda>a. a" "\<lambda>d. d"
  by unfold_locales
    (auto simp: tcp_conn_def TCP_Open_def TCP_Close_def TCP_Write_def Register_def dial_def Let_def
      split_beta split: option.splits)

interpretation ur: relay udp_conn UDP_Open_at UDP_Close UDP_Write "''udp''" snd udp_datagram.Data
  by unfold_locales
    (auto simp: udp_conn_def UDP_Open_at_def UDP_Open_def UDP_Close_def UDP_Write_def dial_def Let_def
      split_beta split: option.splits)

lemma tcp_table_inv_new: "tr.table_inv (NewTCPRelay, new_network d)"
  by (rule tr.table_invI) (simp_all add: tcp_conn_def NewTCPRelay_def)

lemma udp_table_inv_new: "ur.table_inv (NewUDPRelay, new_network d)"
  by (rule ur.table_invI) (simp_all add: udp_conn_def NewUDPRelay_def)

text \<open>The tables are registries: writes to one channel do not show on another.\<close>

interpretation tcp_table: registry "\<lambda>ch rw. tcp_conn ch (fst rw)"
  "\<lambda>ch c rw. (Register ch c (fst rw), snd rw)" TCP_Close
  by unfold_locales
    (auto simp: tcp_conn_def Register_def TCP_Close_def Let_def split_beta)

section \<open>Properties of the relays\<close>

text \<open>A TCP channel is a byte stream: after any operations of a fresh relay, when a channel has
  been opened the connection dialled for it receives exactly the data written to that channel, in
  order, whatever is opened, closed or written on the other channels meanwhile; and every
  registered connection is open and belongs to one channel only.\<close>

theorem tcp_channel_stream:
  assumes "rw = tr.relay_run xs (NewTCPRelay, new_network d)" and "TCP_Open ch addr rw = (None, rw2)"
    and "\<forall>x \<in> set ys. tr.leaves_open ch x"
  shows "\<exists>c. tcp_conn ch (fst (tr.relay_run ys rw2)) = Some c
    \<and> delivered c (snd (tr.relay_run ys rw2)) = tr.data_on ch ys
    \<and> is_open c (snd (tr.relay_run ys rw2))
    \<and> (\<forall>ch2. tcp_conn ch2 (fst (tr.relay_run ys rw2)) = Some c \<longrightarrow> ch2 = ch)"
proof -
  have inv: "tr.table_inv rw" using assms(1) tr.run_inv tcp_table_inv_new by simp
  obtain c where c: "tcp_conn ch (fst (tr.relay_run ys rw2)) = Some c"
    "delivered c (snd (tr.relay_run ys rw2)) = tr.data_on ch ys"
    using tr.open_then_run [OF inv assms(2,3)] by blast
  have "tr.table_inv rw2"
    using tr.step_inv [OF inv, of "OpOpen ch addr"] assms(2) by simp
  then have "tr.table_inv (tr.relay_run ys rw2)" by (rule tr.run_inv)
  then have "tr.table_inv (fst (tr.relay_run ys rw2), snd (tr.relay_run ys rw2))" by simp
  from tr.table_invD(2,3) [OF this] c show ?thesis by blast
qed

theorem tcp_channel_stream_witness:
  "\<exists>c. delivered c (snd (tr.relay_run [OpWrite 2 [1], OpOpen 3 ''b:2'', OpWrite 3 [9], OpWrite 2 [2, 3]]
     (snd (TCP_Open 2 ''a:1'' (NewTCPRelay, new_network (\<lambda>_ _. None)))))) = [[1], [2, 3]]"
proof -
  obtain rw2 where o: "TCP_Open 2 ''a:1'' (NewTCPRelay, new_network (\<lambda>_ _. None)) = (None, rw2)"
    by (simp add: TCP_Open_def dial_def new_network_def Let_def)
  have r: "(NewTCPRelay, new_network (\<lambda>_ _. None)) = tr.relay_run [] (NewTCPRelay, new_network (\<lambda>_ _. None))"
    by simp
  have "\<forall>x \<in> set [OpWrite 2 [1], OpOpen 3 ''b:2'', OpWrite 3 [9], OpWrite 2 [2, 3]]. tr.leaves_open 2 x"
    by simp
  from tcp_channel_stream [OF r o this] show ?thesis by (auto simp: o)
qed

text \<open>A UDP association delivers one datagram per write, in order and with its boundaries; the
  relay does not reassemble: each fragment goes out as a datagram of its own.\<close>

theorem udp_channel_datagrams:
  assumes "rw = ur.relay_run xs (NewUDPRelay, new_network d)" and "UDP_Open now ch addr rw = (None, rw2)"
    and "\<forall>x \<in> set ys. ur.leaves_open ch x"
  shows "\<exists>c. udp_conn ch (fst (ur.relay_run ys rw2)) = Some c
    \<and> delivered c (snd (ur.relay_run ys rw2)) = ur.data_on ch ys"
proof -
  have "ur.table_inv rw" using assms(1) ur.run_inv udp_table_inv_new by simp
  moreover have "UDP_Open_at ch (now, addr) rw = (None, rw2)"
    using assms(2) by (simp add: UDP_Open_at_def)
  ultimately show ?thesis using ur.open_then_run assms(3) by blast
qed

theorem udp_channel_datagrams_witness:
  "let d = zero_datagram\<lparr>FragCount := 2, udp_datagram.Data := [1]\<rparr>;
       e = zero_datagram\<lparr>FragIndex := 1, FragCount := 2, udp_datagram.Data := [2]\<rparr>
   in \<exists>c. delivered c (snd (ur.relay_run [OpWrite 2 d, OpWrite 2 e]
     (snd (UDP_Open 0 2 ''a:1'' (NewUDPRelay, new_network (\<lambda>_ _. None)))))) = [[1], [2]]"
proof -
  let ?d = "zero_datagram\<lparr>FragCount := 2, udp_datagram.Data := [1]\<rparr>"
  let ?e = "zero_datagram\<lparr>FragIndex := 1, FragCount := 2, udp_datagram.Data := [2]\<rparr>"
  obtain rw2 where o: "UDP_Open 0 2 ''a:1'' (NewUDPRelay, new_network (\<lambda>_ _. None)) = (None, rw2)"
    by (simp add: UDP_Open_def dial_def new_network_def Let_def)
  have r: "(NewUDPRelay, new_network (\<lambda>_ _. None)) = ur.relay_run [] (NewUDPRelay, new_network (\<lambda>_ _. None))"
    by simp
  have "\<forall>x \<in> set [OpWrite 2 ?d, OpWrite 2 ?e]. ur.leaves_open 2 x" by simp
  from udp_channel_datagrams [OF r o this] show ?thesis by (auto simp: o)
qed


text \<open>What the copy loop does with one read: a chunk is queued as one TCPDATA frame, which the
  codec accepts, if the data queue has room for it, and is dropped without a trace if it has not,
  the loop going on; an error ends the loop, queues TCPCLOSE after the data and closes whatever
  connection the channel then has.\<close>

theorem tcp_copy_step:
  assumes "session_wf s" and "read_ok 16384 (buf, err)"
    and "copyRemoteToTunnel_iter ch c (buf, err) rw s = (goes_on, rw2, s2)"
  shows "goes_on = (err = None)
    \<and> q_list (dataQ s2) = q_list (dataQ s)
        @ (if buf \<noteq> [] \<and> data_room s (data_frame FrameTCPDATA ch buf)
           then [data_frame FrameTCPDATA ch buf] else [])
    \<and> q_list (controlQ s2) = q_list (controlQ s)
        @ (if err \<noteq> None \<and> control_room s (data_frame FrameTCPCLOSE ch [])
           then [data_frame FrameTCPCLOSE ch []] else [])
    \<and> (err = None \<longrightarrow> rw2 = rw)
    \<and> (err \<noteq> None \<longrightarrow> tcp_conn ch (fst rw2) = None
        \<and> (\<forall>c2. tcp_conn ch (fst rw) = Some c2 \<longrightarrow> \<not> is_open c2 (snd rw2)))
    \<and> transmittable (data_frame FrameTCPDATA ch buf) \<and> session_wf s2"
proof -
  define s1 where "s1 = (if length buf > 0
      then snd (QueueData (data_frame FrameTCPDATA ch buf) s) else s)"
  have s1: "session_wf s1" "controlQ s1 = controlQ s"
    "q_list (dataQ s1) = q_list (dataQ s)
        @ (if buf \<noteq> [] \<and> data_room s (data_frame FrameTCPDATA ch buf)
           then [data_frame FrameTCPDATA ch buf] else [])"
    using QueueData_list [OF assms(1)] assms(1) by (simp_all add: s1_def)
  have cr: "control_room s1 f = control_room s f" for f
    by (simp add: control_room_def s1)
  have tr: "transmittable (data_frame FrameTCPDATA ch buf)"
    using assms(2) by (simp add: transmittable_def encodable_def data_frame_def zero_frame_def
        KnownFrameType_def read_ok_def)
  show ?thesis
  proof (cases err)
    case None
    then have "goes_on" "rw2 = rw" "s2 = s1"
      using assms(3) by (simp_all add: copyRemoteToTunnel_iter_def s1_def split: if_splits)
    then show ?thesis using s1 tr None by simp
  next
    case (Some e)
    let ?s2 = "snd (QueueControl (data_frame FrameTCPCLOSE ch []) s1)"
    have "goes_on = False" "fst rw2 = (fst (TCP_Close ch rw))\<lparr>tcopiers :=
        remove1 (ch, c) (tcopiers (fst (TCP_Close ch rw)))\<rparr>" "snd rw2 = snd (TCP_Close ch rw)"
      "s2 = ?s2"
      using assms(3) Some
      by (auto simp: copyRemoteToTunnel_iter_def Let_def split_beta s1_def)
    then show ?thesis
      using QueueControl_list [OF s1(1), of "data_frame FrameTCPCLOSE ch []"] s1 Some
        tr cr
      by (auto simp: TCP_Close_def tcp_conn_def split_beta Let_def)
  qed
qed

definition demo_session :: session where
  "demo_session = NewSession 7 \<lparr>avail = [], end_err = EOF\<rparr>
     \<lparr>written = [], room = None, write_err = EOF\<rparr> (NewStats 0) 0 0"

theorem tcp_copy_step_witness:
  "let (goes_on, rw2, s2) = copyRemoteToTunnel_iter 2 0 ([1, 2], Some EOF)
       (NewTCPRelay, new_network (\<lambda>_ _. None)) demo_session
   in \<not> goes_on \<and> q_list (dataQ s2) = [data_frame FrameTCPDATA 2 [1, 2]]
     \<and> q_list (controlQ s2) = [data_frame FrameTCPCLOSE 2 []]"
proof -
  have wf: "session_wf demo_session" and e: "q_list (dataQ demo_session) = []" "q_list (controlQ demo_session) = []"
    using session_wf_New by (simp_all add: demo_session_def New_simps(1) [of frame_class.Data, simplified]
        New_simps(1) [of Control, simplified])
  obtain g rw2 s2 where r: "copyRemoteToTunnel_iter 2 0 ([1, 2], Some EOF)
      (NewTCPRelay, new_network (\<lambda>_ _. None)) demo_session = (g, rw2, s2)" by (metis prod_cases3)
  from tcp_copy_step [OF wf _ r] e show ?thesis
    unfolding r by (simp add: read_ok_def data_room_def control_room_def data_frame_def zero_frame_def)
qed

text \<open>A full data queue loses tunnel data: with 1024 frames queued, the chunk read from the
  remote end is gone, and the copy loop carries on as if it had been sent.\<close>

theorem tcp_copy_loses_data:
  assumes "session_wf s" and "length (q_list (dataQ s)) = 1024" and "buf \<noteq> []" and "length buf \<le> 16384"
  shows "\<exists>s2. copyRemoteToTunnel_iter ch c (buf, None) rw s = (True, rw, s2)
    \<and> q_list (dataQ s2) = q_list (dataQ s) \<and> q_list (controlQ s2) = q_list (controlQ s)"
  using assms QueueData_list [OF assms(1), of "data_frame FrameTCPDATA ch buf"]
  by (simp add: copyRemoteToTunnel_iter_def data_room_def)

theorem tcp_copy_loses_data_witness:
  "let s = apply_events (map (EvQueue frame_class.Data) (replicate 1024 (data_frame FrameTCPDATA 2 []))) demo_session
   in \<exists>s2. copyRemoteToTunnel_iter 2 0 ([1, 2], None) (NewTCPRelay, new_network (\<lambda>_ _. None)) s
        = (True, (NewTCPRelay, new_network (\<lambda>_ _. None)), s2) \<and> q_list (dataQ s2) = q_list (dataQ s)"
proof -
  define s where "s = apply_events (map (EvQueue frame_class.Data)
      (replicate 1024 (data_frame FrameTCPDATA 2 []))) demo_session"
  have "payload_bytes (replicate n (data_frame FrameTCPDATA 2 [])) = 0" for n
    by (induction n) (simp_all add: data_frame_def)
  from filled_data_queue [OF s_def [unfolded demo_session_def]] this
  have "session_wf s \<and> length (q_list (dataQ s)) = 1024" by (simp only: length_replicate) simp
  then show ?thesis
    using tcp_copy_loses_data [of s "[1, 2]"] unfolding Let_def s_def [symmetric] by fastforce
qed

text \<open>What the UDP read loop does with one read: a datagram is never split, it becomes one
  UDPDATA frame whose payload decodes to a single-fragment datagram with the bytes read, a deadline
  of one second and no time of sending.\<close>

theorem udp_read_step:
  assumes "session_wf s" and "read_ok MaxLocalUDPDatagram (buf, None)" and "buf \<noteq> []"
    and "UDP_readLoop_iter nano ch c (buf, None) rw s = (goes_on, rw2, s2)"
  shows "\<exists>p. DecodeUDPDatagram p = Inr \<lparr>dgID = of_int nano, SentMS = 0, DeadlineMS = 1000,
        FragIndex = 0, FragCount = 1, TotalLen = of_nat (length buf), udp_datagram.Data = buf\<rparr>
    \<and> transmittable (data_frame FrameUDPDATA ch p)
    \<and> q_list (dataQ s2) = q_list (dataQ s)
        @ (if data_room s (data_frame FrameUDPDATA ch p) then [data_frame FrameUDPDATA ch p] else [])
    \<and> goes_on \<and> rw2 = rw \<and> controlQ s2 = controlQ s"
proof -
  define d where "d = \<lparr>dgID = of_int nano, SentMS = 0, DeadlineMS = 1000, FragIndex = 0,
      FragCount = 1, TotalLen = of_nat (length buf), udp_datagram.Data = buf\<rparr>"
  have len: "length buf \<le> 1200" using assms(2) by (simp add: read_ok_def)
  moreover have "Suc 0 \<le> length buf" using assms(3) by (cases buf) auto
  ultimately have "frag_count buf = 1" unfolding frag_count_def by (intro div_nat_eqI) auto
  then have frag: "FragmentUDP buf (of_int nano) 1000 = Inr [d]"
    using assms(3) len by (simp add: FragmentUDP_eq frag_at_def udp_chunk_def d_def zero_datagram_def)
  let ?f = "data_frame FrameUDPDATA ch (EncodeUDPDatagram d)"
  have "s2 = snd (QueueData ?f s)" "goes_on" "rw2 = rw"
    using assms(3,4) frag by (simp_all add: UDP_readLoop_iter_def)
  moreover have "transmittable ?f"
    using len by (simp add: transmittable_def encodable_def data_frame_def zero_frame_def
        KnownFrameType_def d_def)
  ultimately show ?thesis
    using QueueData_list [OF assms(1), of ?f] by (intro exI [of _ "EncodeUDPDatagram d"]) (simp add: d_def)
qed

theorem udp_read_step_witness:
  "\<exists>p. DecodeUDPDatagram p = Inr \<lparr>dgID = 5, SentMS = 0, DeadlineMS = 1000, FragIndex = 0,
        FragCount = 1, TotalLen = 2, udp_datagram.Data = [8, 9]\<rparr>
    \<and> q_list (dataQ (snd (snd (UDP_readLoop_iter 5 2 0 ([8, 9], None)
          (NewUDPRelay, new_network (\<lambda>_ _. None)) demo_session))))
        = (if data_room demo_session (data_frame FrameUDPDATA 2 p) then [data_frame FrameUDPDATA 2 p] else [])"
proof -
  have wf: "session_wf demo_session" and e: "q_list (dataQ demo_session) = []"
    using session_wf_New by (simp_all add: demo_session_def New_simps(1) [of frame_class.Data, simplified])
  obtain g rw2 s2 where r: "UDP_readLoop_iter 5 2 0 ([8, 9], None)
      (NewUDPRelay, new_network (\<lambda>_ _. None)) demo_session = (g, rw2, s2)" by (metis prod_cases3)
  have "read_ok MaxLocalUDPDatagram ([8, 9], None)" by (simp add: read_ok_def)
  from udp_read_step [OF wf this _ r] e show ?thesis unfolding r by auto
qed

end
