(* ===== verification/SLPP_Server.thy ===== *)
theory SLPP_Server
  imports SLPP_Relay SLPP_Auth
begin

text \<open>
  The server's end of a tunnel, \<^verbatim>\<open>internal/transport/server.go\<close>: the handler of one
  session with its authentication gate, its dispatch of frames to the relays, and the HTTP handler
  that sets the session up.

  The handler's \<^verbatim>\<open>stats\<close> is the session's own \<^verbatim>\<open>Stats\<close> object, so its counters are
  counted on the session.  The token store is shared with other sessions; their effect on it, the
  clock and the network are steps of the environment.
\<close>

section \<open>The handler\<close>

text \<open>
  \<open>now_ns\<close> is what \<^verbatim>\<open>time.Now()\<close> reads, \<open>later_ns\<close> what \<^verbatim>\<open>time.Until\<close> reads
  inside \<^verbatim>\<open>Validate\<close>, and \<open>map_order\<close> the order in which Go ranges over a map.
\<close>

record server =
  authOK :: bool
  validator :: store
  tcp :: "tcp_relay \<times> network"
  udp :: "udp_relay \<times> network"
  now_ns :: int
  later_ns :: int
  map_order :: "(string \<rightharpoonup> token_record) \<Rightarrow> string list"

definition elapsedMillis32 :: "u32 \<Rightarrow> u32 \<Rightarrow> u32" where
  "elapsedMillis32 now earlier =
     (if now \<ge> earlier then now - earlier else (NOT 0 - earlier) + now + 1)"

definition unix_milli :: "int \<Rightarrow> int" where
  "unix_milli ns = ns div 1000000"

definition reply :: "byte \<Rightarrow> u32 \<Rightarrow> string \<Rightarrow> frame" where
  "reply ty ch txt = zero_frame\<lparr>ftype := ty, channelID := ch, payload := bytes_of_string txt\<rparr>"

definition handle_AUTH :: "server handler" where
  "handle_AUTH f h s =
     (case DecodeAuthPayload (payload f) of
        Inl e \<Rightarrow> (Some e, h, s)
      | Inr p \<Rightarrow>
          (case Validate (map_order h (tokens (validator h))) (now_ns h) (later_ns h)
                  (Token p) (Nonce p) (validator h) of
             (Some e, v) \<Rightarrow>
               let s1 = s\<lparr>s_stats := AddAuthFailure (s_stats s)\<rparr>;
                   s2 = snd (QueueControl (reply FrameAUTHERR 0 (error_text e)) s1)
               in (Some e, h\<lparr>validator := v\<rparr>, s2)
           | (None, v) \<Rightarrow>
               let (e, s1) = QueueControl (reply FrameAUTHOK 0 []) s
               in (e, h\<lparr>validator := v, authOK := True\<rparr>, s1)))"

definition opened :: "u32 \<Rightarrow> go_error option \<Rightarrow> session \<Rightarrow> go_error option \<times> session" where
  "opened ch err s =
     (case err of
        Some e \<Rightarrow> QueueControl (reply FrameOPENERR ch (error_text e)) s
      | None \<Rightarrow> QueueControl (reply FrameOPENOK ch []) (s\<lparr>s_stats := AddActiveChannel 1 (s_stats s)\<rparr>))"

definition handle_OPENTCP :: "server handler" where
  "handle_OPENTCP f h s =
     (case DecodeAddress (payload f) of
        Inl e \<Rightarrow> (Some e, h, s)
      | Inr addr \<Rightarrow>
          let (err, rw) = TCP_Open (channelID f) addr (tcp h);
              (e, s1) = opened (channelID f) err s
          in (e, h\<lparr>tcp := rw\<rparr>, s1))"

definition handle_OPENUDP :: "server handler" where
  "handle_OPENUDP f h s =
     (case DecodeAddress (payload f) of
        Inl e \<Rightarrow> (Some e, h, s)
      | Inr addr \<Rightarrow>
          let (err, rw) = UDP_Open (now_ns h) (channelID f) addr (udp h);
              (e, s1) = opened (channelID f) err s
          in (e, h\<lparr>udp := rw\<rparr>, s1))"

definition handle_UDPDATA :: "server handler" where
  "handle_UDPDATA f h s =
     (case DecodeUDPDatagram (payload f) of
        Inl e \<Rightarrow> (Some e, h, s)
      | Inr dg \<Rightarrow>
          if elapsedMillis32 (of_int (unix_milli (now_ns h))) (SentMS dg) > ucast (DeadlineMS dg)
          then (None, h, s\<lparr>s_stats := AddExpiredUDP (s_stats s)\<rparr>)
          else let (e, rw) = UDP_Write (channelID f) dg (udp h) in (e, h\<lparr>udp := rw\<rparr>, s))"

definition HandleFrame :: "server handler" where
  "HandleFrame f h s =
     (if \<not> authOK h \<and> ftype f \<noteq> FrameAUTH then (Some (ErrorNew ''auth required''), h, s)
      else if ftype f = FrameAUTH then handle_AUTH f h s
      else if ftype f = FramePING then
        (let (e, s1) = QueueControl (reply FramePONG 0 []) s in (e, h, s1))
      else if ftype f = FrameOPENTCP then handle_OPENTCP f h s
      else if ftype f = FrameTCPDATA then
        (let (e, rw) = TCP_Write (channelID f) (payload f) (tcp h) in (e, h\<lparr>tcp := rw\<rparr>, s))
      else if ftype f = FrameTCPCLOSE then
        (None, h\<lparr>tcp := TCP_Close (channelID f) (tcp h)\<rparr>,
         s\<lparr>s_stats := AddActiveChannel (- 1) (s_stats s)\<rparr>)
      else if ftype f = FrameOPENUDP then handle_OPENUDP f h s
      else if ftype f = FrameUDPDATA then handle_UDPDATA f h s
      else if ftype f = FrameUDPCLOSE then
        (None, h\<lparr>udp := UDP_Close (channelID f) (udp h)\<rparr>,
         s\<lparr>s_stats := AddActiveChannel (- 1) (s_stats s)\<rparr>)
      else if ftype f = FrameSESSIONCLOSE then (Some Canceled, h, s)
      else (None, h, s))"

section \<open>The HTTP handler\<close>

text \<open>
  A request opens a session if it is a POST and the response can be streamed.  The response's
  status and, for a tunnel, the new session and its handler; \<open>handleTunnel_end\<close> is what runs
  after \<^verbatim>\<open>Run\<close> returned.
\<close>

definition new_handler ::
  "store \<Rightarrow> network \<Rightarrow> network \<Rightarrow> int \<Rightarrow> int \<Rightarrow> ((string \<rightharpoonup> token_record) \<Rightarrow> string list) \<Rightarrow> server" where
  "new_handler v tnet unet now later ord = \<lparr>authOK = False, validator = v,
     tcp = (NewTCPRelay, tnet), udp = (NewUDPRelay, unet), now_ns = now, later_ns = later,
     map_order = ord\<rparr>"

text \<open>\<^verbatim>\<open>flushWriter\<close>: every write is followed by a flush, so that \<open>flushed\<close>, what has left
  the server, is all that was written.\<close>

record flush_writer =
  fw_w :: writer
  flushed :: "byte list"

definition flushWriter_Write :: "byte list \<Rightarrow> flush_writer \<Rightarrow> (nat \<times> go_error option) \<times> flush_writer" where
  "flushWriter_Write p fw =
     (let (err, w) = write_bytes p (fw_w fw); n = length (written w) - length (written (fw_w fw))
      in ((n, err), fw\<lparr>fw_w := w, flushed := written w\<rparr>))"

lemma flushWriter_holds_nothing_back:
  assumes "flushWriter_Write p fw = ((n, err), fw2)"
  shows "flushed fw2 = written (fw_w fw2)" and "written (fw_w fw2) = written (fw_w fw) @ take n p"
    and "err = None \<Longrightarrow> n = length p"
  using assms by (auto simp: flushWriter_Write_def write_bytes_def Let_def split: option.splits if_splits)

definition handleTunnel ::
  "string \<Rightarrow> bool \<Rightarrow> reader \<Rightarrow> writer \<Rightarrow> stats \<Rightarrow> server \<Rightarrow> nat \<times> (session \<times> server) option" where
  "handleTunnel httpMethod can_flush body wr st h =
     (if httpMethod \<noteq> ''POST'' then (405, None)
      else if \<not> can_flush then (500, None)
      else (200, Some
        ((NewSession (of_int (now_ns h)) body wr st DefaultHeartbeat (now_ns h))
           \<lparr>s_stats := AddActiveSession 1 st\<rparr>, h)))"

definition handleTunnel_end :: "session \<Rightarrow> session" where
  "handleTunnel_end s = s\<lparr>s_stats := AddActiveSession (- 1) (s_stats s)\<rparr>"

section \<open>The handler meets the session's contract\<close>

lemma queues_only_QueueControl: "QueueControl f s = (e, t) \<Longrightarrow> queues_only s t"
  using QueueControl_queues_only [of s f] by simp

lemma queues_only_QueueControl_stats:
  "QueueControl f (s\<lparr>s_stats := st\<rparr>) = (e, t) \<Longrightarrow> queues_only s t"
  using queues_only_trans [OF queues_only_stats QueueControl_queues_only [of "s\<lparr>s_stats := st\<rparr>" f]]
  by simp

lemma queues_only_opened: "opened ch err s = (e, t) \<Longrightarrow> queues_only s t"
  by (auto simp: opened_def intro: queues_only_QueueControl queues_only_QueueControl_stats
      split: option.splits)

lemmas handler_defs = handle_AUTH_def handle_OPENTCP_def handle_OPENUDP_def handle_UDPDATA_def

interpretation srv: session_handler HandleFrame
proof unfold_locales
  fix f h s e h2 s2
  assume "HandleFrame f h s = (e, h2, s2)"
  then show "queues_only s s2"
    using QueueControl_queues_only
    by (auto simp: HandleFrame_def handler_defs Let_def
        intro: queues_only_QueueControl queues_only_QueueControl_stats queues_only_opened
          queues_only_trans [OF queues_only_stats]
        split: if_splits sum.splits prod.splits option.splits)
qed

lemma elapsedMillis32_diff: "elapsedMillis32 now earlier = now - earlier"
  by (simp add: elapsedMillis32_def)

section \<open>A server session at work\<close>

text \<open>
  The steps of a session and its handler: a frame from the client, a read of one of the running
  copy loops, an iteration of the write or the heartbeat loop, and what the environment does.
\<close>

datatype server_event =
    FrameIn frame
  | CopyTCP u32 nat read_result
  | ReadUDP int u32 nat read_result
  | WriteIter
  | BeatIter
  | SetClock int int
  | SetStore store
  | BreakTCP nat nat go_error
  | BreakUDP nat nat go_error
  | SetDial "string \<Rightarrow> string \<Rightarrow> go_error option"

definition break_conn :: "nat \<Rightarrow> nat \<Rightarrow> go_error \<Rightarrow> network \<Rightarrow> network" where
  "break_conn c n e w =
     w\<lparr>sockets := (sockets w)(c := map_option (\<lambda>k. k\<lparr>broken := Some (n, e)\<rparr>) (sockets w c))\<rparr>"

primrec serve_event :: "server_event \<Rightarrow> server \<times> session \<Rightarrow> server \<times> session" where
  "serve_event (FrameIn f) hs = snd (HandleFrame f (fst hs) (snd hs))"
| "serve_event (CopyTCP ch c rd) hs =
     (let (h, s) = hs in
      if (ch, c) \<in> set (tcopiers (fst (tcp h))) then
        (let (_, rw, s1) = copyRemoteToTunnel_iter ch c rd (tcp h) s in (h\<lparr>tcp := rw\<rparr>, s1))
      else hs)"
| "serve_event (ReadUDP nano ch c rd) hs =
     (let (h, s) = hs in
      if (ch, c) \<in> set (ureaders (fst (udp h))) then
        (let (_, rw, s1) = UDP_readLoop_iter nano ch c rd (udp h) s in (h\<lparr>udp := rw\<rparr>, s1))
      else hs)"
| "serve_event WriteIter hs = (fst hs, snd (writeLoop_iter SelDefault (snd hs)))"
| "serve_event BeatIter hs = (fst hs, snd (heartbeatLoop_iter SelDefault (snd hs)))"
| "serve_event (SetClock a b) hs = ((fst hs)\<lparr>now_ns := a, later_ns := b\<rparr>, snd hs)"
| "serve_event (SetStore v) hs = ((fst hs)\<lparr>validator := v\<rparr>, snd hs)"
| "serve_event (BreakTCP c n e) hs =
     ((fst hs)\<lparr>tcp := (fst (tcp (fst hs)), break_conn c n e (snd (tcp (fst hs))))\<rparr>, snd hs)"
| "serve_event (BreakUDP c n e) hs =
     ((fst hs)\<lparr>udp := (fst (udp (fst hs)), break_conn c n e (snd (udp (fst hs))))\<rparr>, snd hs)"
| "serve_event (SetDial d) hs =
     ((fst hs)\<lparr>tcp := (fst (tcp (fst hs)), (snd (tcp (fst hs)))\<lparr>dial_error := d\<rparr>),
        udp := (fst (udp (fst hs)), (snd (udp (fst hs)))\<lparr>dial_error := d\<rparr>)\<rparr>, snd hs)"

primrec serve :: "server_event list \<Rightarrow> server \<times> session \<Rightarrow> server \<times> session" where
  "serve [] hs = hs"
| "serve (ev # evs) hs = serve evs (serve_event ev hs)"

text \<open>The event is an AUTH frame that the store accepts.\<close>

definition authenticates :: "server_event \<Rightarrow> server \<Rightarrow> bool" where
  "authenticates ev h =
     (case ev of
        FrameIn f \<Rightarrow> ftype f = FrameAUTH \<and>
          (case DecodeAuthPayload (payload f) of
             Inl _ \<Rightarrow> False
           | Inr p \<Rightarrow> fst (Validate (map_order h (tokens (validator h))) (now_ns h) (later_ns h)
               (Token p) (Nonce p) (validator h)) = None)
      | _ \<Rightarrow> False)"

primrec some_auth :: "server_event list \<Rightarrow> server \<times> session \<Rightarrow> bool" where
  "some_auth [] hs = False"
| "some_auth (ev # evs) hs = (authenticates ev (fst hs) \<or> some_auth evs (serve_event ev hs))"

section \<open>The authentication gate\<close>

definition untouched :: "server \<Rightarrow> bool" where
  "untouched h \<longleftrightarrow> fst (tcp h) = NewTCPRelay \<and> fst (udp h) = NewUDPRelay
     \<and> sockets (snd (tcp h)) = Map.empty \<and> sockets (snd (udp h)) = Map.empty"

definition quiet :: "session \<Rightarrow> bool" where
  "quiet s \<longleftrightarrow> session_wf s \<and> q_list (dataQ s) = []
     \<and> ftype ` set (q_list (controlQ s)) \<subseteq> {FrameAUTHERR, FramePING}"

lemma quiet_stats [simp]: "quiet (s\<lparr>s_stats := st\<rparr>) = quiet s"
  by (simp add: quiet_def session_wf_def)

lemma quiet_seq [simp]: "quiet (s\<lparr>nextSeq := n\<rparr>) = quiet s"
  by (simp add: quiet_def session_wf_def)

lemma quiet_QueueControl:
  "quiet s \<Longrightarrow> ftype f \<in> {FrameAUTHERR, FramePING} \<Longrightarrow> quiet (snd (QueueControl f s))"
  using QueueControl_list [of s f] by (auto simp: quiet_def)

lemma quiet_New: "quiet (NewSession ident rd wr st hb now)"
  using session_wf_New by (simp add: quiet_def) (simp add: NewSession_def)

lemma untouched_break [simp]:
  "untouched h \<Longrightarrow> untouched (h\<lparr>tcp := (fst (tcp h), break_conn c n e (snd (tcp h)))\<rparr>)"
  "untouched h \<Longrightarrow> untouched (h\<lparr>udp := (fst (udp h), break_conn c n e (snd (udp h)))\<rparr>)"
  by (auto simp: untouched_def break_conn_def)

text \<open>One event before authentication: it authenticates, or leaves relays and data queue alone.\<close>

definition gate_closed :: "server \<times> session \<Rightarrow> bool" where
  "gate_closed hs \<longleftrightarrow> \<not> authOK (fst hs) \<and> untouched (fst hs) \<and> quiet (snd hs)"

lemma gate_frame:
  assumes "gate_closed (h, s)"
  shows "if authenticates (FrameIn f) h then authOK (fst (serve_event (FrameIn f) (h, s)))
    else gate_closed (serve_event (FrameIn f) (h, s))"
proof (cases "ftype f = FrameAUTH")
  case False
  then show ?thesis using assms by (simp add: authenticates_def gate_closed_def HandleFrame_def)
next
  case True
  show ?thesis
  proof (cases "DecodeAuthPayload (payload f)")
    case (Inl e)
    then show ?thesis
      using assms True by (simp add: authenticates_def gate_closed_def HandleFrame_def handle_AUTH_def)
  next
    case (Inr p)
    obtain e v where v: "Validate (map_order h (tokens (validator h))) (now_ns h) (later_ns h)
        (Token p) (Nonce p) (validator h) = (e, v)" by (metis prod.exhaust)
    show ?thesis
    proof (cases e)
      case None
      then show ?thesis
        using True Inr v
        by (simp add: authenticates_def HandleFrame_def handle_AUTH_def split_beta Let_def)
    next
      case (Some err)
      have "quiet (snd (QueueControl (reply FrameAUTHERR 0 (error_text err))
          (s\<lparr>s_stats := AddAuthFailure (s_stats s)\<rparr>)))"
        using assms by (intro quiet_QueueControl) (simp_all add: gate_closed_def reply_def)
      then show ?thesis
        using True Inr v Some assms
        by (simp add: authenticates_def HandleFrame_def handle_AUTH_def Let_def gate_closed_def
            untouched_def)
    qed
  qed
qed

lemma gate_write: "quiet s \<Longrightarrow> quiet (snd (writeLoop_iter SelDefault s))"
  using writeLoop_iter_subset [of s SelDefault] writeLoop_iter_keeps [of SelDefault s]
  by (cases "writeLoop_iter SelDefault s") (auto simp: quiet_def)

lemma gate_beat: "quiet s \<Longrightarrow> quiet (snd (heartbeatLoop_iter SelDefault s))"
  using quiet_QueueControl [of "s\<lparr>nextSeq := nextSeq s + 1\<rparr>"]
  by (simp add: heartbeatLoop_iter_def Let_def split_beta split: option.splits)

lemma gate_event:
  assumes "gate_closed hs"
  shows "if authenticates ev (fst hs) then authOK (fst (serve_event ev hs))
    else gate_closed (serve_event ev hs)"
proof (cases ev)
  case (FrameIn f)
  obtain h s where "hs = (h, s)" by (cases hs)
  then show ?thesis using gate_frame [of h s f] assms unfolding FrameIn by fastforce
next
  case WriteIter
  then show ?thesis using assms gate_write by (simp add: authenticates_def gate_closed_def)
next
  case BeatIter
  then show ?thesis using assms gate_beat by (simp add: authenticates_def gate_closed_def)
qed (use assms in \<open>auto simp: authenticates_def gate_closed_def untouched_def NewTCPRelay_def
  NewUDPRelay_def break_conn_def split_beta Let_def\<close>)

text \<open>Once authenticated, a session stays so.\<close>

lemma authOK_frame: "authOK h \<Longrightarrow> authOK (fst (snd (HandleFrame f h s)))"
  by (auto simp: HandleFrame_def handler_defs Let_def split_beta split: sum.splits option.splits)

lemma authOK_event: "authOK (fst hs) \<Longrightarrow> authOK (fst (serve_event ev hs))"
  by (cases ev) (auto simp: authOK_frame split_beta Let_def)

lemma authOK_serve: "authOK (fst hs) \<Longrightarrow> authOK (fst (serve evs hs))"
  by (induction evs arbitrary: hs) (simp_all add: authOK_event)

lemma gate_serve:
  "gate_closed hs \<Longrightarrow> if some_auth evs hs then authOK (fst (serve evs hs)) else gate_closed (serve evs hs)"
proof (induction evs arbitrary: hs)
  case (Cons ev evs)
  show ?case
  proof (cases "authenticates ev (fst hs)")
    case True
    then show ?thesis using gate_event [OF Cons.prems, of ev] authOK_serve by simp
  next
    case False
    then show ?thesis using gate_event [OF Cons.prems, of ev] Cons.IH by simp
  qed
qed simp

lemma gate_closed_new:
  "gate_closed (new_handler v (new_network d) (new_network d2) now later ord,
     NewSession ident rd wr st hb t0)"
  by (simp add: gate_closed_def new_handler_def untouched_def new_network_def quiet_New)

section \<open>The relays of a session\<close>

lemma HandleFrame_tcp:
  "tcp (fst (snd (HandleFrame f h s))) =
    (if \<not> authOK h then tcp h
     else if ftype f = FrameOPENTCP then
       (case DecodeAddress (payload f) of Inl _ \<Rightarrow> tcp h
        | Inr addr \<Rightarrow> tr.relay_step (OpOpen (channelID f) addr) (tcp h))
     else if ftype f = FrameTCPDATA then tr.relay_step (OpWrite (channelID f) (payload f)) (tcp h)
     else if ftype f = FrameTCPCLOSE then tr.relay_step (OpClose (channelID f)) (tcp h)
     else tcp h)"
  by (auto simp: HandleFrame_def handler_defs Let_def split_beta split: sum.splits option.splits)

lemma copyRemoteToTunnel_tcp:
  "fst (snd (copyRemoteToTunnel_iter ch c (buf, err) rw s)) =
    (if err = None then rw
     else ((fst (tr.relay_step (OpClose ch) rw))\<lparr>tcopiers :=
             remove1 (ch, c) (tcopiers (fst (tr.relay_step (OpClose ch) rw)))\<rparr>,
           snd (tr.relay_step (OpClose ch) rw)))"
  by (simp add: copyRemoteToTunnel_iter_def Let_def split_beta)

text \<open>The events that leave a TCP channel and its connection in place.\<close>

fun keeps_channel :: "u32 \<Rightarrow> nat \<Rightarrow> server_event \<Rightarrow> bool" where
  "keeps_channel ch c (FrameIn f) =
     (channelID f = ch \<longrightarrow> ftype f \<noteq> FrameOPENTCP \<and> ftype f \<noteq> FrameTCPCLOSE)"
| "keeps_channel ch c (CopyTCP ch2 c2 rd) = (ch2 = ch \<longrightarrow> snd rd = None)"
| "keeps_channel ch c (BreakTCP c2 n e) = (c2 \<noteq> c)"
| "keeps_channel ch c _ = True"

fun data_in :: "u32 \<Rightarrow> server_event list \<Rightarrow> byte list list" where
  "data_in ch [] = []"
| "data_in ch (FrameIn f # evs) =
     (if ftype f = FrameTCPDATA \<and> channelID f = ch then payload f # data_in ch evs else data_in ch evs)"
| "data_in ch (_ # evs) = data_in ch evs"

definition carries :: "u32 \<Rightarrow> nat \<Rightarrow> tcp_relay \<times> network \<Rightarrow> bool" where
  "carries ch c rw \<longleftrightarrow> tr.table_inv rw \<and> tcp_conn ch (fst rw) = Some c \<and> healthy c (snd rw)"

lemma carries_step:
  "carries ch c rw \<Longrightarrow> tr.leaves_open ch x \<Longrightarrow>
     carries ch c (tr.relay_step x rw)
     \<and> delivered c (snd (tr.relay_step x rw)) = delivered c (snd rw) @ tr.data_on ch [x]"
  using tr.step_delivers [of rw ch c x] tr.step_inv [of rw x] by (simp add: carries_def)

lemma carries_copiers: "carries ch c (r\<lparr>tcopiers := x\<rparr>, w) = carries ch c (r, w)"
  by (simp add: carries_def tr.table_inv_def tcp_conn_def)

lemma is_open_break [simp]: "is_open d (break_conn c n e w) = is_open d w"
  by (auto simp: is_open_def break_conn_def)

lemma carries_break:
  assumes "carries ch c (r, w)" and "c2 \<noteq> c"
  shows "carries ch c (r, break_conn c2 n e w)" and "delivered c (break_conn c2 n e w) = delivered c w"
proof -
  have "network_wf (break_conn c2 n e w) = network_wf w" "next_sock (break_conn c2 n e w) = next_sock w"
    by (auto simp: network_wf_def break_conn_def dom_def)
  moreover have "sockets (break_conn c2 n e w) c = sockets w c"
    using assms(2) by (simp add: break_conn_def)
  ultimately show "carries ch c (r, break_conn c2 n e w)"
      "delivered c (break_conn c2 n e w) = delivered c w"
    using assms(1) by (simp_all add: carries_def tr.table_inv_def healthy_def delivered_def)
qed

lemma carries_dial: "carries ch c (r, w\<lparr>dial_error := d\<rparr>) = carries ch c (r, w)"
  "delivered c (w\<lparr>dial_error := d\<rparr>) = delivered c w"
  by (simp_all add: carries_def tr.table_inv_def healthy_def delivered_def network_wf_def is_open_def)

lemma carries_frame:
  assumes "carries ch c (tcp h)" and "authOK h" and "keeps_channel ch c (FrameIn f)"
  shows "carries ch c (tcp (fst (snd (HandleFrame f h s))))
    \<and> delivered c (snd (tcp (fst (snd (HandleFrame f h s)))))
        = delivered c (snd (tcp h)) @ data_in ch [FrameIn f]"
proof -
  have "ftype f = FrameOPENTCP \<Longrightarrow> ftype f \<noteq> FrameTCPDATA" by simp
  then show ?thesis
    unfolding HandleFrame_tcp
    using assms carries_step [OF assms(1), of "OpOpen (channelID f) addr" for addr]
      carries_step [OF assms(1), of "OpClose (channelID f)"]
      carries_step [OF assms(1), of "OpWrite (channelID f) (payload f)"]
    by (cases "DecodeAddress (payload f)") (simp_all del: tr.relay_step.simps)
qed

lemma carries_copy:
  assumes "carries ch c (tcp h)" and "keeps_channel ch c (CopyTCP ch2 c2 rd)"
  shows "carries ch c (tcp (fst (serve_event (CopyTCP ch2 c2 rd) (h, s))))
    \<and> delivered c (snd (tcp (fst (serve_event (CopyTCP ch2 c2 rd) (h, s))))) = delivered c (snd (tcp h))"
proof -
  obtain buf err where rd: "rd = (buf, err)" by (cases rd)
  have "carries ch c (fst (snd (copyRemoteToTunnel_iter ch2 c2 (buf, err) (tcp h) s)))
    \<and> delivered c (snd (fst (snd (copyRemoteToTunnel_iter ch2 c2 (buf, err) (tcp h) s))))
        = delivered c (snd (tcp h))"
    unfolding copyRemoteToTunnel_tcp carries_copiers
    using assms rd carries_step [OF assms(1), of "OpClose ch2"]
    by (auto simp: carries_copiers simp del: tr.relay_step.simps)
  then show ?thesis using assms(1) by (simp add: rd split_beta Let_def)
qed

lemma carries_event:
  assumes "carries ch c (tcp (fst hs))" and "authOK (fst hs)" and "keeps_channel ch c ev"
  shows "carries ch c (tcp (fst (serve_event ev hs)))
    \<and> delivered c (snd (tcp (fst (serve_event ev hs)))) = delivered c (snd (tcp (fst hs))) @ data_in ch [ev]"
proof (cases ev)
  case (FrameIn f)
  then show ?thesis using carries_frame [OF assms(1,2)] assms(3) by simp
next
  case (CopyTCP ch2 c2 rd)
  then show ?thesis
    using carries_copy [OF assms(1), of ch2 c2 rd "snd hs"] assms(3)
    by (simp del: serve_event.simps)
next
  case (BreakTCP c2 n e)
  then show ?thesis
    using carries_break [of ch c "fst (tcp (fst hs))" "snd (tcp (fst hs))" c2 n e] assms by simp
next
  case (SetDial d)
  then show ?thesis
    using carries_dial(1) [of ch c "fst (tcp (fst hs))" d "snd (tcp (fst hs))"]
      carries_dial(2) [of c d "snd (tcp (fst hs))"] assms by simp
qed (use assms in \<open>simp_all add: split_beta Let_def\<close>)

lemma data_in_Cons: "data_in ch (ev # evs) = data_in ch [ev] @ data_in ch evs"
  by (cases ev) simp_all

lemma carries_serve:
  "carries ch c (tcp (fst hs)) \<Longrightarrow> authOK (fst hs) \<Longrightarrow> \<forall>ev \<in> set evs. keeps_channel ch c ev \<Longrightarrow>
     carries ch c (tcp (fst (serve evs hs)))
     \<and> delivered c (snd (tcp (fst (serve evs hs)))) = delivered c (snd (tcp (fst hs))) @ data_in ch evs"
proof (induction evs arbitrary: hs)
  case (Cons ev evs)
  then show ?case
    using carries_event [of ch c hs ev] authOK_event [of hs ev] data_in_Cons [of ch ev evs] by simp
qed simp

lemma tcp_inv_copiers: "tr.table_inv (r\<lparr>tcopiers := x\<rparr>, w) = tr.table_inv (r, w)"
  by (simp add: tr.table_inv_def tcp_conn_def)

lemma tcp_inv_event:
  assumes "tr.table_inv (tcp (fst hs))"
  shows "tr.table_inv (tcp (fst (serve_event ev hs)))"
proof (cases ev)
  case (FrameIn f)
  then show ?thesis
    using assms tr.step_inv [OF assms]
    by (simp add: HandleFrame_tcp split: sum.splits del: tr.relay_step.simps)
next
  case (CopyTCP ch c rd)
  have "tr.table_inv (fst (snd (copyRemoteToTunnel_iter ch c (fst rd, snd rd) (tcp (fst hs)) (snd hs))))"
    unfolding copyRemoteToTunnel_tcp tcp_inv_copiers
    using assms tr.step_inv [OF assms, of "OpClose ch"]
    by (simp add: tcp_inv_copiers del: tr.relay_step.simps)
  then show ?thesis using CopyTCP assms by (simp add: split_beta Let_def)
next
  case (BreakTCP c n e)
  have "network_wf (break_conn c n e w) = network_wf w" "next_sock (break_conn c n e w) = next_sock w" for w
    by (auto simp: network_wf_def break_conn_def dom_def)
  then show ?thesis using assms BreakTCP by (simp add: tr.table_inv_def)
next
  case (SetDial d)
  then show ?thesis using assms by (simp add: tr.table_inv_def network_wf_def is_open_def)
qed (use assms in \<open>simp_all add: split_beta Let_def\<close>)

lemma tcp_inv_serve: "tr.table_inv (tcp (fst hs)) \<Longrightarrow> tr.table_inv (tcp (fst (serve evs hs)))"
  by (induction evs arbitrary: hs) (simp_all add: tcp_inv_event)

section \<open>Everything queued can be written\<close>

text \<open>
  The text of a dial error is the payload of OPENERR and may not exceed a frame; the operating
  system's error texts quote the address that was dialled.
\<close>

definition short_errors :: "(string \<Rightarrow> string \<Rightarrow> go_error option) \<Rightarrow> bool" where
  "short_errors d \<longleftrightarrow> (\<forall>p a e. d p a = Some e \<longrightarrow> length (error_text e) \<le> MaxPayloadLen)"

fun event_fine :: "server_event \<Rightarrow> bool" where
  "event_fine (CopyTCP ch c rd) = read_ok 16384 rd"
| "event_fine (ReadUDP nano ch c rd) = read_ok MaxLocalUDPDatagram rd"
| "event_fine (SetDial d) = short_errors d"
| "event_fine _ = True"

definition dials_short :: "server \<Rightarrow> bool" where
  "dials_short h \<longleftrightarrow> short_errors (dial_error (snd (tcp h))) \<and> short_errors (dial_error (snd (udp h)))"

lemma ready_stats [simp]: "ready (s\<lparr>s_stats := st\<rparr>) = ready s"
  by (simp add: ready_def session_wf_def all_class)

lemma ready_control: "ready s \<Longrightarrow> transmittable f \<Longrightarrow> ready (snd (QueueControl f s))"
  using queue_effect [of s Control f] by (simp add: event_effect_def)

lemma ready_data: "ready s \<Longrightarrow> transmittable f \<Longrightarrow> ready (snd (QueueData f s))"
  using queue_effect [of s frame_class.Data f] by (simp add: event_effect_def)

lemma transmittable_data_frame:
  "KnownFrameType ty \<Longrightarrow> length p \<le> 16384 \<Longrightarrow> transmittable (data_frame ty ch p)"
  by (simp add: transmittable_def encodable_def data_frame_def zero_frame_def)

lemma transmittable_reply:
  "KnownFrameType ty \<Longrightarrow> length txt \<le> 16384 \<Longrightarrow> transmittable (reply ty ch txt)"
  by (simp add: transmittable_def encodable_def reply_def zero_frame_def)

lemma KnownFrameType_values [simp]:
  "KnownFrameType 0x02" "KnownFrameType 0x03" "KnownFrameType 0x12" "KnownFrameType 0x21"
  "KnownFrameType 0x22" "KnownFrameType 0x23" "KnownFrameType 0x24" "KnownFrameType 0x31"
  "KnownFrameType 0x32"
  by (simp_all add: KnownFrameType_def)

lemma Validate_short:
  "fst (Validate ks now now2 t n v) = Some e \<Longrightarrow> length (error_text e) \<le> 16384"
  by (auto simp: Validate_def Let_def split: option.splits if_splits)

lemma ready_opened:
  assumes "ready s" and "\<And>e. err = Some e \<Longrightarrow> length (error_text e) \<le> 16384"
  shows "ready (snd (opened ch err s))"
  using assms by (cases err) (simp_all add: opened_def ready_control transmittable_reply)

lemma ready_AUTH: "ready s \<Longrightarrow> ready (snd (snd (handle_AUTH f h s)))"
  by (auto simp: handle_AUTH_def Let_def split_beta intro!: ready_control transmittable_reply
      dest: Validate_short split: sum.splits option.splits prod.splits)

lemma TCP_Open_error: "fst (TCP_Open ch addr rw) = dial_error (snd rw) ''tcp'' addr"
  using tr.open_law [of ch addr "fst rw" "snd rw"] by (cases "TCP_Open ch addr rw") auto

lemma UDP_Open_error: "fst (UDP_Open now ch addr rw) = dial_error (snd rw) ''udp'' addr"
  using ur.open_law [of ch "(now, addr)" "fst rw" "snd rw"]
  by (cases "UDP_Open now ch addr rw") (auto simp: UDP_Open_at_def)

lemma ready_OPENTCP:
  assumes "ready s" and "dials_short h"
  shows "ready (snd (snd (handle_OPENTCP f h s)))"
proof (cases "DecodeAddress (payload f)")
  case (Inr addr)
  have "ready (snd (opened (channelID f) (fst (TCP_Open (channelID f) addr (tcp h))) s))"
    using assms by (intro ready_opened) (auto simp: TCP_Open_error dials_short_def short_errors_def)
  with Inr show ?thesis by (simp add: handle_OPENTCP_def split_beta Let_def)
qed (use assms in \<open>simp add: handle_OPENTCP_def\<close>)

lemma ready_OPENUDP:
  assumes "ready s" and "dials_short h"
  shows "ready (snd (snd (handle_OPENUDP f h s)))"
proof (cases "DecodeAddress (payload f)")
  case (Inr addr)
  have "ready (snd (opened (channelID f) (fst (UDP_Open (now_ns h) (channelID f) addr (udp h))) s))"
    using assms by (intro ready_opened) (auto simp: UDP_Open_error dials_short_def short_errors_def)
  with Inr show ?thesis by (simp add: handle_OPENUDP_def split_beta Let_def)
qed (use assms in \<open>simp add: handle_OPENUDP_def\<close>)

lemma ready_UDPDATA: "ready s \<Longrightarrow> ready (snd (snd (handle_UDPDATA f h s)))"
  by (simp add: handle_UDPDATA_def split_beta Let_def split: sum.splits)

lemma ready_frame: "ready s \<Longrightarrow> dials_short h \<Longrightarrow> ready (snd (snd (HandleFrame f h s)))"
  using ready_AUTH ready_OPENTCP ready_OPENUDP ready_UDPDATA
  by (simp add: HandleFrame_def split_beta Let_def ready_control transmittable_reply)

lemma ready_copy:
  assumes "ready s" and "read_ok 16384 rd"
  shows "ready (snd (snd (copyRemoteToTunnel_iter ch c rd rw s)))"
  using assms
  by (cases rd)
    (simp add: copyRemoteToTunnel_iter_def split_beta Let_def read_ok_def ready_control ready_data
      transmittable_data_frame)

lemma ready_udp_frags:
  assumes "ready s" and "\<forall>d \<in> set frags. length (EncodeUDPDatagram d) \<le> 16384"
  shows "ready (fold (\<lambda>frag s. snd (QueueData (data_frame FrameUDPDATA ch (EncodeUDPDatagram frag)) s)) frags s)"
  using assms
proof (induction frags arbitrary: s)
  case (Cons d frags)
  then have "ready (snd (QueueData (data_frame FrameUDPDATA ch (EncodeUDPDatagram d)) s))"
    by (intro ready_data transmittable_data_frame) simp_all
  with Cons show ?case by simp
qed simp

lemma frags_fit:
  assumes "FragmentUDP buf ident dl = Inr frags" and "d \<in> set frags"
  shows "length (EncodeUDPDatagram d) \<le> 16384"
proof (cases "buf = []")
  case True
  with assms show ?thesis by (auto simp: FragmentUDP_def zero_datagram_def)
next
  case False
  then have "frags = map (frag_at buf ident dl) [0..<frag_count buf]"
    using assms(1) by (simp add: FragmentUDP_eq)
  then show ?thesis using length_udp_chunk [of buf] assms(2) by auto
qed

lemma ready_udp_read:
  assumes "ready s"
  shows "ready (snd (snd (UDP_readLoop_iter nano ch c rd rw s)))"
proof -
  obtain buf err where rd: "rd = (buf, err)" by (cases rd)
  have "ready (case FragmentUDP buf (of_int nano) 1000 of Inl _ \<Rightarrow> s
      | Inr frags \<Rightarrow> fold (\<lambda>frag s. snd (QueueData (data_frame FrameUDPDATA ch (EncodeUDPDatagram frag)) s)) frags s)"
    using assms ready_udp_frags [OF assms] frags_fit [of buf "of_int nano" 1000]
    by (auto split: sum.split)
  then show ?thesis
    using assms
    by (simp add: rd UDP_readLoop_iter_def split_beta Let_def ready_control transmittable_data_frame)
qed

lemma ready_beat: "ready s \<Longrightarrow> ready (snd (heartbeatLoop_iter SelDefault s))"
  using beat_effect [of s] by (simp add: event_effect_def)

lemma ready_write: "ready s \<Longrightarrow> ready (snd (writeLoop_iter SelDefault s))"
  using write_effect [of s] by (simp add: event_effect_def)

lemma dials_tcp [simp]:
  "dial_error (snd (snd (TCP_Open ch a rw))) = dial_error (snd rw)"
  "dial_error (snd (TCP_Close ch rw)) = dial_error (snd rw)"
  "dial_error (snd (snd (TCP_Write ch d rw))) = dial_error (snd rw)"
  by (auto simp: TCP_Open_def TCP_Close_def TCP_Write_def dial_def Let_def split_beta split: option.splits)

lemma dials_udp [simp]:
  "dial_error (snd (snd (UDP_Open now ch a rw))) = dial_error (snd rw)"
  "dial_error (snd (UDP_Close ch rw)) = dial_error (snd rw)"
  "dial_error (snd (snd (UDP_Write ch dg rw))) = dial_error (snd rw)"
  by (auto simp: UDP_Open_def UDP_Close_def UDP_Write_def dial_def Let_def split_beta split: option.splits)

lemma dials_short_frame [simp]: "dials_short (fst (snd (HandleFrame f h s))) = dials_short h"
  by (auto simp: HandleFrame_def handler_defs dials_short_def Let_def split_beta
      split: sum.splits option.splits)

lemma dials_short_event: "dials_short (fst hs) \<Longrightarrow> event_fine ev \<Longrightarrow> dials_short (fst (serve_event ev hs))"
proof (cases ev)
  case (CopyTCP ch c rd)
  assume "dials_short (fst hs)"
  then show ?thesis
    using CopyTCP by (cases rd) (simp add: split_beta Let_def copyRemoteToTunnel_tcp dials_short_def)
next
  case (ReadUDP nano ch c rd)
  assume "dials_short (fst hs)"
  then show ?thesis
    using ReadUDP by (cases rd) (simp add: split_beta Let_def UDP_readLoop_iter_def dials_short_def)
next
  case (FrameIn f)
  assume "dials_short (fst hs)"
  then show ?thesis using FrameIn by simp
qed (auto simp: dials_short_def break_conn_def)

lemma ready_event:
  "ready (snd hs) \<Longrightarrow> dials_short (fst hs) \<Longrightarrow> event_fine ev \<Longrightarrow> ready (snd (serve_event ev hs))"
  by (cases ev)
    (simp_all add: ready_frame ready_copy ready_udp_read ready_beat ready_write split_beta Let_def)

lemma ready_serve:
  "ready (snd hs) \<Longrightarrow> dials_short (fst hs) \<Longrightarrow> \<forall>ev \<in> set evs. event_fine ev \<Longrightarrow>
     ready (snd (serve evs hs)) \<and> dials_short (fst (serve evs hs))"
  by (induction evs arbitrary: hs) (simp_all add: ready_event dials_short_event)

section \<open>Properties of the server\<close>

text \<open>C12. The authentication gate: a session is authenticated exactly when an AUTH frame with a
  token and nonce that the store accepts has been handled; until then, whatever the client sends,
  no connection has been dialled, both relays are as new, no data frame is queued and the only
  frames queued are AUTHERR and heartbeats.\<close>

theorem auth_gate:
  assumes "hs0 = (new_handler v (new_network d) (new_network d2) now later ord,
      NewSession ident rd wr st hb t0)"
    and "(h, s) = serve evs hs0"
  shows "authOK h = some_auth evs hs0
    \<and> (\<not> authOK h \<longrightarrow> sockets (snd (tcp h)) = Map.empty \<and> sockets (snd (udp h)) = Map.empty
        \<and> fst (tcp h) = NewTCPRelay \<and> fst (udp h) = NewUDPRelay \<and> q_list (dataQ s) = []
        \<and> ftype ` set (q_list (controlQ s)) \<subseteq> {FrameAUTHERR, FramePING})"
proof -
  have "gate_closed hs0" using assms(1) gate_closed_new by simp
  from gate_serve [OF this, of evs] show ?thesis
    unfolding assms(2) [symmetric]
    by (cases "some_auth evs hs0") (auto simp: gate_closed_def untouched_def quiet_def)
qed



definition demo_server :: server where
  "demo_server = new_handler demo_store (new_network (\<lambda>_ _. None)) (new_network (\<lambda>_ _. None)) 10 10
     (\<lambda>_. [''id1''])"

definition demo_auth :: frame where
  "demo_auth = zero_frame\<lparr>ftype := FrameAUTH,
     payload := EncodeAuthPayload \<lparr>Token = ''tok'', Nonce = replicate 12 1\<rparr>\<rparr>"

lemma demo_auth_ok: "authenticates (FrameIn demo_auth) demo_server"
  using DecodeAuth_Encode [of "\<lparr>Token = ''tok'', Nonce = replicate 12 1\<rparr>" "[]"]
  by (simp add: authenticates_def demo_auth_def zero_frame_def demo_server_def new_handler_def demo_defs)

theorem auth_gate_witness:
  "let open_frame = zero_frame\<lparr>ftype := FrameOPENTCP, payload := EncodeAddress ''a:1''\<rparr>
   in authOK (fst (serve [FrameIn demo_auth] (demo_server, demo_session)))
      \<and> \<not> authOK (fst (serve [FrameIn open_frame] (demo_server, demo_session)))
      \<and> sockets (snd (tcp (fst (serve [FrameIn open_frame] (demo_server, demo_session))))) = Map.empty"
proof -
  let ?o = "zero_frame\<lparr>ftype := FrameOPENTCP, payload := EncodeAddress ''a:1''\<rparr>"
  have hs: "(demo_server, demo_session) = (new_handler demo_store (new_network (\<lambda>_ _. None))
      (new_network (\<lambda>_ _. None)) 10 10 (\<lambda>_. [''id1'']),
      NewSession 7 \<lparr>avail = [], end_err = EOF\<rparr> \<lparr>written = [], room = None, write_err = EOF\<rparr> (NewStats 0) 0 0)"
    by (simp add: demo_server_def demo_session_def)
  have "some_auth [FrameIn demo_auth] (demo_server, demo_session)" using demo_auth_ok by simp
  moreover have "\<not> some_auth [FrameIn ?o] (demo_server, demo_session)"
    by (simp add: authenticates_def zero_frame_def)
  ultimately show ?thesis
    using auth_gate [OF hs, of "fst (serve [FrameIn demo_auth] (demo_server, demo_session))"
        "snd (serve [FrameIn demo_auth] (demo_server, demo_session))" "[FrameIn demo_auth]"]
      auth_gate [OF hs, of "fst (serve [FrameIn ?o] (demo_server, demo_session))"
        "snd (serve [FrameIn ?o] (demo_server, demo_session))" "[FrameIn ?o]"]
    unfolding Let_def by simp
qed

text \<open>A tunnelled TCP stream reaches its destination intact: from any state of an authenticated
  session, after a successful OPENTCP the connection dialled for it receives exactly the payloads of
  the TCPDATA frames of its channel, in order, whatever else happens in the session, as long as the
  channel is not opened again or closed from either side and its connection does not break.\<close>

theorem tunnel_tcp_delivery:
  assumes "hs0 = (new_handler v (new_network d) (new_network d2) now later ord, s0)"
    and "hs1 = serve evs0 hs0" and "authOK (fst hs1)"
    and "ftype f = FrameOPENTCP" and "DecodeAddress (payload f) = Inr addr"
    and "dial_error (snd (tcp (fst hs1))) ''tcp'' addr = None"
    and "c = next_sock (snd (tcp (fst hs1)))"
    and "\<forall>ev \<in> set evs. keeps_channel (channelID f) c ev"
  shows "tcp_conn (channelID f) (fst (tcp (fst (serve (FrameIn f # evs) hs1)))) = Some c
    \<and> delivered c (snd (tcp (fst (serve (FrameIn f # evs) hs1)))) = data_in (channelID f) evs"
proof -
  let ?ch = "channelID f" and ?hs2 = "serve_event (FrameIn f) hs1"
  have "tr.table_inv (tcp (fst hs0))"
    by (simp add: assms(1) new_handler_def tcp_table_inv_new)
  then have inv: "tr.table_inv (tcp (fst hs1))" unfolding assms(2) by (rule tcp_inv_serve)
  obtain r w where rw: "tcp (fst hs1) = (r, w)" by (cases "tcp (fst hs1)")
  obtain e r2 w2 where o: "TCP_Open ?ch addr (r, w) = (e, r2, w2)" by (metis prod_cases3)
  have t2: "tcp (fst ?hs2) = (r2, w2)"
    using assms(3-5) rw o by (simp add: HandleFrame_tcp)
  have "tr.table_inv (r2, w2)" using tcp_inv_event [OF inv, of "FrameIn f"] t2 by simp
  then have "carries ?ch c (tcp (fst ?hs2))" "delivered c (snd (tcp (fst ?hs2))) = []"
    using tr.open_law [OF o, of ?ch] dial_ok [of w "''tcp''" addr] assms(6,7) rw t2
    by (simp_all add: carries_def)
  moreover have "authOK (fst ?hs2)" using assms(3) authOK_event by blast
  ultimately show ?thesis
    using carries_serve [of ?ch c ?hs2 evs] assms(8) by (simp add: carries_def)
qed

theorem tunnel_tcp_delivery_witness:
  "let f = zero_frame\<lparr>ftype := FrameOPENTCP, channelID := 2, payload := EncodeAddress ''a:1''\<rparr>;
       data = (\<lambda>ch p. FrameIn (data_frame FrameTCPDATA ch p))
   in delivered 0 (snd (tcp (fst (serve [FrameIn f, data 2 [1, 2], data 3 [7], WriteIter, data 2 [3]]
        (serve [FrameIn demo_auth] (demo_server, demo_session)))))) = [[1, 2], [3]]"
proof -
  let ?f = "zero_frame\<lparr>ftype := FrameOPENTCP, channelID := 2, payload := EncodeAddress ''a:1''\<rparr>"
  let ?hs1 = "serve [FrameIn demo_auth] (demo_server, demo_session)"
  let ?evs = "[FrameIn (data_frame FrameTCPDATA 2 [1, 2]), FrameIn (data_frame FrameTCPDATA 3 [7]),
      WriteIter, FrameIn (data_frame FrameTCPDATA 2 [3])]"
  have hs0: "(demo_server, demo_session) = (new_handler demo_store (new_network (\<lambda>_ _. None))
      (new_network (\<lambda>_ _. None)) 10 10 (\<lambda>_. [''id1'']), demo_session)"
    by (simp add: demo_server_def)
  have "gate_closed (demo_server, demo_session)"
    unfolding demo_server_def demo_session_def by (rule gate_closed_new)
  from gate_event [OF this, of "FrameIn demo_auth"] have ok: "authOK (fst ?hs1)"
    using demo_auth_ok by simp
  have t: "tcp (fst ?hs1) = (NewTCPRelay, new_network (\<lambda>_ _. None))"
    by (simp add: HandleFrame_tcp demo_server_def new_handler_def)
  have hyp: "ftype ?f = FrameOPENTCP" "DecodeAddress (payload ?f) = Inr ''a:1''"
    "dial_error (snd (tcp (fst ?hs1))) ''tcp'' ''a:1'' = None" "0 = next_sock (snd (tcp (fst ?hs1)))"
    using t DecodeAddress_Encode [of "''a:1''" "[]"] by (simp_all add: new_network_def)
  have "\<forall>ev \<in> set ?evs. keeps_channel (channelID ?f) 0 ev"
    by (simp add: data_frame_def zero_frame_def)
  from tunnel_tcp_delivery [OF hs0 refl ok hyp this] show ?thesis
    by (simp add: data_frame_def zero_frame_def del: serve.simps)
qed


text \<open>Nothing the server queues stalls its writer: with reads that respect their buffers and dial
  errors whose text fits a frame, in any run of a new session on a connection that accepts writes,
  every queued frame is one the codec writes and the peer can read, so an iteration of the write
  loop never fails.\<close>

theorem server_writer_never_fails:
  assumes "hs0 = (new_handler v (new_network d) (new_network d2) now later ord,
      NewSession ident rd wr st hb t0)"
    and "room wr = None" and "short_errors d" and "short_errors d2"
    and "\<forall>ev \<in> set evs. event_fine ev" and "(h, s) = serve evs hs0"
  shows "(\<forall>g \<in> set (q_list (controlQ s)) \<union> set (q_list (dataQ s)). transmittable g)
    \<and> fst (writeLoop_iter SelDefault s) = Continue"
proof -
  have "ready (snd hs0)" "dials_short (fst hs0)"
    using assms(1-4) by (simp_all add: ready_New dials_short_def new_handler_def new_network_def)
  then have "ready s" using ready_serve [of hs0 evs] assms(5,6) by (metis snd_conv)
  then show ?thesis using write_effect [of s] by (auto simp: ready_def all_class)
qed

theorem server_writer_never_fails_witness:
  "let (h, s) = serve [FrameIn (zero_frame\<lparr>ftype := FrameTCPDATA\<rparr>), BeatIter] (demo_server, demo_session)
   in fst (writeLoop_iter SelDefault s) = Continue"
proof -
  let ?evs = "[FrameIn (zero_frame\<lparr>ftype := FrameTCPDATA\<rparr>), BeatIter]"
  have hs: "(demo_server, demo_session) = (new_handler demo_store (new_network (\<lambda>_ _. None))
      (new_network (\<lambda>_ _. None)) 10 10 (\<lambda>_. [''id1'']),
      NewSession 7 \<lparr>avail = [], end_err = EOF\<rparr> \<lparr>written = [], room = None, write_err = EOF\<rparr> (NewStats 0) 0 0)"
    by (simp add: demo_server_def demo_session_def)
  obtain h s where r: "serve ?evs (demo_server, demo_session) = (h, s)" by (metis prod.exhaust)
  have "\<forall>ev \<in> set ?evs. event_fine ev" by simp
  from server_writer_never_fails [OF hs _ _ _ this r [symmetric]] show ?thesis
    unfolding r by (simp add: short_errors_def)
qed

text \<open>Opening a channel is answered: on an authenticated session a well-formed OPENTCP or OPENUDP
  queues exactly one reply for its channel, OPENOK if the dial succeeds, when the channel is
  counted and registered with the new connection, and OPENERR with the text of the error if it
  fails, when neither relay nor count changes; only a full control queue makes it an error of the
  session.\<close>

theorem open_is_answered:
  assumes "authOK h" and "session_wf s" and "DecodeAddress (payload f) = Inr addr"
    and "(ftype f = FrameOPENTCP \<and> e = dial_error (snd (tcp h)) ''tcp'' addr)
      \<or> (ftype f = FrameOPENUDP \<and> e = dial_error (snd (udp h)) ''udp'' addr)"
    and "g = (case e of None \<Rightarrow> reply FrameOPENOK (channelID f) []
        | Some err \<Rightarrow> reply FrameOPENERR (channelID f) (error_text err))"
    and "HandleFrame f h s = (r, h2, s2)"
  shows "r = (if control_room s g then None else Some ErrQueueFull)
    \<and> q_list (controlQ s2) = q_list (controlQ s) @ (if control_room s g then [g] else [])
    \<and> dataQ s2 = dataQ s
    \<and> activeChannels (s_stats s2) = activeChannels (s_stats s) + (if e = None then 1 else 0)
    \<and> (ftype f = FrameOPENTCP \<longrightarrow> tcp_conn (channelID f) (fst (tcp h2))
          = (if e = None then Some (next_sock (snd (tcp h))) else tcp_conn (channelID f) (fst (tcp h))))
    \<and> (ftype f = FrameOPENUDP \<longrightarrow> udp_conn (channelID f) (fst (udp h2))
          = (if e = None then Some (next_sock (snd (udp h))) else udp_conn (channelID f) (fst (udp h))))"
proof -
  have op: "(r, s2) = opened (channelID f) e s"
    and tcp: "ftype f = FrameOPENTCP \<longrightarrow> (e, tcp h2) = TCP_Open (channelID f) addr (tcp h)"
    and udp: "ftype f = FrameOPENUDP \<longrightarrow> (e, udp h2) = UDP_Open (now_ns h) (channelID f) addr (udp h)"
    using assms(1,3,4,6) TCP_Open_error [of "channelID f" addr "tcp h"]
      UDP_Open_error [of "now_ns h" "channelID f" addr "udp h"]
    by (auto simp: HandleFrame_def handle_OPENTCP_def handle_OPENUDP_def split_beta Let_def prod_eq_iff)
  define s1 where "s1 = (if e = None then s\<lparr>s_stats := AddActiveChannel 1 (s_stats s)\<rparr> else s)"
  have s1: "session_wf s1" "controlQ s1 = controlQ s" "dataQ s1 = dataQ s"
    "activeChannels (s_stats s1) = activeChannels (s_stats s) + (if e = None then 1 else 0)"
    using assms(2) by (simp_all add: s1_def session_wf_def AddActiveChannel_def)
  have "(r, s2) = QueueControl g s1"
    using op assms(5) by (cases e) (simp_all add: opened_def s1_def)
  then have q: "r = fst (QueueControl g s1)" "s2 = snd (QueueControl g s1)" by (metis fst_conv, metis snd_conv)
  have "activeChannels (s_stats s2) = activeChannels (s_stats s1)"
    by (simp add: q QueueControl_def split_beta Let_def record_queue_bytes_def SetSessionQueueBytes_def)
  moreover have "control_room s1 g = control_room s g" by (simp add: control_room_def s1)
  moreover have "ftype f = FrameOPENTCP \<longrightarrow> tcp_conn (channelID f) (fst (tcp h2))
          = (if e = None then Some (next_sock (snd (tcp h))) else tcp_conn (channelID f) (fst (tcp h)))"
    using tcp tr.open_law [of "channelID f" addr "fst (tcp h)" "snd (tcp h)" e "fst (tcp h2)" "snd (tcp h2)"]
    by (simp add: eq_commute)
  moreover have "ftype f = FrameOPENUDP \<longrightarrow> udp_conn (channelID f) (fst (udp h2))
          = (if e = None then Some (next_sock (snd (udp h))) else udp_conn (channelID f) (fst (udp h)))"
    using udp ur.open_law [of "channelID f" "(now_ns h, addr)" "fst (udp h)" "snd (udp h)" e
        "fst (udp h2)" "snd (udp h2)"]
    by (simp add: UDP_Open_at_def eq_commute)
  ultimately show ?thesis
    using QueueControl_list [OF s1(1), of g] s1 q by simp
qed

theorem open_is_answered_witness:
  "let f = zero_frame\<lparr>ftype := FrameOPENTCP, channelID := 2, payload := EncodeAddress ''a:1''\<rparr>;
       h = demo_server\<lparr>authOK := True\<rparr>
   in q_list (controlQ (snd (snd (HandleFrame f h demo_session)))) = [reply FrameOPENOK 2 []]
      \<and> tcp_conn 2 (fst (tcp (fst (snd (HandleFrame f h demo_session))))) = Some 0"
proof -
  let ?f = "zero_frame\<lparr>ftype := FrameOPENTCP, channelID := 2, payload := EncodeAddress ''a:1''\<rparr>"
  let ?h = "demo_server\<lparr>authOK := True\<rparr>"
  have wf: "session_wf demo_session" and e: "q_list (controlQ demo_session) = []"
    using session_wf_New by (simp_all add: demo_session_def New_simps(1) [of Control, simplified])
  have d: "DecodeAddress (payload ?f) = Inr ''a:1''"
    using DecodeAddress_Encode [of "''a:1''" "[]"] by simp
  have n: "dial_error (snd (tcp ?h)) ''tcp'' ''a:1'' = None" "next_sock (snd (tcp ?h)) = 0"
    by (simp_all add: demo_server_def new_handler_def new_network_def)
  obtain r h2 s2 where run: "HandleFrame ?f ?h demo_session = (r, h2, s2)" by (metis prod_cases3)
  have "authOK ?h" by simp
  from open_is_answered [OF this wf d _ refl run, of None] n e show ?thesis
    unfolding Let_def run by (simp add: control_room_def reply_def)
qed

text \<open>C39. Late data kills the session: a TCPDATA or decodable UDPDATA frame for a channel that is not
  registered (any more) ends the read loop, and so the session with every other channel, with the
  error \<^verbatim>\<open>io.EOF\<close>, which \<^verbatim>\<open>IsGraceful\<close> takes for an orderly end.\<close>

theorem late_data_ends_session:
  assumes "authOK h" and "Decode (s_reader s) = (Inr f, rest)"
    and "(ftype f = FrameTCPDATA \<and> tcp_conn (channelID f) (fst (tcp h)) = None)
      \<or> (ftype f = FrameUDPDATA \<and> udp_conn (channelID f) (fst (udp h)) = None
          \<and> DecodeUDPDatagram (payload f) = Inr dg
          \<and> elapsedMillis32 (of_int (unix_milli (now_ns h))) (SentMS dg) \<le> ucast (DeadlineMS dg))"
  shows "fst (readLoop_iter HandleFrame SelDefault t h s) = Return (Some EOF) \<and> IsGraceful (Some EOF)"
proof -
  have "fst (HandleFrame f h s1) = Some EOF" for s1
  proof (cases "ftype f = FrameTCPDATA")
    case True
    then have "tconns (fst (tcp h)) (channelID f) = None" using assms(3) by (simp add: tcp_conn_def)
    then show ?thesis using assms(1) True by (simp add: HandleFrame_def TCP_Write_def split_beta)
  next
    case False
    then have u: "ftype f = FrameUDPDATA" "assocs (fst (udp h)) (channelID f) = None"
      "DecodeUDPDatagram (payload f) = Inr dg"
      "\<not> elapsedMillis32 (of_int (unix_milli (now_ns h))) (SentMS dg) > ucast (DeadlineMS dg)"
      using assms(3) by (auto simp: udp_conn_def)
    then show ?thesis
      using assms(1) by (simp add: HandleFrame_def handle_UDPDATA_def UDP_Write_def split_beta)
  qed
  then have "\<exists>h2 s2. HandleFrame f h s1 = (Some EOF, h2, s2)" for s1 by (metis prod.collapse)
  then show ?thesis
    using assms(2) by (auto simp: readLoop_iter_def IsGraceful_def Let_def split: prod.splits option.splits)
      (metis option.distinct(1) option.inject prod.inject)+
qed


theorem late_data_ends_session_witness:
  "let f = frame_defaults (data_frame FrameTCPDATA 9 [1]);
       s = demo_session\<lparr>s_reader := \<lparr>avail = frame_wire f, end_err = EOF\<rparr>\<rparr>
   in fst (readLoop_iter HandleFrame SelDefault 0 (demo_server\<lparr>authOK := True\<rparr>) s) = Return (Some EOF)"
proof -
  let ?f = "frame_defaults (data_frame FrameTCPDATA 9 [1])"
  let ?s = "demo_session\<lparr>s_reader := \<lparr>avail = frame_wire ?f, end_err = EOF\<rparr>\<rparr>"
  have "transmittable ?f"
    by (simp add: transmittable_def encodable_def data_frame_def zero_frame_def frame_defaults_def
        KnownFrameType_def Let_def)
  then have d: "Decode (s_reader ?s) = (Inr ?f, \<lparr>avail = [], end_err = EOF\<rparr>)"
    using Decode_wire [of ?f "s_reader ?s" "[]"] by simp
  have "authOK (demo_server\<lparr>authOK := True\<rparr>)" by simp
  from late_data_ends_session [OF this d] show ?thesis
    by (simp add: data_frame_def zero_frame_def tcp_conn_def demo_server_def new_handler_def NewTCPRelay_def)
qed

text \<open>C23. The deadline of UDP datagrams: for clocks that differ by less than 24 days, also across the
  32-bit wrap of the milliseconds, a datagram is delivered to the channel's connection exactly when
  its age by the server's clock is between zero and its deadline; otherwise it is dropped and
  counted, so a client whose clock is ahead loses everything it sends.\<close>

theorem udp_deadline:
  assumes "authOK h" and "ftype f = FrameUDPDATA" and "DecodeUDPDatagram (payload f) = Inr dg"
    and "udp_conn (channelID f) (fst (udp h)) = Some c" and "healthy c (snd (udp h))"
    and "SentMS dg = of_int sent_ms" and "age = unix_milli (now_ns h) - sent_ms"
    and "\<bar>age\<bar> < 2 ^ 31" and "HandleFrame f h s = (r, h2, s2)"
  shows "r = None
    \<and> delivered c (snd (udp h2)) = delivered c (snd (udp h))
        @ (if 0 \<le> age \<and> age \<le> uint (DeadlineMS dg) then [udp_datagram.Data dg] else [])
    \<and> expiredUDP (s_stats s2) = expiredUDP (s_stats s)
        + (if 0 \<le> age \<and> age \<le> uint (DeadlineMS dg) then 0 else 1)
    \<and> controlQ s2 = controlQ s \<and> dataQ s2 = dataQ s"
proof -
  let ?el = "elapsedMillis32 (of_int (unix_milli (now_ns h))) (SentMS dg)"
  have "?el = of_int age" using assms(6,7) by (simp add: elapsedMillis32_diff)
  then have el: "uint ?el = age mod 2 ^ 32" by (simp add: uint_word_of_int)
  have dl: "uint (ucast (DeadlineMS dg) :: u32) = uint (DeadlineMS dg)"
    using uint_lt2p [of "DeadlineMS dg"] by (simp add: unsigned_ucast_eq take_bit_int_eq_self)
  have "uint (DeadlineMS dg) < 65536" using uint_lt2p [of "DeadlineMS dg"] by simp
  moreover have "age mod 2 ^ 32 = (if 0 \<le> age then age else age + 2 ^ 32)"
  proof (cases "0 \<le> age")
    case False
    have "age mod 2 ^ 32 = (age + 2 ^ 32) mod 2 ^ 32" by simp
    also have "\<dots> = age + 2 ^ 32" using False assms(8) by (intro mod_pos_pos_trivial) auto
    finally show ?thesis using False by simp
  qed (use assms(8) in simp)
  ultimately have late: "?el > ucast (DeadlineMS dg) \<longleftrightarrow> \<not> (0 \<le> age \<and> age \<le> uint (DeadlineMS dg))"
    using assms(8) unfolding word_less_def el dl by auto
  obtain a where a: "assocs (fst (udp h)) (channelID f) = Some a" "uconn a = c"
    using assms(4) by (auto simp: udp_conn_def)
  show ?thesis
  proof (cases "?el > ucast (DeadlineMS dg)")
    case True
    then have "(r, h2, s2) = (None, h, s\<lparr>s_stats := AddExpiredUDP (s_stats s)\<rparr>)"
      using assms(1-3,9) by (simp add: HandleFrame_def handle_UDPDATA_def)
    then show ?thesis using True late by (simp add: AddExpiredUDP_def)
  next
    case False
    then have "(r, h2, s2) = (fst (sock_write c (udp_datagram.Data dg) (snd (udp h))),
        h\<lparr>udp := (fst (udp h), snd (sock_write c (udp_datagram.Data dg) (snd (udp h))))\<rparr>, s)"
      using assms(1-3,9) a
      by (simp add: HandleFrame_def handle_UDPDATA_def UDP_Write_def split_beta Let_def)
    then show ?thesis
      using False late sock_write_healthy [OF assms(5), of "udp_datagram.Data dg"] by simp
  qed
qed


theorem udp_deadline_witness:
  "let dg = \<lparr>dgID = 1, SentMS = of_int 4294967290, DeadlineMS = 1000, FragIndex = 0, FragCount = 1,
         TotalLen = 1, udp_datagram.Data = [5]\<rparr>;
       f = data_frame FrameUDPDATA 2 (EncodeUDPDatagram dg);
       h = demo_server\<lparr>authOK := True, now_ns := 4294967300 * 1000000,
             udp := snd (UDP_Open 0 2 ''a:1'' (udp demo_server))\<rparr>
   in delivered 0 (snd (udp (fst (snd (HandleFrame f h demo_session))))) = [[5]]"
proof -
  let ?dg = "\<lparr>dgID = 1, SentMS = of_int 4294967290, DeadlineMS = 1000, FragIndex = 0, FragCount = 1,
      TotalLen = 1, udp_datagram.Data = [5]\<rparr>"
  let ?f = "data_frame FrameUDPDATA 2 (EncodeUDPDatagram ?dg)"
  let ?h = "demo_server\<lparr>authOK := True, now_ns := 4294967300 * 1000000,
      udp := snd (UDP_Open 0 2 ''a:1'' (udp demo_server))\<rparr>"
  have u: "udp_conn (channelID ?f) (fst (udp ?h)) = Some 0" "healthy 0 (snd (udp ?h))"
    "delivered 0 (snd (udp ?h)) = []"
    by (simp_all add: demo_server_def new_handler_def new_network_def UDP_Open_def dial_def udp_conn_def
        data_frame_def zero_frame_def Let_def healthy_def delivered_def)
  have f: "authOK ?h" "ftype ?f = FrameUDPDATA" "DecodeUDPDatagram (payload ?f) = Inr ?dg"
    by (simp_all add: data_frame_def zero_frame_def)
  obtain r h2 s2 where run: "HandleFrame ?f ?h demo_session = (r, h2, s2)" by (metis prod_cases3)
  have age: "10 = unix_milli (now_ns ?h) - 4294967290" by (simp add: unix_milli_def)
  have "SentMS ?dg = of_int 4294967290" "\<bar>10 :: int\<bar> < 2 ^ 31" by simp_all
  from udp_deadline [OF f u(1,2) this(1) age this(2) run] u(3) show ?thesis
    unfolding Let_def run by simp
qed

text \<open>C24. Running a server session: \<^verbatim>\<open>Run\<close> can return as soon as the context is done or one of
  the three loops has ended, what it returns is always an error, never \<^verbatim>\<open>nil\<close>, and what
  \<^verbatim>\<open>Err\<close> reports from then on, the session is closed, and no loop ever blocks on reporting its own end.\<close>

theorem server_run_returns:
  assumes "run_steps HandleFrame (start_run h (NewSession ident rd wr st hb now)) R"
  shows "length (errCh R) \<le> 3
    \<and> (\<forall>r. result R = Some r \<longrightarrow> r \<noteq> None \<and> r = session_Err (sess R) \<and> closed (sess R))
    \<and> (result R = None \<and> (ctx R \<noteq> None \<or> \<not> reading R \<or> \<not> writing R \<or> \<not> beating R)
        \<longrightarrow> (\<exists>S. run_step HandleFrame R S \<and> result S \<noteq> None))"
proof -
  have new: "session_wf (NewSession ident rd wr st hb now)" "\<not> closed (NewSession ident rd wr st hb now)"
    by (simp_all add: session_wf_New)
  show ?thesis
    using srv.run_send_never_blocks [OF assms new] srv.run_result [OF assms new]
      srv.run_can_return [OF assms new] unfolding session_Err_def by force
qed

theorem server_run_returns_witness:
  "length (errCh (start_run demo_server demo_session)) \<le> 3
   \<and> (\<exists>S. run_step HandleFrame ((start_run demo_server demo_session)\<lparr>ctx := Some Canceled\<rparr>) S
        \<and> result S \<noteq> None)"
proof -
  let ?R0 = "start_run demo_server demo_session"
  have z: "run_steps HandleFrame ?R0 ?R0" by (rule done_steps)
  have "run_step HandleFrame ?R0 (?R0\<lparr>ctx := Some Canceled\<rparr>)"
    by (rule cancel) (simp_all add: start_run_def)
  with z have c: "run_steps HandleFrame ?R0 (?R0\<lparr>ctx := Some Canceled\<rparr>)" by (rule more_steps)
  from server_run_returns [OF z [unfolded demo_session_def]]
    server_run_returns [OF c [unfolded demo_session_def]]
  show ?thesis by (simp add: start_run_def demo_session_def)
qed

text \<open>The count of active channels is not the number of open ones: on an authenticated session a
  close frame for a channel that was never opened lowers it, so the snapshot of a new session's
  counters can show minus one, and a channel whose remote end closes first is not uncounted.\<close>

theorem active_channels_miscounted:
  assumes "authOK h" and "ftype f \<in> {FrameTCPCLOSE, FrameUDPCLOSE}"
    and "HandleFrame f h (s\<lparr>s_stats := NewStats t\<rparr>) = (r, h2, s2)"
    and "copyRemoteToTunnel_iter ch c (buf, Some e) rw s = (goes_on, rw2, s3)"
  shows "snap_ActiveChannels (Snapshot (s_stats s2)) = - 1
    \<and> activeChannels (s_stats s3) = activeChannels (s_stats s)"
proof
  have "activeChannels (s_stats s2) = - 1"
    using assms(1-3) by (auto simp: HandleFrame_def AddActiveChannel_def NewStats_def)
  then show "snap_ActiveChannels (Snapshot (s_stats s2)) = - 1" by (simp add: Snapshot_def)
  have "activeChannels (s_stats (snd (QueueControl g t))) = activeChannels (s_stats t)"
    "activeChannels (s_stats (snd (QueueData g t))) = activeChannels (s_stats t)" for g t
    by (simp_all add: QueueControl_def QueueData_def record_queue_bytes_def SetSessionQueueBytes_def
        split_beta Let_def)
  then show "activeChannels (s_stats s3) = activeChannels (s_stats s)"
    using assms(4) by (auto simp: copyRemoteToTunnel_iter_def split_beta Let_def)
qed

theorem active_channels_miscounted_witness:
  "snap_ActiveChannels (Snapshot (s_stats (snd (snd (HandleFrame (data_frame FrameTCPCLOSE 5 [])
      (demo_server\<lparr>authOK := True\<rparr>) (demo_session\<lparr>s_stats := NewStats 0\<rparr>)))))) = - 1"
proof -
  let ?f = "data_frame FrameTCPCLOSE 5 []" and ?h = "demo_server\<lparr>authOK := True\<rparr>"
  have "authOK ?h" "ftype ?f \<in> {FrameTCPCLOSE, FrameUDPCLOSE}"
    by (simp_all add: data_frame_def)
  moreover obtain r h2 s2 where run: "HandleFrame ?f ?h (demo_session\<lparr>s_stats := NewStats 0\<rparr>) = (r, h2, s2)"
    by (metis prod_cases3)
  moreover obtain g rw2 s3 where c: "copyRemoteToTunnel_iter 5 0 ([], Some EOF) (tcp ?h) demo_session = (g, rw2, s3)"
    by (metis prod_cases3)
  ultimately show ?thesis
    using active_channels_miscounted [OF _ _ run c] by simp
qed

end
