(* ===== verification/SLPP_NetText.thy ===== *)
theory SLPP_NetText
  imports SLPP_Prelude
begin

text \<open>
  The textual network addresses of Go's standard library, as far as the SOCKS code relies on them:
  \<^verbatim>\<open>fmt.Sprintf("%d", port)\<close>, \<^verbatim>\<open>net.IP.String\<close>, \<^verbatim>\<open>net.ParseIP\<close>,
  \<^verbatim>\<open>net.IP.To4\<close>, \<^verbatim>\<open>net.JoinHostPort\<close>, \<^verbatim>\<open>net.SplitHostPort\<close> and
  \<^verbatim>\<open>net.LookupPort\<close>.  Service names, which \<^verbatim>\<open>LookupPort\<close> looks up in the operating
  system's database, are a parameter.
\<close>

section \<open>Numbers\<close>

definition digit_char :: "nat \<Rightarrow> char" where
  "digit_char n = (if n < 10 then char_of (48 + n) else char_of (87 + n))"

fun decimal :: "nat \<Rightarrow> string" where
  "decimal n = (if n < 10 then [digit_char n] else decimal (n div 10) @ [digit_char (n mod 10)])"

declare decimal.simps [simp del]

fun hexadecimal :: "nat \<Rightarrow> string" where
  "hexadecimal n =
     (if n < 16 then [digit_char n] else hexadecimal (n div 16) @ [digit_char (n mod 16)])"

declare hexadecimal.simps [simp del]

definition digit_value :: "char \<Rightarrow> nat option" where
  "digit_value c = (if 48 \<le> (of_char c :: nat) \<and> (of_char c :: nat) \<le> 57 then Some (of_char c - 48) else None)"

definition hex_value :: "char \<Rightarrow> nat option" where
  "hex_value c =
     (let n = of_char c :: nat in
      if 48 \<le> n \<and> n \<le> 57 then Some (n - 48)
      else if 97 \<le> n \<and> n \<le> 102 then Some (n - 87)
      else if 65 \<le> n \<and> n \<le> 70 then Some (n - 55)
      else None)"

text \<open>The value of a string of decimal digits, after the digits read so far.\<close>

fun decimal_value :: "nat \<Rightarrow> string \<Rightarrow> nat option" where
  "decimal_value acc [] = Some acc"
| "decimal_value acc (c # cs) =
     (case digit_value c of None \<Rightarrow> None | Some d \<Rightarrow> decimal_value (10 * acc + d) cs)"

section \<open>IP addresses\<close>

definition join_with :: "char \<Rightarrow> string list \<Rightarrow> string" where
  "join_with sep fs = (case fs of [] \<Rightarrow> [] | f # gs \<Rightarrow> f @ concat (map (\<lambda>g. sep # g) gs))"

definition To4 :: "byte list \<Rightarrow> byte list option" where
  "To4 ip = (if length ip = 4 then Some ip
     else if length ip = 16 \<and> take 12 ip = replicate 10 0 @ [0xFF, 0xFF] then Some (drop 12 ip)
     else None)"

definition ip4_string :: "byte list \<Rightarrow> string" where
  "ip4_string ip = join_with CHR ''.'' (map (\<lambda>b. decimal (unat b)) ip)"

fun groups_of :: "byte list \<Rightarrow> u16 list" where
  "groups_of (a # b # bs) = get_u16 [a, b] # groups_of bs"
| "groups_of _ = []"

text \<open>The first longest run of at least two zero groups, as start and end.\<close>

definition zero_run_end :: "u16 list \<Rightarrow> nat \<Rightarrow> nat" where
  "zero_run_end gs i = i + length (takeWhile (\<lambda>g. g = 0) (drop i gs))"

definition zero_run :: "u16 list \<Rightarrow> (nat \<times> nat) option" where
  "zero_run gs = foldl (\<lambda>best i.
     let j = zero_run_end gs i in
     if j - i \<ge> 2 \<and> j - i > (case best of None \<Rightarrow> 0 | Some (a, b) \<Rightarrow> b - a) then Some (i, j) else best)
     None [0..<length gs]"

definition ip6_string :: "byte list \<Rightarrow> string" where
  "ip6_string ip =
     (let gs = groups_of ip; hex = (\<lambda>gs. join_with CHR '':'' (map (\<lambda>g. hexadecimal (unat g)) gs)) in
      case zero_run gs of
        None \<Rightarrow> hex gs
      | Some (i, j) \<Rightarrow> hex (take i gs) @ ''::'' @ hex (drop j gs))"

text \<open>\<^verbatim>\<open>net.IP.String\<close>, for the slices of 4 and 16 bytes that the program passes.\<close>

definition IP_String :: "byte list \<Rightarrow> string" where
  "IP_String ip = (case To4 ip of Some v4 \<Rightarrow> ip4_string v4 | None \<Rightarrow> ip6_string ip)"

fun split_on :: "char \<Rightarrow> string \<Rightarrow> string list" where
  "split_on sep [] = [[]]"
| "split_on sep (c # cs) =
     (if c = sep then [] # split_on sep cs
      else case split_on sep cs of f # fs \<Rightarrow> (c # f) # fs | [] \<Rightarrow> [[c]])"

text \<open>A field of a dotted address: decimal, without leading zero, at most 255.\<close>

definition parse_octet :: "string \<Rightarrow> byte option" where
  "parse_octet f =
     (if f = [] \<or> (length f > 1 \<and> hd f = CHR ''0'') then None
      else case decimal_value 0 f of
          None \<Rightarrow> None
        | Some n \<Rightarrow> if n > 255 then None else Some (of_nat n))"

definition parse_ip4 :: "string \<Rightarrow> byte list option" where
  "parse_ip4 s =
     (let fs = map parse_octet (split_on CHR ''.'' s) in
      if length fs = 4 \<and> None \<notin> set fs then Some (map the fs) else None)"

text \<open>The hexadecimal digits at the head of a string, their value, and what follows.\<close>

fun hex_prefix :: "nat \<Rightarrow> nat \<Rightarrow> string \<Rightarrow> nat \<times> nat \<times> string" where
  "hex_prefix acc off [] = (acc, off, [])"
| "hex_prefix acc off (c # cs) =
     (case hex_value c of
        None \<Rightarrow> (acc, off, c # cs)
      | Some d \<Rightarrow> hex_prefix (16 * acc + d) (off + 1) cs)"

text \<open>
  The loop of the IPv6 parser, once per group: \<open>bs\<close> are the bytes so far, \<open>el\<close> the
  position of the \<^verbatim>\<open>::\<close> seen, if any.  It ends with the bytes, the position and the rest of
  the string.
\<close>

function ip6_loop :: "string \<Rightarrow> byte list \<Rightarrow> nat option \<Rightarrow> (byte list \<times> nat option \<times> string) option" where
  "ip6_loop s bs el =
     (if length bs \<ge> 16 then Some (bs, el, s)
      else let (acc, off, rest) = hex_prefix 0 0 s in
        if off = 0 \<or> off > 4 then None
        else if rest \<noteq> [] \<and> hd rest = CHR ''.'' then
          (if el = None \<and> length bs \<noteq> 12 \<or> length bs + 4 > 16 then None
           else case parse_ip4 s of None \<Rightarrow> None | Some v4 \<Rightarrow> Some (bs @ v4, el, []))
        else
          let bs1 = bs @ put_u16 (of_nat acc) in
          case rest of
            [] \<Rightarrow> Some (bs1, el, [])
          | c # rest1 \<Rightarrow>
              if c \<noteq> CHR '':'' \<or> rest1 = [] then None
              else if hd rest1 = CHR '':'' then
                (if el \<noteq> None then None
                 else if tl rest1 = [] then Some (bs1, Some (length bs1), [])
                 else ip6_loop (tl rest1) bs1 (Some (length bs1)))
              else ip6_loop rest1 bs1 el)"
  by pat_completeness auto
termination by (relation "measure (\<lambda>(s, bs, el). 16 - length bs)") auto

declare ip6_loop.simps [simp del]

definition ip6_finish :: "byte list \<times> nat option \<times> string \<Rightarrow> byte list option" where
  "ip6_finish r =
     (let (bs, el, rest) = r in
      if rest \<noteq> [] then None
      else if length bs < 16 then
        (case el of
           None \<Rightarrow> None
         | Some e \<Rightarrow> Some (take e bs @ replicate (16 - length bs) 0 @ drop e bs))
      else if el \<noteq> None then None
      else Some bs)"

definition parse_ip6 :: "string \<Rightarrow> byte list option" where
  "parse_ip6 s =
     (if take 2 s = ''::'' then
        (if drop 2 s = [] then Some (replicate 16 0)
         else case ip6_loop (drop 2 s) [] (Some 0) of None \<Rightarrow> None | Some r \<Rightarrow> ip6_finish r)
      else case ip6_loop s [] None of None \<Rightarrow> None | Some r \<Rightarrow> ip6_finish r)"

text \<open>
  \<^verbatim>\<open>net.ParseIP\<close>: the first of \<^verbatim>\<open>.\<close>, \<^verbatim>\<open>:\<close> and \<^verbatim>\<open>%\<close> in the string decides
  which kind of address it is; a zone is not accepted.  The result always has 16 bytes.
\<close>

definition ParseIP :: "string \<Rightarrow> byte list option" where
  "ParseIP s =
     (case filter (\<lambda>c. c = CHR ''.'' \<or> c = CHR '':'' \<or> c = CHR ''%'') s of
        [] \<Rightarrow> None
      | c # _ \<Rightarrow>
          if c = CHR ''.'' then map_option (\<lambda>v4. replicate 10 0 @ [0xFF, 0xFF] @ v4) (parse_ip4 s)
          else if c = CHR ''%'' \<or> CHR ''%'' \<in> set s then None
          else parse_ip6 s)"

section \<open>Host and port\<close>

definition JoinHostPort :: "string \<Rightarrow> string \<Rightarrow> string" where
  "JoinHostPort host port =
     (if CHR '':'' \<in> set host then ''['' @ host @ '']:'' @ port else host @ '':'' @ port)"

text \<open>The index of the first and the last occurrence of a character.\<close>

fun index_of :: "char \<Rightarrow> string \<Rightarrow> nat option" where
  "index_of c [] = None"
| "index_of c (d # ds) = (if c = d then Some 0 else map_option Suc (index_of c ds))"

fun last_index_of :: "char \<Rightarrow> string \<Rightarrow> nat option" where
  "last_index_of c [] = None"
| "last_index_of c (d # ds) =
     (case last_index_of c ds of
        Some i \<Rightarrow> Some (Suc i)
      | None \<Rightarrow> if c = d then Some 0 else None)"

definition addr_error :: "string \<Rightarrow> string \<Rightarrow> go_error" where
  "addr_error addr why = Extern (''address '' @ addr @ '': '' @ why)"

definition SplitHostPort :: "string \<Rightarrow> go_error + string \<times> string" where
  "SplitHostPort hp =
     (case last_index_of CHR '':'' hp of
        None \<Rightarrow> Inl (addr_error hp ''missing port in address'')
      | Some i \<Rightarrow>
          let finish = (\<lambda>host j k.
            if CHR ''['' \<in> set (drop j hp) then Inl (addr_error hp (''unexpected '' @ [char_of (39::nat)] @ ''['' @ [char_of (39::nat)] @ '' in address''))
            else if CHR '']'' \<in> set (drop k hp) then Inl (addr_error hp (''unexpected '' @ [char_of (39::nat)] @ '']'' @ [char_of (39::nat)] @ '' in address''))
            else Inr (host, drop (i + 1) hp))
          in if hd hp = CHR ''['' then
               (case index_of CHR '']'' hp of
                  None \<Rightarrow> Inl (addr_error hp (''missing '' @ [char_of (39::nat)] @ '']'' @ [char_of (39::nat)] @ '' in address''))
                | Some e \<Rightarrow>
                    if e + 1 = length hp then Inl (addr_error hp ''missing port in address'')
                    else if e + 1 = i then finish (go_slice 1 e hp) 1 (e + 1)
                    else if hp ! (e + 1) = CHR '':'' then Inl (addr_error hp ''too many colons in address'')
                    else Inl (addr_error hp ''missing port in address''))
             else
               (let host = take i hp in
                if CHR '':'' \<in> set host then Inl (addr_error hp ''too many colons in address'')
                else finish host 0 0))"

text \<open>
  \<^verbatim>\<open>net.LookupPort\<close>: a number, with an optional sign, or else the name of a service.  Go
  clamps numbers beyond \<open>2 ^ 30\<close>, which are refused anyway.
\<close>

definition LookupPort :: "(string \<Rightarrow> go_error + nat) \<Rightarrow> string \<Rightarrow> go_error + nat" where
  "LookupPort services s =
     (let digits = (if s \<noteq> [] \<and> (hd s = CHR ''+'' \<or> hd s = CHR ''-'') then tl s else s);
          neg = (s \<noteq> [] \<and> hd s = CHR ''-'')
      in case decimal_value 0 digits of
           None \<Rightarrow> services s
         | Some n \<Rightarrow> if n > 65535 \<or> (neg \<and> n > 0) then Inl (addr_error s ''invalid port'') else Inr n)"

section \<open>Lemmas\<close>

lemma of_char_digit [simp]: "n < 10 \<Longrightarrow> (of_char (digit_char n) :: nat) = 48 + n"
  by (simp add: digit_char_def take_bit_nat_eq_self)

lemma digit_value_char [simp]: "n < 10 \<Longrightarrow> digit_value (digit_char n) = Some n"
  by (simp add: digit_value_def)

lemma decimal_value_append:
  "decimal_value acc (xs @ ys) = (case decimal_value acc xs of None \<Rightarrow> None | Some v \<Rightarrow> decimal_value v ys)"
  by (induction xs arbitrary: acc) (auto split: option.splits)

lemma decimal_value_decimal [simp]: "decimal_value 0 (decimal n) = Some n"
proof (induction n rule: decimal.induct)
  case (1 n)
  show ?case
  proof (cases "n < 10")
    case True
    then show ?thesis by (simp add: decimal.simps [of n])
  next
    case False
    then show ?thesis using 1 by (simp add: decimal.simps [of n] decimal_value_append)
  qed
qed

lemma decimal_digits: "c \<in> set (decimal n) \<Longrightarrow> \<exists>d < 10. c = digit_char d"
proof (induction n rule: decimal.induct)
  case (1 n)
  then show ?case
    by (cases "n < 10") (auto simp: decimal.simps [of n] intro: exI [of _ "n mod 10"])
qed

lemma decimal_plain:
  assumes "c \<in> set (decimal n)"
  shows "48 \<le> (of_char c :: nat) \<and> (of_char c :: nat) \<le> 57"
  using decimal_digits [OF assms] by auto

lemma decimal_no_separators:
  "CHR ''.'' \<notin> set (decimal n)" "CHR '':'' \<notin> set (decimal n)" "CHR ''['' \<notin> set (decimal n)"
  "CHR '']'' \<notin> set (decimal n)" "CHR ''+'' \<notin> set (decimal n)" "CHR ''-'' \<notin> set (decimal n)"
  "CHR ''%'' \<notin> set (decimal n)"
  using decimal_plain [of _ n] by fastforce+

lemma decimal_nonempty [simp]: "decimal n \<noteq> []"
  by (simp add: decimal.simps [of n])

lemma decimal_no_leading_zero: "n > 0 \<Longrightarrow> hd (decimal n) \<noteq> CHR ''0''"
proof (induction n rule: decimal.induct)
  case (1 n)
  show ?case
  proof (cases "n < 10")
    case True
    then have "(of_char (digit_char n) :: nat) \<noteq> of_char CHR ''0''" using 1(2) by simp
    then have "digit_char n \<noteq> CHR ''0''" by metis
    then show ?thesis using True by (simp add: decimal.simps [of n])
  next
    case False
    then show ?thesis using 1 by (simp add: decimal.simps [of n])
  qed
qed

lemma decimal_zero: "decimal 0 = ''0''"
  by (simp add: decimal.simps [of 0] digit_char_def char_of_def bit_iff_odd)

lemma parse_octet_decimal [simp]: "parse_octet (decimal (unat b)) = Some b"
proof (cases "unat b = 0")
  case True
  then show ?thesis by (simp add: decimal_zero parse_octet_def digit_value_def unat_eq_0)
next
  case False
  moreover have "unat b \<le> 255" using unsigned_less [of b, where ?'a = nat] by simp
  ultimately show ?thesis
    using decimal_no_leading_zero [of "unat b"] by (simp add: parse_octet_def)
qed

lemma split_on_plain: "sep \<notin> set f \<Longrightarrow> split_on sep f = [f]"
  by (induction f) auto

lemma split_on_append: "sep \<notin> set f \<Longrightarrow> split_on sep (f @ sep # rest) = f # split_on sep rest"
  by (induction f) auto

lemma split_on_join:
  assumes "fs \<noteq> []" and "\<forall>f \<in> set fs. sep \<notin> set f"
  shows "split_on sep (join_with sep fs) = fs"
proof -
  have "split_on sep (f @ concat (map (\<lambda>g. sep # g) gs)) = f # gs"
    if "\<forall>h \<in> set (f # gs). sep \<notin> set h" for f gs
    using that
  proof (induction gs arbitrary: f)
    case Nil
    then show ?case by (simp add: split_on_plain)
  next
    case (Cons g gs)
    then show ?case by (simp add: split_on_append)
  qed
  then show ?thesis using assms by (cases fs) (simp_all add: join_with_def)
qed

lemma parse_ip4_string: "length ip = 4 \<Longrightarrow> parse_ip4 (ip4_string ip) = Some ip"
proof -
  assume len: "length ip = 4"
  have "split_on CHR ''.'' (ip4_string ip) = map (\<lambda>b. decimal (unat b)) ip"
    unfolding ip4_string_def using len
    by (intro split_on_join) (auto simp: decimal_no_separators)
  then show ?thesis using len by (auto simp: parse_ip4_def comp_def)
qed

lemma set_join_with: "set (join_with sep fs) \<subseteq> insert sep (\<Union> (set ` set fs))"
  by (cases fs) (auto simp: join_with_def)

lemma ip4_string_chars:
  assumes "c \<in> set (ip4_string ip)"
  shows "c = CHR ''.'' \<or> (\<exists>n. c \<in> set (decimal n))"
  using assms set_join_with [of "CHR ''.''" "map (\<lambda>b. decimal (unat b)) ip"]
  by (auto simp: ip4_string_def)

lemma ip4_string_dot: "length ip = 4 \<Longrightarrow> CHR ''.'' \<in> set (ip4_string ip)"
  by (auto simp: ip4_string_def join_with_def list_length_4)

lemma ParseIP_ip4:
  assumes "length ip = 4"
  shows "ParseIP (ip4_string ip) = Some (replicate 10 0 @ [0xFF, 0xFF] @ ip)"
proof -
  have only: "c \<noteq> CHR '':'' \<and> c \<noteq> CHR ''%''" if "c \<in> set (ip4_string ip)" for c
    using ip4_string_chars [OF that] decimal_no_separators by auto
  define fs where "fs = filter (\<lambda>c. c = CHR ''.'' \<or> c = CHR '':'' \<or> c = CHR ''%'') (ip4_string ip)"
  have "fs \<noteq> []" using ip4_string_dot [OF assms] by (auto simp: fs_def filter_empty_conv)
  moreover have "\<forall>c \<in> set fs. c = CHR ''.''" using only by (auto simp: fs_def)
  ultimately obtain gs where "fs = CHR ''.'' # gs" by (cases fs) auto
  then show ?thesis
    using parse_ip4_string [OF assms] by (simp add: ParseIP_def flip: fs_def)
qed

lemma To4_mapped [simp]: "length ip = 4 \<Longrightarrow> To4 (replicate 10 0 @ [0xFF, 0xFF] @ ip) = Some ip"
  by (simp add: To4_def)

lemma last_index_of_append:
  "c \<notin> set port \<Longrightarrow> last_index_of c (host @ c # port) = Some (length host)"
proof (induction host)
  case Nil
  moreover have "c \<notin> set port \<Longrightarrow> last_index_of c port = None" by (induction port) auto
  ultimately show ?case by simp
qed simp

lemma index_of_append: "c \<notin> set host \<Longrightarrow> index_of c (host @ c # rest) = Some (length host)"
  by (induction host) auto

lemma Split_JoinHostPort:
  assumes "CHR ''['' \<notin> set host" and "CHR '']'' \<notin> set host"
    and "CHR '':'' \<notin> set port" and "CHR ''['' \<notin> set port" and "CHR '']'' \<notin> set port"
  shows "SplitHostPort (JoinHostPort host port) = Inr (host, port)"
proof (cases "CHR '':'' \<in> set host")
  case False
  have "last_index_of CHR '':'' (host @ '':'' @ port) = Some (length host)"
    using last_index_of_append [OF assms(3)] by simp
  moreover have "hd (host @ '':'' @ port) \<noteq> CHR ''[''"
    using assms(1) by (cases host) auto
  ultimately show ?thesis
    using assms False by (simp add: SplitHostPort_def JoinHostPort_def)
next
  case True
  let ?hp = "''['' @ host @ '']:'' @ port"
  have l: "last_index_of CHR '':'' ?hp = Some (length host + 2)"
    using last_index_of_append [OF assms(3), of "''['' @ host @ '']''"] by simp
  have i: "index_of CHR '']'' ?hp = Some (length host + 1)"
    using index_of_append [of "CHR '']''" "CHR ''['' # host" "'':'' @ port"] assms(2) by simp
  have j: "JoinHostPort host port = ?hp" using True by (simp add: JoinHostPort_def)
  have g: "go_slice 1 (length host + 1) ?hp = host" by (simp add: go_slice_def)
  show ?thesis
    unfolding j SplitHostPort_def l option.case Let_def i g using assms by simp
qed

lemma LookupPort_decimal: "n \<le> 65535 \<Longrightarrow> LookupPort services (decimal n) = Inr n"
proof -
  assume n: "n \<le> 65535"
  have "hd (decimal n) \<noteq> CHR ''+''" "hd (decimal n) \<noteq> CHR ''-''"
    using decimal_no_separators(5,6) [of n] hd_in_set [OF decimal_nonempty, of n] by metis+
  then show ?thesis using n by (simp add: LookupPort_def)
qed

end
