(* ===== verification/SLPP_IPv6.thy ===== *)
theory SLPP_IPv6
  imports SLPP_NetText
begin

text \<open>
  The round trip of textual IPv6 addresses: \<^verbatim>\<open>net.ParseIP\<close> reads what
  \<^verbatim>\<open>net.IP.String\<close> prints, with the longest run of zero groups left out.  The lemmas follow
  the text: one group, a list of groups, the groups before and after the omitted run.
\<close>

section \<open>One group\<close>

lemma of_char_hex_digit: "n < 16 \<Longrightarrow> (of_char (digit_char n) :: nat) = (if n < 10 then 48 + n else 87 + n)"
  by (auto simp: digit_char_def of_char_of take_bit_nat_eq_self)

lemma hex_value_digit [simp]: "n < 16 \<Longrightarrow> hex_value (digit_char n) = Some n"
  by (auto simp: hex_value_def of_char_hex_digit Let_def)

lemma hexadecimal_digits: "c \<in> set (hexadecimal n) \<Longrightarrow> \<exists>d < 16. c = digit_char d"
proof (induction n rule: hexadecimal.induct)
  case (1 n)
  then show ?case
    by (cases "n < 16") (auto simp: hexadecimal.simps [of n] intro: exI [of _ "n mod 16"])
qed

lemma hexadecimal_hex_value: "c \<in> set (hexadecimal n) \<Longrightarrow> hex_value c \<noteq> None"
  using hexadecimal_digits by fastforce

lemma separators_no_hex: "hex_value CHR '':'' = None" "hex_value CHR ''.'' = None" "hex_value CHR ''%'' = None"
  by (simp_all add: hex_value_def)

lemma hexadecimal_no_separators:
  "CHR '':'' \<notin> set (hexadecimal n)" "CHR ''.'' \<notin> set (hexadecimal n)" "CHR ''%'' \<notin> set (hexadecimal n)"
  using hexadecimal_hex_value separators_no_hex by metis+

lemma hexadecimal_nonempty [simp]: "hexadecimal n \<noteq> []"
  by (simp add: hexadecimal.simps [of n])

lemma hexadecimal_length: "n < 16 ^ k \<Longrightarrow> 0 < k \<Longrightarrow> length (hexadecimal n) \<le> k"
proof (induction n arbitrary: k rule: hexadecimal.induct)
  case (1 n)
  show ?case
  proof (cases "n < 16")
    case True
    then show ?thesis using 1(3) by (simp add: hexadecimal.simps [of n])
  next
    case False
    then obtain k2 where k: "k = Suc k2" "0 < k2"
      using 1(2,3) by (cases k; cases "k - 1") auto
    moreover have "n div 16 < 16 ^ k2" using 1(2) k(1) by (simp add: less_mult_imp_div_less mult.commute)
    ultimately show ?thesis using 1(1) [OF False] False by (simp add: hexadecimal.simps [of n])
  qed
qed

definition hex_fold :: "nat \<Rightarrow> string \<Rightarrow> nat" where
  "hex_fold acc s = foldl (\<lambda>a c. 16 * a + the (hex_value c)) acc s"

lemma hex_prefix_append:
  "\<forall>c \<in> set s. hex_value c \<noteq> None \<Longrightarrow>
     hex_prefix acc off (s @ rest) = hex_prefix (hex_fold acc s) (off + length s) rest"
  by (induction s arbitrary: acc off) (auto simp: hex_fold_def)

lemma hex_fold_hexadecimal: "hex_fold 0 (hexadecimal n) = n"
proof (induction n rule: hexadecimal.induct)
  case (1 n)
  then show ?case
    by (cases "n < 16") (simp_all add: hexadecimal.simps [of n] hex_fold_def)
qed

lemma hex_prefix_hexadecimal:
  assumes "rest = [] \<or> hex_value (hd rest) = None"
  shows "hex_prefix 0 0 (hexadecimal n @ rest) = (n, length (hexadecimal n), rest)"
proof -
  have "hex_prefix 0 0 (hexadecimal n @ rest) = hex_prefix n (length (hexadecimal n)) rest"
    using hex_prefix_append [of "hexadecimal n" 0 0 rest] hexadecimal_hex_value
    by (simp add: hex_fold_hexadecimal)
  then show ?thesis using assms by (cases rest) auto
qed

section \<open>Lists of groups\<close>

abbreviation group_texts :: "u16 list \<Rightarrow> string list" where
  "group_texts gs \<equiv> map (\<lambda>g. hexadecimal (unat g)) gs"

definition hex_text :: "u16 list \<Rightarrow> string" where
  "hex_text gs = join_with CHR '':'' (group_texts gs)"

definition group_bytes :: "u16 list \<Rightarrow> byte list" where
  "group_bytes gs = concat (map put_u16 gs)"

lemma hex_text_simps [simp]:
  "hex_text [] = []" "hex_text [g] = hexadecimal (unat g)"
  "hex_text (g # h # gs) = hexadecimal (unat g) @ '':'' @ hex_text (h # gs)"
  by (simp_all add: hex_text_def join_with_def)

lemma group_bytes_simps [simp]:
  "group_bytes [] = []" "group_bytes (g # gs) = put_u16 g @ group_bytes gs"
  "group_bytes (gs @ hs) = group_bytes gs @ group_bytes hs"
  by (simp_all add: group_bytes_def)

lemma length_group_bytes [simp]: "length (group_bytes gs) = 2 * length gs"
  by (induction gs) simp_all

lemma group_bytes_zero: "group_bytes (replicate n 0) = replicate (2 * n) 0"
proof (induction n)
  case (Suc n)
  have "put_u16 0 = [0, 0]" by (simp add: put_u16_def)
  then show ?case using Suc by simp
qed simp

lemma group_bytes_groups_of: "even (length bs) \<Longrightarrow> group_bytes (groups_of bs) = bs"
  by (induction bs rule: groups_of.induct) (simp_all add: put_get_u16 del: get_u16.simps)

lemma length_groups_of: "even (length bs) \<Longrightarrow> 2 * length (groups_of bs) = length bs"
  using group_bytes_groups_of [of bs] length_group_bytes [of "groups_of bs"] by simp

lemma length_group: "length (hexadecimal (unat (g :: u16))) \<le> 4"
  using unsigned_less [of g, where ?'a = nat] by (intro hexadecimal_length) simp_all

lemma hex_text_head:
  assumes "gs \<noteq> []"
  obtains c s where "hex_text gs = c # s" and "c \<noteq> CHR '':''"
proof -
  obtain n rest where t: "hex_text gs = hexadecimal n @ rest"
    using assms by (cases gs rule: remdups_adj.cases) auto
  obtain c s where "hexadecimal n = c # s" by (metis hexadecimal_nonempty neq_Nil_conv)
  moreover from this have "c \<noteq> CHR '':''" using hexadecimal_no_separators(1) [of n] by auto
  ultimately show ?thesis using t that by simp
qed

lemma ip6_loop_group:
  assumes "length bs < 16" and "rest = [] \<or> hd rest = CHR '':''"
  shows "ip6_loop (hexadecimal (unat (g :: u16)) @ rest) bs el =
     (let bs1 = bs @ put_u16 g in
      case rest of
        [] \<Rightarrow> Some (bs1, el, [])
      | c # rest1 \<Rightarrow>
          if rest1 = [] then None
          else if hd rest1 = CHR '':'' then
            (if el \<noteq> None then None
             else if tl rest1 = [] then Some (bs1, Some (length bs1), [])
             else ip6_loop (tl rest1) bs1 (Some (length bs1)))
          else ip6_loop rest1 bs1 el)"
proof -
  have "hex_prefix 0 0 (hexadecimal (unat g) @ rest) = (unat g, length (hexadecimal (unat g)), rest)"
    using assms(2) by (intro hex_prefix_hexadecimal) (auto simp: separators_no_hex)
  moreover have "\<not> (rest \<noteq> [] \<and> hd rest = CHR ''.'')" using assms(2) by auto
  ultimately show ?thesis
    using assms length_group [of g]
    by (subst ip6_loop.simps) (auto simp: Let_def split: list.split)
qed

lemma ip6_loop_text:
  assumes "gs \<noteq> []" and "length bs + 2 * length gs \<le> 16"
  shows "ip6_loop (hex_text gs) bs el = Some (bs @ group_bytes gs, el, [])"
  using assms
proof (induction gs arbitrary: bs rule: induct_list012)
  case (2 g)
  then show ?case using ip6_loop_group [of bs "[]" g el] by simp
next
  case (3 g h gs)
  obtain c s where t: "hex_text (h # gs) = c # s" "c \<noteq> CHR '':''"
    using hex_text_head [of "h # gs"] by blast
  then have "ip6_loop (hex_text (g # h # gs)) bs el = ip6_loop (hex_text (h # gs)) (bs @ put_u16 g) el"
    using 3(4) ip6_loop_group [of bs "'':'' @ hex_text (h # gs)" g el] by simp
  then show ?case using 3 by simp
qed simp

lemma ip6_loop_gap:
  assumes "gs \<noteq> []" and "length bs + 2 * (length gs + length hs) \<le> 16"
  shows "ip6_loop (hex_text gs @ ''::'' @ hex_text hs) bs None =
    Some (bs @ group_bytes gs @ group_bytes hs, Some (length bs + 2 * length gs), [])"
  using assms
proof (induction gs arbitrary: bs rule: induct_list012)
  case (2 g)
  show ?case
  proof (cases "hs = []")
    case True
    then show ?thesis using 2 ip6_loop_group [of bs "''::''" g None] by simp
  next
    case False
    then have "hex_text hs \<noteq> []" by (metis hex_text_head list.distinct(1))
    then show ?thesis
      using 2 False ip6_loop_group [of bs "''::'' @ hex_text hs" g None]
        ip6_loop_text [of hs "bs @ put_u16 g" "Some (length bs + 2)"] by simp
  qed
next
  case (3 g h gs)
  obtain c s where t: "hex_text (h # gs) = c # s" "c \<noteq> CHR '':''"
    using hex_text_head [of "h # gs"] by blast
  then have "ip6_loop (hex_text (g # h # gs) @ ''::'' @ hex_text hs) bs None
      = ip6_loop (hex_text (h # gs) @ ''::'' @ hex_text hs) (bs @ put_u16 g) None"
    using 3(4) ip6_loop_group [of bs "'':'' @ hex_text (h # gs) @ ''::'' @ hex_text hs" g None] by simp
  then show ?case using 3 by simp
qed simp

section \<open>The omitted run\<close>

definition is_zero_run :: "u16 list \<Rightarrow> nat \<times> nat \<Rightarrow> bool" where
  "is_zero_run gs ij \<longleftrightarrow> fst ij + 2 \<le> snd ij \<and> snd ij \<le> length gs
     \<and> (\<forall>k. fst ij \<le> k \<and> k < snd ij \<longrightarrow> gs ! k = 0)"

lemma zero_run_end_zero:
  assumes "i \<le> length gs"
  shows "zero_run_end gs i \<le> length gs" and "\<forall>k. i \<le> k \<and> k < zero_run_end gs i \<longrightarrow> gs ! k = 0"
proof -
  let ?w = "takeWhile (\<lambda>g. g = 0) (drop i gs)"
  have "length ?w \<le> length gs - i" using length_takeWhile_le [of "\<lambda>g. g = 0" "drop i gs"] by simp
  then show "zero_run_end gs i \<le> length gs" using assms by (simp add: zero_run_end_def)
  show "\<forall>k. i \<le> k \<and> k < zero_run_end gs i \<longrightarrow> gs ! k = 0"
  proof (intro allI impI)
    fix k assume k: "i \<le> k \<and> k < zero_run_end gs i"
    then have "k - i < length ?w" by (auto simp: zero_run_end_def)
    then have "?w ! (k - i) = drop i gs ! (k - i)" "?w ! (k - i) \<in> set ?w"
      by (rule takeWhile_nth, rule nth_mem)
    then show "gs ! k = 0" using set_takeWhileD [of _ "\<lambda>g. g = 0"] k assms by (metis le_add_diff_inverse nth_drop)
  qed
qed

lemma foldl_invariant:
  "P b \<Longrightarrow> (\<And>b x. P b \<Longrightarrow> x \<in> set xs \<Longrightarrow> P (f b x)) \<Longrightarrow> P (foldl f b xs)"
  by (induction xs arbitrary: b) auto

lemma zero_run_is: "zero_run gs = Some ij \<Longrightarrow> is_zero_run gs ij"
proof -
  let ?P = "\<lambda>best. \<forall>ij. best = Some ij \<longrightarrow> is_zero_run gs ij"
  have "?P (zero_run gs)"
    unfolding zero_run_def Let_def
  proof (rule foldl_invariant)
    fix best i assume "?P best" and "i \<in> set [0..<length gs]"
    then show "?P (if 2 \<le> zero_run_end gs i - i
          \<and> (case best of None \<Rightarrow> 0 | Some (a, b) \<Rightarrow> b - a) < zero_run_end gs i - i
        then Some (i, zero_run_end gs i) else best)"
      using zero_run_end_zero [of i gs] by (auto simp: is_zero_run_def)
  qed simp
  then show "zero_run gs = Some ij \<Longrightarrow> is_zero_run gs ij" by blast
qed

lemma is_zero_run_split:
  assumes "is_zero_run gs (i, j)"
  shows "gs = take i gs @ replicate (j - i) 0 @ drop j gs"
proof (rule nth_equalityI)
  show "length gs = length (take i gs @ replicate (j - i) 0 @ drop j gs)"
    using assms by (auto simp: is_zero_run_def)
  show "gs ! k = (take i gs @ replicate (j - i) 0 @ drop j gs) ! k" if "k < length gs" for k
    using assms that by (auto simp: is_zero_run_def nth_append)
qed

section \<open>The round trip\<close>

lemma ip6_string_text:
  "ip6_string ip = (case zero_run (groups_of ip) of
     None \<Rightarrow> hex_text (groups_of ip)
   | Some (i, j) \<Rightarrow> hex_text (take i (groups_of ip)) @ ''::'' @ hex_text (drop j (groups_of ip)))"
  by (simp only: ip6_string_def hex_text_def Let_def)

lemma parse_ip6_text:
  assumes "length gs = 8"
  shows "parse_ip6 (hex_text gs) = Some (group_bytes gs)"
proof -
  have gs: "gs \<noteq> []" using assms by auto
  then obtain c s where "hex_text gs = c # s" "c \<noteq> CHR '':''" by (rule hex_text_head)
  then have "take 2 (hex_text gs) \<noteq> ''::''" by (cases s) auto
  moreover note gs
  ultimately show ?thesis
    using assms ip6_loop_text [of gs "[]" None] by (simp add: parse_ip6_def ip6_finish_def)
qed

lemma parse_ip6_gap:
  assumes "length gs = 8" and "is_zero_run gs (i, j)"
  shows "parse_ip6 (hex_text (take i gs) @ ''::'' @ hex_text (drop j gs)) = Some (group_bytes gs)"
proof -
  let ?l = "take i gs" and ?r = "drop j gs"
  have ij: "i + 2 \<le> j" "j \<le> 8" using assms by (auto simp: is_zero_run_def)
  have "group_bytes gs = group_bytes ?l @ replicate (2 * (j - i)) 0 @ group_bytes ?r"
    using arg_cong [OF is_zero_run_split [OF assms(2)], of group_bytes] by (simp add: group_bytes_zero)
  moreover have "2 * (j - i) = 16 - length (group_bytes ?l @ group_bytes ?r)"
    using assms(1) ij by (simp add: min_def)
  ultimately have bytes: "group_bytes gs = group_bytes ?l
      @ replicate (16 - length (group_bytes ?l @ group_bytes ?r)) 0 @ group_bytes ?r" by simp
  have len: "length (group_bytes ?l @ group_bytes ?r) < 16" "length (group_bytes ?l) = 2 * i"
    using assms(1) ij by (simp_all add: min_def)
  show ?thesis
  proof (cases "i = 0")
    case True
    show ?thesis
    proof (cases "?r = []")
      case r: True
      then have "group_bytes gs = replicate 16 0" using bytes True by simp
      then show ?thesis using True r by (simp add: parse_ip6_def)
    next
      case False
      then have "ip6_loop (hex_text ?r) [] (Some 0) = Some (group_bytes ?r, Some 0, [])"
        using ip6_loop_text [of ?r "[]" "Some 0"] assms(1) by simp
      moreover have "hex_text ?r \<noteq> []" using hex_text_head [OF False] by (metis list.distinct(1))
      ultimately show ?thesis
        using True len bytes by (simp add: parse_ip6_def ip6_finish_def)
    qed
  next
    case False
    then have l: "?l \<noteq> []" using assms(1) by auto
    obtain c s where t: "hex_text ?l = c # s" "c \<noteq> CHR '':''" using hex_text_head [OF l] .
    have "take 2 (hex_text ?l @ ''::'' @ hex_text ?r) \<noteq> ''::''" using t by (cases s) auto
    moreover have "ip6_loop (hex_text ?l @ ''::'' @ hex_text ?r) [] None
        = Some (group_bytes ?l @ group_bytes ?r, Some (2 * i), [])"
      using ip6_loop_gap [OF l, of "[]" ?r] assms(1) ij by (simp add: min_def)
    ultimately show ?thesis
      using len bytes by (simp add: parse_ip6_def ip6_finish_def)
  qed
qed

lemma parse_ip6_string: "length ip = 16 \<Longrightarrow> parse_ip6 (ip6_string ip) = Some ip"
proof -
  assume len: "length ip = 16"
  then have g: "length (groups_of ip) = 8" "group_bytes (groups_of ip) = ip"
    using length_groups_of [of ip] group_bytes_groups_of [of ip] by simp_all
  show ?thesis
    using parse_ip6_text [OF g(1)] parse_ip6_gap [OF g(1)] zero_run_is [of "groups_of ip"] g(2)
    by (auto simp: ip6_string_text split: option.split)
qed

lemma hex_text_chars: "c \<in> set (hex_text gs) \<Longrightarrow> c = CHR '':'' \<or> hex_value c \<noteq> None"
  using set_join_with [of "CHR '':''" "group_texts gs"] hexadecimal_hex_value
  by (fastforce simp: hex_text_def)

lemma ip6_string_chars: "c \<in> set (ip6_string ip) \<Longrightarrow> c = CHR '':'' \<or> hex_value c \<noteq> None"
  using hex_text_chars by (auto simp: ip6_string_text split: option.splits)

lemma ip6_string_colon: "length ip = 16 \<Longrightarrow> CHR '':'' \<in> set (ip6_string ip)"
proof -
  assume "length ip = 16"
  then have "length (groups_of ip) = 8" using length_groups_of [of ip] by simp
  then obtain g h gs where "groups_of ip = g # h # gs"
    by (cases "groups_of ip" rule: remdups_adj.cases) auto
  then show ?thesis by (auto simp: ip6_string_text split: option.split)
qed

lemma ip6_string_brackets: "CHR ''['' \<notin> set (ip6_string ip)" "CHR '']'' \<notin> set (ip6_string ip)"
proof -
  have "hex_value CHR ''['' = None" "hex_value CHR '']'' = None" by (simp_all add: hex_value_def)
  then show "CHR ''['' \<notin> set (ip6_string ip)" "CHR '']'' \<notin> set (ip6_string ip)"
    using ip6_string_chars by fastforce+
qed

lemma ParseIP_ip6:
  assumes "length ip = 16"
  shows "ParseIP (ip6_string ip) = Some ip"
proof -
  have only: "c \<noteq> CHR ''.'' \<and> c \<noteq> CHR ''%''" if "c \<in> set (ip6_string ip)" for c
    using ip6_string_chars [OF that] separators_no_hex by auto
  define fs where "fs = filter (\<lambda>c. c = CHR ''.'' \<or> c = CHR '':'' \<or> c = CHR ''%'') (ip6_string ip)"
  have "fs \<noteq> []" using ip6_string_colon [OF assms] by (auto simp: fs_def filter_empty_conv)
  moreover have "\<forall>c \<in> set fs. c = CHR '':''" using only by (auto simp: fs_def)
  ultimately obtain gs where "fs = CHR '':'' # gs" by (cases fs) auto
  moreover have "CHR ''%'' \<notin> set (ip6_string ip)" using only by blast
  ultimately show ?thesis
    using parse_ip6_string [OF assms] by (simp add: ParseIP_def flip: fs_def)
qed

end
