(* ===== verification/SLPP_Socks.thy ===== *)
theory SLPP_Socks
  imports SLPP_IPv6
begin

text \<open>
  The SOCKS5 address formats of the client, \<^verbatim>\<open>cmd/slppc/main.go\<close>: the address of a request
  read from a stream (\<^verbatim>\<open>readSocksAddr\<close>), the address in a UDP packet
  (\<^verbatim>\<open>readPacketAddr\<close>, \<^verbatim>\<open>packetAddrLen\<close>), the UDP packet sent back
  (\<^verbatim>\<open>encodeSocksUDPDatagram\<close>) and the bound address of a reply (\<^verbatim>\<open>socksIPv4Reply\<close>).
\<close>

section \<open>Parsing\<close>

definition host_port :: "string \<Rightarrow> u16 \<Rightarrow> string" where
  "host_port host port = JoinHostPort host (decimal (unat port))"

definition unsupported_atyp :: go_error where
  "unsupported_atyp = ErrorNew ''unsupported atyp''"

definition readSocksAddr :: "reader \<Rightarrow> byte \<Rightarrow> (go_error + string \<times> byte list) \<times> reader" where
  "readSocksAddr r atyp =
     (if atyp = 0x01 then
        (case read_full 6 r of
           (Inl e, r1) \<Rightarrow> (Inl e, r1)
         | (Inr buf, r1) \<Rightarrow>
             (Inr (host_port (IP_String (go_slice 0 4 buf)) (get_u16 (go_slice 4 6 buf)), 0x01 # buf), r1))
      else if atyp = 0x03 then
        (case read_full 1 r of
           (Inl e, r1) \<Rightarrow> (Inl e, r1)
         | (Inr sz, r1) \<Rightarrow>
             (case read_full (unat (hd sz) + 2) r1 of
                (Inl e, r2) \<Rightarrow> (Inl e, r2)
              | (Inr buf, r2) \<Rightarrow>
                  (Inr (host_port (string_of_bytes (take (length buf - 2) buf))
                          (get_u16 (drop (length buf - 2) buf)), [0x03, hd sz] @ buf), r2)))
      else if atyp = 0x04 then
        (case read_full 18 r of
           (Inl e, r1) \<Rightarrow> (Inl e, r1)
         | (Inr buf, r1) \<Rightarrow>
             (Inr (host_port (IP_String (go_slice 0 16 buf)) (get_u16 (go_slice 16 18 buf)), 0x04 # buf), r1))
      else (Inl unsupported_atyp, r))"

definition readPacketAddr :: "byte list \<Rightarrow> go_error + string \<times> nat" where
  "readPacketAddr packet =
     (if length packet < 1 then Inl ErrUnexpectedEOF
      else if packet ! 0 = 0x01 then
        (if length packet < 7 then Inl ErrUnexpectedEOF
         else Inr (host_port (IP_String (go_slice 1 5 packet)) (get_u16 (go_slice 5 7 packet)), 7))
      else if packet ! 0 = 0x03 then
        (if length packet < 2 then Inl ErrUnexpectedEOF
         else let sz = unat (packet ! 1) in
           if length packet < 2 + sz + 2 then Inl ErrUnexpectedEOF
           else Inr (host_port (string_of_bytes (go_slice 2 (2 + sz) packet))
                       (get_u16 (go_slice (2 + sz) (2 + sz + 2) packet)), 2 + sz + 2))
      else if packet ! 0 = 0x04 then
        (if length packet < 19 then Inl ErrUnexpectedEOF
         else Inr (host_port (IP_String (go_slice 1 17 packet)) (get_u16 (go_slice 17 19 packet)), 19))
      else Inl unsupported_atyp)"

definition packetAddrLen :: "byte list \<Rightarrow> byte \<Rightarrow> nat" where
  "packetAddrLen packet atyp =
     (case readPacketAddr packet of Inl _ \<Rightarrow> 0 | Inr (_, n) \<Rightarrow> 3 + n)"

section \<open>Building\<close>

definition encodeSocksUDPDatagram ::
  "(string \<Rightarrow> go_error + nat) \<Rightarrow> string \<Rightarrow> byte list \<Rightarrow> go_error + byte list" where
  "encodeSocksUDPDatagram services target data =
     (case SplitHostPort target of
        Inl e \<Rightarrow> Inl e
      | Inr (host, portText) \<Rightarrow>
          (case LookupPort services portText of
             Inl e \<Rightarrow> Inl e
           | Inr portNum \<Rightarrow>
               (let addr = (case ParseIP host of
                    Some ip \<Rightarrow> (case To4 ip of
                        Some v4 \<Rightarrow> Inr (0x01 # v4)
                      | None \<Rightarrow> Inr (0x04 # ip))
                  | None \<Rightarrow> if length host > 255 then Inl (ErrorNew ''hostname too long'')
                      else Inr ([0x03, of_nat (length host)] @ bytes_of_string host))
                in case addr of
                     Inl e \<Rightarrow> Inl e
                   | Inr a \<Rightarrow> Inr ([0, 0, 0] @ a @ put_u16 (of_nat portNum) @ data))))"

definition socksIPv4Reply :: "byte list \<Rightarrow> u16 \<Rightarrow> byte list" where
  "socksIPv4Reply ip port =
     (case To4 ip of
        Some v4 \<Rightarrow> 0x01 # v4 @ put_u16 port
      | None \<Rightarrow> [0x01, 0, 0, 0, 0, 0, 0])"

text \<open>\<^verbatim>\<open>JoinUDPAddress\<close> of \<^verbatim>\<open>core/messages.go\<close>, which no code uses: it does not bracket an
  IPv6 address, so that what it makes of one cannot be taken apart again.\<close>

definition JoinUDPAddress :: "string \<Rightarrow> u16 \<Rightarrow> string" where
  "JoinUDPAddress host port = host @ '':'' @ decimal (unat port)"

lemma JoinUDPAddress_plain: "CHR '':'' \<notin> set host \<Longrightarrow> JoinUDPAddress host port = host_port host port"
  by (simp add: JoinUDPAddress_def host_port_def JoinHostPort_def)

lemma JoinUDPAddress_colon:
  assumes "CHR '':'' \<in> set host" and "CHR ''['' \<notin> set host"
  shows "SplitHostPort (JoinUDPAddress host port)
    = Inl (addr_error (JoinUDPAddress host port) ''too many colons in address'')"
proof -
  have "last_index_of CHR '':'' (host @ '':'' @ decimal (unat port)) = Some (length host)"
    using last_index_of_append [of "CHR '':''" "decimal (unat port)" host] decimal_no_separators [of "unat port"] by simp
  moreover have "hd (host @ '':'' @ decimal (unat port)) \<noteq> CHR ''[''" using assms by (cases host) auto
  ultimately show ?thesis using assms(1) by (simp add: SplitHostPort_def JoinUDPAddress_def Let_def)
qed

section \<open>Lemmas\<close>

text \<open>The three address headers, as bytes.\<close>

definition ip4_header :: "byte list \<Rightarrow> u16 \<Rightarrow> byte list" where
  "ip4_header ip port = 0x01 # ip @ put_u16 port"

definition name_header :: "string \<Rightarrow> u16 \<Rightarrow> byte list" where
  "name_header host port = [0x03, of_nat (length host)] @ bytes_of_string host @ put_u16 port"

definition ip6_header :: "byte list \<Rightarrow> u16 \<Rightarrow> byte list" where
  "ip6_header ip port = 0x04 # ip @ put_u16 port"

lemma readPacketAddr_ip4:
  "length ip = 4 \<Longrightarrow> readPacketAddr (ip4_header ip port @ rest) = Inr (host_port (ip4_string ip) port, 7)"
  by (auto simp: readPacketAddr_def ip4_header_def IP_String_def To4_def go_slice_def list_length_4)

lemma readPacketAddr_ip6:
  "length ip = 16 \<Longrightarrow> readPacketAddr (ip6_header ip port @ rest) = Inr (host_port (IP_String ip) port, 19)"
  by (simp add: readPacketAddr_def ip6_header_def go_slice_def)

lemma unat_byte_len: "n \<le> 255 \<Longrightarrow> unat (of_nat n :: byte) = n"
  by (simp add: unat_of_nat take_bit_nat_eq_self)

lemma readPacketAddr_name:
  "length host \<le> 255 \<Longrightarrow>
     readPacketAddr (name_header host port @ rest) = Inr (host_port host port, length host + 4)"
  by (simp add: readPacketAddr_def name_header_def go_slice_def unat_byte_len Let_def)

lemma unat_u16_le: "unat (p :: u16) \<le> 65535"
  using unsigned_less [of p, where ?'a = nat] by simp

lemma encode_host_port:
  assumes "CHR ''['' \<notin> set host" and "CHR '']'' \<notin> set host"
  shows "encodeSocksUDPDatagram services (host_port host port) data =
     (case (case ParseIP host of
              Some ip \<Rightarrow> (case To4 ip of Some v4 \<Rightarrow> Inr (0x01 # v4) | None \<Rightarrow> Inr (0x04 # ip))
            | None \<Rightarrow> if length host > 255 then Inl (ErrorNew ''hostname too long'')
                else Inr ([0x03, of_nat (length host)] @ bytes_of_string host)) of
        Inl e \<Rightarrow> Inl e | Inr a \<Rightarrow> Inr ([0, 0, 0] @ a @ put_u16 port @ data))"
  using assms decimal_no_separators [of "unat port"]
  by (simp add: encodeSocksUDPDatagram_def host_port_def Split_JoinHostPort LookupPort_decimal
      unat_u16_le split: option.split sum.split)

lemma ip4_string_brackets: "CHR ''['' \<notin> set (ip4_string ip)" "CHR '']'' \<notin> set (ip4_string ip)"
  using ip4_string_chars decimal_no_separators by fastforce+

section \<open>Properties of the address formats\<close>

text \<open>C33. The two parsers agree: an address at the head of a packet is read by \<^verbatim>\<open>readPacketAddr\<close>
  exactly as \<^verbatim>\<open>readSocksAddr\<close> reads it from a stream, to the same target and with the same
  errors for a stream that ends there with \<^verbatim>\<open>io.ErrUnexpectedEOF\<close>; the raw bytes that the
  latter returns are the header itself.\<close>

theorem socks_parsers_agree:
  assumes "p = atyp # bs"
  shows "case readSocksAddr \<lparr>avail = bs, end_err = ErrUnexpectedEOF\<rparr> atyp of
      (Inl e, r) \<Rightarrow> readPacketAddr p = Inl e
    | (Inr (addr, raw), r) \<Rightarrow> readPacketAddr p = Inr (addr, length raw) \<and> p = raw @ avail r"
proof -
  have g: "go_slice (Suc i) (Suc j) (x # xs) = go_slice i j xs" for i j and x :: byte and xs
    by (simp add: go_slice_def)
  have g2: "go_slice i j (take j xs) = go_slice i j xs" "go_slice i j (take k xs) = go_slice i j xs"
    if "j \<le> k" for i j k and xs :: "byte list"
    using that by (simp_all add: go_slice_def drop_take min_def)
  consider "atyp = 0x01" | "atyp = 0x04" | "atyp = 0x03" | "atyp \<notin> {0x01, 0x03, 0x04}" by blast
  then show ?thesis
  proof cases
    case 3
    show ?thesis
    proof (cases bs)
      case Nil
      with 3 assms show ?thesis by (simp add: readSocksAddr_def readPacketAddr_def read_full_def)
    next
      case (Cons n cs)
      show ?thesis
      proof (cases "length cs < unat n + 2")
        case True
        with 3 assms Cons show ?thesis
          by (simp add: readSocksAddr_def readPacketAddr_def read_full_def)
      next
        case False
        then have "take (unat n) cs = go_slice 2 (2 + unat n) p"
          "drop (unat n) (take (unat n + 2) cs) = go_slice (2 + unat n) (2 + unat n + 2) p"
          using assms Cons by (simp_all add: go_slice_def drop_take)
        moreover have "take (length (take (unat n + 2) cs) - 2) (take (unat n + 2) cs) = take (unat n) cs"
          "length (take (unat n + 2) cs) - 2 = unat n"
          using False by (simp_all add: min_def)
        ultimately show ?thesis
          using 3 assms Cons False
          by (simp add: readSocksAddr_def readPacketAddr_def read_full_def Let_def)
      qed
    qed
  qed (use assms in \<open>auto simp: readSocksAddr_def readPacketAddr_def read_full_def unsupported_atyp_def
      eval_nat_numeral g g2 min_def\<close>)
qed


theorem socks_parsers_agree_witness:
  "readPacketAddr ([0x03, 2, 97, 98, 0, 80] @ [7]) = Inr (host_port ''ab'' 80, 6)"
proof -
  have "case readSocksAddr \<lparr>avail = [2, 97, 98, 0, 80, 7], end_err = ErrUnexpectedEOF\<rparr> 0x03 of
      (Inl e, r) \<Rightarrow> readPacketAddr [0x03, 2, 97, 98, 0, 80, 7] = Inl e
    | (Inr (addr, raw), r) \<Rightarrow> readPacketAddr [0x03, 2, 97, 98, 0, 80, 7] = Inr (addr, length raw)
        \<and> [0x03, 2, 97, 98, 0, 80, 7] = raw @ avail r"
    by (rule socks_parsers_agree) simp
  moreover have "string_of_bytes [97, 98] = ''ab''"
    by (simp add: string_of_bytes_def char_of_def bit_iff_odd)
  ultimately show ?thesis
    by (simp add: readSocksAddr_def read_full_def)
qed

text \<open>A reply carries the address the client used: for the target that \<^verbatim>\<open>readPacketAddr\<close>
  read from an IPv4 header, from an IPv6 header (other than an IPv4 address in disguise), or from a host name that is not an address literal and has no brackets,
  the packet that \<^verbatim>\<open>encodeSocksUDPDatagram\<close> builds has the very same header before the data,
  and reading that packet gives the target again.\<close>

theorem socks_udp_reply_header:
  assumes "(length ip = 4 \<and> header = ip4_header ip port)
      \<or> (length ip = 16 \<and> To4 ip = None \<and> header = ip6_header ip port)
      \<or> (header = name_header host port \<and> length host \<le> 255 \<and> ParseIP host = None
          \<and> CHR ''['' \<notin> set host \<and> CHR '']'' \<notin> set host)"
    and "readPacketAddr (header @ rest) = Inr (target, n)"
  shows "encodeSocksUDPDatagram services target data = Inr ([0, 0, 0] @ header @ data)
    \<and> n = length header \<and> packetAddrLen (header @ rest) atyp = 3 + length header
    \<and> readPacketAddr (drop 3 ([0, 0, 0] @ header @ data)) = Inr (target, n)"
  using assms(1)
proof (elim disjE)
  assume a: "length ip = 16 \<and> To4 ip = None \<and> header = ip6_header ip port"
  then have "IP_String ip = ip6_string ip" by (simp add: IP_String_def)
  then have "readPacketAddr (header @ r) = Inr (host_port (ip6_string ip) port, 19)" for r
    using a readPacketAddr_ip6 [of ip port r] by simp
  moreover have "encodeSocksUDPDatagram services (host_port (ip6_string ip) port) data
      = Inr ([0, 0, 0] @ header @ data)"
    using a encode_host_port [OF ip6_string_brackets] ParseIP_ip6 [of ip]
    by (simp add: ip6_header_def)
  ultimately show ?thesis
    using a assms(2) by (simp add: packetAddrLen_def) (simp add: ip6_header_def)
next
  assume a: "length ip = 4 \<and> header = ip4_header ip port"
  have "readPacketAddr (header @ r) = Inr (host_port (ip4_string ip) port, 7)" for r
    using a readPacketAddr_ip4 by simp
  moreover have "encodeSocksUDPDatagram services (host_port (ip4_string ip) port) data
      = Inr ([0, 0, 0] @ header @ data)"
    using a encode_host_port [OF ip4_string_brackets] ParseIP_ip4 [of ip]
    by (simp add: ip4_header_def To4_def)
  ultimately show ?thesis
    using a assms(2) by (simp add: packetAddrLen_def) (simp add: ip4_header_def)
next
  assume a: "header = name_header host port \<and> length host \<le> 255 \<and> ParseIP host = None
      \<and> CHR ''['' \<notin> set host \<and> CHR '']'' \<notin> set host"
  have "readPacketAddr (header @ r) = Inr (host_port host port, length host + 4)" for r
    using a readPacketAddr_name by simp
  moreover have "encodeSocksUDPDatagram services (host_port host port) data
      = Inr ([0, 0, 0] @ header @ data)"
    using a encode_host_port [of host] by (simp add: name_header_def)
  ultimately show ?thesis
    using a assms(2) by (simp add: packetAddrLen_def) (simp add: name_header_def)
qed

theorem socks_udp_reply_header_witness:
  "encodeSocksUDPDatagram (\<lambda>_. Inl EOF) (host_port (ip4_string [10, 0, 0, 1]) 53) [42]
     = Inr ([0, 0, 0] @ ip4_header [10, 0, 0, 1] 53 @ [42])
   \<and> encodeSocksUDPDatagram (\<lambda>_. Inl EOF) (host_port (IP_String (1 # replicate 15 0)) 53) [42]
     = Inr ([0, 0, 0] @ ip6_header (1 # replicate 15 0) 53 @ [42])"
proof -
  let ?v4 = "[10, 0, 0, 1]" and ?v6 = "1 # replicate 15 0"
  have "length ?v6 = 16" "To4 ?v6 = None" by (simp_all add: To4_def numeral_nat)
  then have "encodeSocksUDPDatagram (\<lambda>_. Inl EOF) (host_port (IP_String ?v6) 53) [42]
      = Inr ([0, 0, 0] @ ip6_header ?v6 53 @ [42])"
    using socks_udp_reply_header [of ?v6 "ip6_header ?v6 53" 53 "[]" "[]"]
      readPacketAddr_ip6 [of ?v6 53 "[]"] by blast
  moreover have "length ?v4 = 4" by simp
  then have "encodeSocksUDPDatagram (\<lambda>_. Inl EOF) (host_port (ip4_string ?v4) 53) [42]
      = Inr ([0, 0, 0] @ ip4_header ?v4 53 @ [42])"
    using socks_udp_reply_header [of ?v4 "ip4_header ?v4 53" 53 "[]" "[]"]
      readPacketAddr_ip4 [of ?v4 53 "[]"] by blast
  ultimately show ?thesis by blast
qed

end
