(* ===== verification/SLPP_Client.thy ===== *)
theory SLPP_Client
  imports SLPP_Relay SLPP_Socks
begin

text \<open>
  The client's end of a tunnel, \<^verbatim>\<open>cmd/slppc/main.go\<close> (\<^verbatim>\<open>tunnelClient\<close>, the SOCKS5
  connections and UDP associations, \<^verbatim>\<open>noopHandler\<close>) and \<^verbatim>\<open>NewAuthFrame\<close> of
  \<^verbatim>\<open>internal/transport/client.go\<close>.

  A function that blocks is cut at the point where it waits: opening a channel queues the OPEN
  frame and then waits for the result, so it is a \<open>start\<close> and, once the result channel holds a
  value or ten seconds have passed, a \<open>result\<close>.
\<close>

section \<open>State\<close>

record udp_route =
  r_conn :: nat
  r_peer :: string
  r_target :: string

text \<open>
  \<open>chans\<close> are the result channels made so far, of capacity one: the value sent on them, if
  any.  \<open>net\<close> holds the accepted SOCKS connections, \<open>udp_sent\<close> the packets written by
  \<^verbatim>\<open>WriteToUDP\<close> with socket and peer, and \<open>udp_write_err\<close> the error its next call meets.
\<close>

record tunnel_client =
  tcpConns :: "u32 \<rightharpoonup> nat"
  udpRoutes :: "u32 \<rightharpoonup> udp_route"
  openResults :: "u32 \<rightharpoonup> nat"
  nextID :: u32
  chans :: "nat \<rightharpoonup> go_error option"
  next_chan :: nat
  net :: network
  udp_sent :: "(nat \<times> string \<times> byte list) list"
  udp_write_err :: "go_error option"
  services :: "string \<Rightarrow> go_error + nat"

definition newTunnelClient :: "network \<Rightarrow> (string \<Rightarrow> go_error + nat) \<Rightarrow> tunnel_client" where
  "newTunnelClient w sv = \<lparr>tcpConns = Map.empty, udpRoutes = Map.empty, openResults = Map.empty,
     nextID = 1, chans = Map.empty, next_chan = 0, net = w, udp_sent = [], udp_write_err = None,
     services = sv\<rparr>"

definition nextChannel :: "tunnel_client \<Rightarrow> u32 \<times> tunnel_client" where
  "nextChannel c = (nextID c + 1, c\<lparr>nextID := nextID c + 1\<rparr>)"

section \<open>The frame handlers\<close>

definition signalOpen :: "u32 \<Rightarrow> go_error option \<Rightarrow> tunnel_client \<Rightarrow> tunnel_client" where
  "signalOpen ch err c =
     (let k = openResults c ch; c1 = c\<lparr>openResults := (openResults c)(ch := None)\<rparr>
      in case k of None \<Rightarrow> c1 | Some k \<Rightarrow> c1\<lparr>chans := (chans c1)(k \<mapsto> err)\<rparr>)"

definition closeTCP :: "u32 \<Rightarrow> tunnel_client \<Rightarrow> tunnel_client" where
  "closeTCP ch c =
     (let conn = tcpConns c ch; c1 = c\<lparr>tcpConns := (tcpConns c)(ch := None)\<rparr>
      in case conn of None \<Rightarrow> c1 | Some k \<Rightarrow> c1\<lparr>net := sock_close k (net c1)\<rparr>)"

definition closeUDP :: "u32 \<Rightarrow> tunnel_client \<Rightarrow> tunnel_client" where
  "closeUDP ch c = c\<lparr>udpRoutes := (udpRoutes c)(ch := None)\<rparr>"

definition WriteToUDP :: "nat \<Rightarrow> string \<Rightarrow> byte list \<Rightarrow> tunnel_client \<Rightarrow> go_error option \<times> tunnel_client" where
  "WriteToUDP sock peer packet c =
     (case udp_write_err c of
        None \<Rightarrow> (None, c\<lparr>udp_sent := udp_sent c @ [(sock, peer, packet)]\<rparr>)
      | Some e \<Rightarrow> (Some e, c))"

definition client_TCPDATA :: "frame \<Rightarrow> tunnel_client \<Rightarrow> go_error option \<times> tunnel_client" where
  "client_TCPDATA f c =
     (case tcpConns c (channelID f) of
        None \<Rightarrow> (None, c)
      | Some k \<Rightarrow> (let (e, w) = sock_write k (payload f) (net c) in (e, c\<lparr>net := w\<rparr>)))"

definition client_UDPDATA :: "frame \<Rightarrow> tunnel_client \<Rightarrow> go_error option \<times> tunnel_client" where
  "client_UDPDATA f c =
     (case DecodeUDPDatagram (payload f) of
        Inl e \<Rightarrow> (Some e, c)
      | Inr dg \<Rightarrow>
          (case udpRoutes c (channelID f) of
             None \<Rightarrow> (None, c)
           | Some rt \<Rightarrow>
               (case encodeSocksUDPDatagram (services c) (r_target rt) (udp_datagram.Data dg) of
                  Inl e \<Rightarrow> (Some e, c)
                | Inr packet \<Rightarrow> WriteToUDP (r_conn rt) (r_peer rt) packet c)))"

definition client_HandleFrame :: "tunnel_client handler" where
  "client_HandleFrame f c s =
     (if ftype f = FrameAUTHOK then (None, c, s)
      else if ftype f = FrameAUTHERR then (Some (ErrorNew (string_of_bytes (payload f))), c, s)
      else if ftype f = FramePING then
        (let (e, s1) = QueueControl (data_frame FramePONG 0 []) s in (e, c, s1))
      else if ftype f = FrameOPENOK then (None, signalOpen (channelID f) None c, s)
      else if ftype f = FrameOPENERR then
        (None, signalOpen (channelID f) (Some (ErrorNew (string_of_bytes (payload f)))) c, s)
      else if ftype f = FrameTCPDATA then (let (e, c1) = client_TCPDATA f c in (e, c1, s))
      else if ftype f = FrameTCPCLOSE then (None, closeTCP (channelID f) c, s)
      else if ftype f = FrameUDPDATA then (let (e, c1) = client_UDPDATA f c in (e, c1, s))
      else if ftype f = FrameUDPCLOSE then (None, closeUDP (channelID f) c, s)
      else (None, c, s))"

definition noop_HandleFrame :: "unit handler" where
  "noop_HandleFrame f h s =
     (if ftype f = FramePING then
        (let (e, s1) = QueueControl (data_frame FramePONG 0 []) s in (e, h, s1))
      else if ftype f = FrameAUTHERR then (Some (ErrorNew (string_of_bytes (payload f))), h, s)
      else (None, h, s))"

section \<open>Opening channels\<close>

text \<open>The 12 random bytes of the nonce are an argument; drawing them may fail.\<close>

definition NewAuthFrame :: "string \<Rightarrow> go_error + byte list \<Rightarrow> go_error + frame" where
  "NewAuthFrame token rnd =
     (case rnd of
        Inl e \<Rightarrow> Inl e
      | Inr nonce \<Rightarrow> Inr (data_frame FrameAUTH 0 (EncodeAuthPayload \<lparr>Token = token, Nonce = nonce\<rparr>)))"

definition openTCPChannel_start ::
  "string \<Rightarrow> nat \<Rightarrow> tunnel_client \<times> session \<Rightarrow> (go_error + u32 \<times> nat) \<times> tunnel_client \<times> session" where
  "openTCPChannel_start address conn cs =
     (let (c, s) = cs; (ch, c1) = nextChannel c; k = next_chan c1;
          c2 = c1\<lparr>next_chan := k + 1, tcpConns := (tcpConns c1)(ch \<mapsto> conn),
                  openResults := (openResults c1)(ch \<mapsto> k)\<rparr>;
          (e, s1) = QueueControl (data_frame FrameOPENTCP ch (EncodeAddress address)) s
      in (case e of Some err \<Rightarrow> Inl err | None \<Rightarrow> Inr (ch, k), c2, s1))"

definition openUDPChannel_start ::
  "string \<Rightarrow> nat \<Rightarrow> string \<Rightarrow> tunnel_client \<times> session \<Rightarrow> (go_error + u32 \<times> nat) \<times> tunnel_client \<times> session" where
  "openUDPChannel_start address conn peer cs =
     (let (c, s) = cs; (ch, c1) = nextChannel c; k = next_chan c1;
          c2 = c1\<lparr>next_chan := k + 1,
                  udpRoutes := (udpRoutes c1)(ch \<mapsto> \<lparr>r_conn = conn, r_peer = peer, r_target = address\<rparr>),
                  openResults := (openResults c1)(ch \<mapsto> k)\<rparr>;
          (e, s1) = QueueControl (data_frame FrameOPENUDP ch (EncodeAddress address)) s
      in (case e of Some err \<Rightarrow> Inl err | None \<Rightarrow> Inr (ch, k), c2, s1))"

text \<open>
  The \<^verbatim>\<open>select\<close> at the end of both: \<open>None\<close> while it waits, else channel and error returned;
  \<open>late\<close> is the text of the timeout error of the function.
\<close>

definition open_result ::
  "string \<Rightarrow> bool \<Rightarrow> u32 \<Rightarrow> nat \<Rightarrow> tunnel_client \<Rightarrow> (u32 \<times> go_error option) option" where
  "open_result late timed_out ch k c =
     (if timed_out then Some (0, Some (ErrorNew late))
      else case chans c k of None \<Rightarrow> None | Some err \<Rightarrow> Some (ch, err))"

section \<open>SOCKS connections\<close>

text \<open>
  The greeting and the request of a connection \<open>conn\<close> that will deliver \<open>rd\<close>: command,
  target and raw address, or nothing when \<^verbatim>\<open>handleSocksConn\<close> gives up.
\<close>

definition socks_request ::
  "nat \<Rightarrow> reader \<Rightarrow> network \<Rightarrow> (byte \<times> string \<times> byte list) option \<times> reader \<times> network" where
  "socks_request conn rd w =
     (case read_full 2 rd of
        (Inl _, r1) \<Rightarrow> (None, r1, w)
      | (Inr buf, r1) \<Rightarrow>
          (case read_full (unat (buf ! 1)) r1 of
             (Inl _, r2) \<Rightarrow> (None, r2, w)
           | (Inr _, r2) \<Rightarrow>
               (case sock_write conn [0x05, 0x00] w of
                  (Some _, w1) \<Rightarrow> (None, r2, w1)
                | (None, w1) \<Rightarrow>
                    (case read_full 4 r2 of
                       (Inl _, r3) \<Rightarrow> (None, r3, w1)
                     | (Inr hdr, r3) \<Rightarrow>
                         (case readSocksAddr r3 (hdr ! 3) of
                            (Inl _, r4) \<Rightarrow> (None, r4, w1)
                          | (Inr (addr, raw), r4) \<Rightarrow> (Some (hdr ! 1, addr, raw), r4, w1))))))"

definition socks_reply :: "byte \<Rightarrow> byte list" where
  "socks_reply code = [0x05, code, 0x00, 0x01, 0, 0, 0, 0, 0, 0]"

text \<open>
  Where a connection's goroutine is: finished (its connection closed by the deferred call), waiting
  for the channel to open, copying, or holding the UDP socket of an association.
\<close>

datatype socks_state =
    SocksDone
  | SocksOpening u32 nat "byte list"
  | SocksCopying u32
  | SocksAssociated nat

definition finish_socks :: "nat \<Rightarrow> tunnel_client \<Rightarrow> tunnel_client" where
  "finish_socks conn c = c\<lparr>net := sock_close conn (net c)\<rparr>"

definition client_write :: "nat \<Rightarrow> byte list \<Rightarrow> tunnel_client \<Rightarrow> go_error option \<times> tunnel_client" where
  "client_write conn data c = (let (e, w) = sock_write conn data (net c) in (e, c\<lparr>net := w\<rparr>))"

text \<open>\<open>listen\<close> is the outcome of \<^verbatim>\<open>net.ListenUDP\<close>: a socket with its address and port.\<close>

definition handleSocksConn_begin ::
  "nat \<Rightarrow> reader \<Rightarrow> go_error + nat \<times> byte list \<times> u16 \<Rightarrow> tunnel_client \<times> session
     \<Rightarrow> socks_state \<times> reader \<times> tunnel_client \<times> session" where
  "handleSocksConn_begin conn rd listen cs =
     (let (c, s) = cs; (req, rd1, w) = socks_request conn rd (net c); c1 = c\<lparr>net := w\<rparr>
      in case req of
           None \<Rightarrow> (SocksDone, rd1, finish_socks conn c1, s)
         | Some (cmd, addr, raw) \<Rightarrow>
             if cmd = 0x01 then
               (case openTCPChannel_start addr conn (c1, s) of
                  (Inl e, c2, s2) \<Rightarrow>
                    (SocksDone, rd1, finish_socks conn (snd (client_write conn (socks_reply 0x01) c2)), s2)
                | (Inr (ch, k), c2, s2) \<Rightarrow> (SocksOpening ch k raw, rd1, c2, s2))
             else if cmd = 0x03 then
               (case listen of
                  Inl e \<Rightarrow> (SocksDone, rd1, finish_socks conn c1, s)
                | Inr (usock, ip, port) \<Rightarrow>
                    (case client_write conn ([0x05, 0x00, 0x00] @ socksIPv4Reply ip port) c1 of
                       (Some e, c2) \<Rightarrow> (SocksDone, rd1, finish_socks conn c2, s)
                     | (None, c2) \<Rightarrow> (SocksAssociated usock, rd1, c2, s)))
             else (SocksDone, rd1, finish_socks conn (snd (client_write conn (socks_reply 0x07) c1)), s))"

definition handleSocksConn_opened ::
  "nat \<Rightarrow> u32 \<Rightarrow> nat \<Rightarrow> byte list \<Rightarrow> bool \<Rightarrow> tunnel_client \<Rightarrow> socks_state \<times> tunnel_client" where
  "handleSocksConn_opened conn ch k raw timed_out c =
     (case open_result ''open timeout'' timed_out ch k c of
        None \<Rightarrow> (SocksOpening ch k raw, c)
      | Some (_, Some e) \<Rightarrow> (SocksDone, finish_socks conn (snd (client_write conn (socks_reply 0x01) c)))
      | Some (ident, None) \<Rightarrow>
          (SocksCopying ident, snd (client_write conn ([0x05, 0x00, 0x00] @ raw) c)))"

definition copyTCPToTunnel_iter ::
  "u32 \<Rightarrow> read_result \<Rightarrow> bool \<Rightarrow> tunnel_client \<times> session \<Rightarrow> bool \<times> tunnel_client \<times> session" where
  "copyTCPToTunnel_iter ch rd ctx_done cs =
     (let (c, s) = cs; (buf, err) = rd;
          s1 = (if length buf > 0 then snd (QueueData (data_frame FrameTCPDATA ch buf) s) else s)
      in if err \<noteq> None then
           (False, closeTCP ch c, snd (QueueControl (data_frame FrameTCPCLOSE ch []) s1))
         else (\<not> ctx_done, c, s1))"

section \<open>UDP associations\<close>

text \<open>
  A packet from the association's socket: skipped, ready to be sent on a channel, or waiting for a
  channel to open.  \<open>m\<close> is \<^verbatim>\<open>channelForRemote\<close>.
\<close>

datatype udp_progress =
    USkip
  | USend u32 "byte list"
  | UOpening string u32 nat "byte list"

definition udp_associate_recv ::
  "nat \<Rightarrow> byte list \<Rightarrow> string \<Rightarrow> (string \<rightharpoonup> u32) \<Rightarrow> tunnel_client \<times> session
     \<Rightarrow> udp_progress \<times> tunnel_client \<times> session" where
  "udp_associate_recv usock buf peer m cs =
     (if length buf < 10 then (USkip, cs)
      else let atyp = buf ! 3 in
        case readPacketAddr (drop 3 buf) of
          Inl _ \<Rightarrow> (USkip, cs)
        | Inr (addr, _) \<Rightarrow>
            let hlen = packetAddrLen (drop 3 buf) atyp in
            if hlen \<le> 0 \<or> hlen > length buf then (USkip, cs)
            else let data = take MaxLocalUDPDatagram (drop hlen buf); key = peer @ ''|'' @ addr in
              case m key of
                Some ch \<Rightarrow> (USend ch data, cs)
              | None \<Rightarrow>
                  (case openUDPChannel_start addr usock peer cs of
                     (Inl _, cs1) \<Rightarrow> (USkip, cs1)
                   | (Inr (ch, k), cs1) \<Rightarrow> (UOpening key ch k data, cs1)))"

definition udp_associate_opened ::
  "bool \<Rightarrow> string \<Rightarrow> u32 \<Rightarrow> nat \<Rightarrow> byte list \<Rightarrow> (string \<rightharpoonup> u32) \<Rightarrow> tunnel_client
     \<Rightarrow> udp_progress \<times> (string \<rightharpoonup> u32)" where
  "udp_associate_opened timed_out key ch k data m c =
     (case open_result ''udp open timeout'' timed_out ch k c of
        None \<Rightarrow> (UOpening key ch k data, m)
      | Some (_, Some e) \<Rightarrow> (USkip, m)
      | Some (ident, None) \<Rightarrow> (USend ident data, m(key \<mapsto> ident)))"

definition udp_associate_send :: "int \<Rightarrow> int \<Rightarrow> u32 \<Rightarrow> byte list \<Rightarrow> session \<Rightarrow> session" where
  "udp_associate_send nano milli ch data s =
     snd (QueueData (data_frame FrameUDPDATA ch (EncodeUDPDatagram
       \<lparr>dgID = of_int nano, SentMS = of_int milli, DeadlineMS = 1000, FragIndex = 0, FragCount = 1,
        TotalLen = of_nat (length data), udp_datagram.Data = data\<rparr>)) s)"

section \<open>The handlers meet the session's contract\<close>

lemma data_frame_reply: "QueueControl f s = (e, t) \<Longrightarrow> queues_only s t"
  using QueueControl_queues_only [of s f] by simp

interpretation tunnelClient: session_handler client_HandleFrame
proof unfold_locales
  fix f h s e h2 s2
  assume "client_HandleFrame f h s = (e, h2, s2)"
  then show "queues_only s s2"
    by (auto simp: client_HandleFrame_def Let_def intro: data_frame_reply
        split: if_splits prod.splits)
qed

interpretation noopHandler: session_handler noop_HandleFrame
proof unfold_locales
  fix f h s e h2 s2
  assume "noop_HandleFrame f h s = (e, h2, s2)"
  then show "queues_only s s2"
    by (auto simp: noop_HandleFrame_def Let_def intro: data_frame_reply split: if_splits prod.splits)
qed

section \<open>The client at work\<close>

datatype client_event =
    CFrame frame
  | COpenTCP string nat
  | COpenUDP string nat string
  | CCopy u32 read_result bool

primrec client_step :: "client_event \<Rightarrow> tunnel_client \<times> session \<Rightarrow> tunnel_client \<times> session" where
  "client_step (CFrame f) cs = snd (client_HandleFrame f (fst cs) (snd cs))"
| "client_step (COpenTCP address conn) cs = snd (openTCPChannel_start address conn cs)"
| "client_step (COpenUDP address conn peer) cs = snd (openUDPChannel_start address conn peer cs)"
| "client_step (CCopy ch rd ctx_done) cs = snd (copyTCPToTunnel_iter ch rd ctx_done cs)"

primrec client_run :: "client_event list \<Rightarrow> tunnel_client \<times> session \<Rightarrow> tunnel_client \<times> session" where
  "client_run [] cs = cs"
| "client_run (ev # evs) cs = client_run evs (client_step ev cs)"

definition opens :: "client_event \<Rightarrow> bool" where
  "opens ev = (case ev of COpenTCP _ _ \<Rightarrow> True | COpenUDP _ _ _ \<Rightarrow> True | _ \<Rightarrow> False)"

definition answers :: "u32 \<Rightarrow> client_event \<Rightarrow> bool" where
  "answers ch ev =
     (case ev of CFrame f \<Rightarrow> channelID f = ch \<and> (ftype f = FrameOPENOK \<or> ftype f = FrameOPENERR)
      | _ \<Rightarrow> False)"

lemma start_TCP_simps [simp]:
  "fst (snd (openTCPChannel_start address conn cs)) = (fst cs)\<lparr>nextID := nextID (fst cs) + 1,
     next_chan := next_chan (fst cs) + 1, tcpConns := (tcpConns (fst cs))(nextID (fst cs) + 1 \<mapsto> conn),
     openResults := (openResults (fst cs))(nextID (fst cs) + 1 \<mapsto> next_chan (fst cs))\<rparr>"
  by (simp add: openTCPChannel_start_def nextChannel_def split_beta Let_def)

lemma start_UDP_simps [simp]:
  "fst (snd (openUDPChannel_start address conn peer cs)) = (fst cs)\<lparr>nextID := nextID (fst cs) + 1,
     next_chan := next_chan (fst cs) + 1,
     udpRoutes := (udpRoutes (fst cs))(nextID (fst cs) + 1 \<mapsto>
       \<lparr>r_conn = conn, r_peer = peer, r_target = address\<rparr>),
     openResults := (openResults (fst cs))(nextID (fst cs) + 1 \<mapsto> next_chan (fst cs))\<rparr>"
  by (simp add: openUDPChannel_start_def nextChannel_def split_beta Let_def)

lemma closeTCP_simps [simp]:
  "chans (closeTCP ch c) = chans c" "openResults (closeTCP ch c) = openResults c"
  "next_chan (closeTCP ch c) = next_chan c" "nextID (closeTCP ch c) = nextID c"
  by (simp_all add: closeTCP_def Let_def split: option.splits)

lemma client_data_simps [simp]:
  "chans (snd (client_TCPDATA f c)) = chans c" "openResults (snd (client_TCPDATA f c)) = openResults c"
  "next_chan (snd (client_TCPDATA f c)) = next_chan c" "nextID (snd (client_TCPDATA f c)) = nextID c"
  "chans (snd (client_UDPDATA f c)) = chans c" "openResults (snd (client_UDPDATA f c)) = openResults c"
  "next_chan (snd (client_UDPDATA f c)) = next_chan c" "nextID (snd (client_UDPDATA f c)) = nextID c"
  by (auto simp: client_TCPDATA_def client_UDPDATA_def WriteToUDP_def split_beta Let_def
      split: option.splits sum.splits)

lemma signalOpen_simps [simp]:
  "openResults (signalOpen ch err c) = (openResults c)(ch := None)"
  "next_chan (signalOpen ch err c) = next_chan c" "nextID (signalOpen ch err c) = nextID c"
  "chans (signalOpen ch err c)
     = (case openResults c ch of None \<Rightarrow> chans c | Some k \<Rightarrow> (chans c)(k \<mapsto> err))"
  by (simp_all add: signalOpen_def Let_def split: option.splits)

text \<open>What an event does to the pending opens: only answers and new opens touch them.\<close>

lemma client_HandleFrame_chans:
  assumes "c2 = fst (snd (client_HandleFrame f c s))"
  shows "nextID c2 = nextID c \<and> next_chan c2 = next_chan c
    \<and> (if ftype f = FrameOPENOK \<or> ftype f = FrameOPENERR
       then openResults c2 = (openResults c)(channelID f := None)
         \<and> chans c2 = (case openResults c (channelID f) of None \<Rightarrow> chans c
             | Some k \<Rightarrow> (chans c)(k \<mapsto> (if ftype f = FrameOPENOK then None
                 else Some (ErrorNew (string_of_bytes (payload f))))))
       else openResults c2 = openResults c \<and> chans c2 = chans c)"
  using assms
  by (simp add: client_HandleFrame_def split_beta Let_def closeUDP_def)

definition pending_inv :: "tunnel_client \<Rightarrow> bool" where
  "pending_inv c \<longleftrightarrow>
     (\<forall>ch k. openResults c ch = Some k \<longrightarrow> k < next_chan c \<and> chans c k = None)
     \<and> (\<forall>ch ch2 k. openResults c ch = Some k \<and> openResults c ch2 = Some k \<longrightarrow> ch = ch2)
     \<and> (\<forall>k \<ge> next_chan c. chans c k = None)"

lemma pending_inv_new: "pending_inv (newTunnelClient w sv)"
  by (simp add: pending_inv_def newTunnelClient_def)

lemma pending_inv_open:
  assumes "pending_inv c" and "openResults c2 = (openResults c)(ch \<mapsto> next_chan c)"
    and "next_chan c2 = next_chan c + 1" and "chans c2 = chans c"
  shows "pending_inv c2"
  using assms unfolding pending_inv_def by (auto simp: less_Suc_eq split: if_splits)

lemma pending_inv_frame:
  assumes "pending_inv c"
  shows "pending_inv (fst (snd (client_HandleFrame f c s)))"
proof -
  define c2 where "c2 = fst (snd (client_HandleFrame f c s))"
  note fx = client_HandleFrame_chans [OF c2_def]
  show ?thesis
  proof (cases "ftype f = FrameOPENOK \<or> ftype f = FrameOPENERR")
    case True
    obtain err where "openResults c2 = (openResults c)(channelID f := None)"
      "chans c2 = (case openResults c (channelID f) of None \<Rightarrow> chans c | Some k \<Rightarrow> (chans c)(k \<mapsto> err))"
      "next_chan c2 = next_chan c"
      using fx True by metis
    then show ?thesis
      using assms unfolding c2_def [symmetric] pending_inv_def
      by (cases "openResults c (channelID f)") (simp_all, metis not_less)
  next
    case False
    then show ?thesis using fx assms unfolding c2_def [symmetric] pending_inv_def by simp
  qed
qed

lemma pending_inv_step: "pending_inv (fst cs) \<Longrightarrow> pending_inv (fst (client_step ev cs))"
proof (cases ev)
  case (COpenTCP address conn)
  assume "pending_inv (fst cs)"
  then show ?thesis by (rule pending_inv_open [where ch = "nextID (fst cs) + 1"]) (simp_all add: COpenTCP)
next
  case (COpenUDP address conn peer)
  assume "pending_inv (fst cs)"
  then show ?thesis by (rule pending_inv_open [where ch = "nextID (fst cs) + 1"]) (simp_all add: COpenUDP)
next
  case (CCopy ch rd ctx_done)
  assume "pending_inv (fst cs)"
  then show ?thesis
    by (simp add: CCopy copyTCPToTunnel_iter_def split_beta Let_def pending_inv_def)
qed (simp add: pending_inv_frame)

lemma pending_inv_run: "pending_inv (fst cs) \<Longrightarrow> pending_inv (fst (client_run evs cs))"
  by (induction evs arbitrary: cs) (simp_all add: pending_inv_step)

text \<open>An open that waits: its channel is pending, and nothing has been sent to its result channel.\<close>

lemma waiting_step:
  assumes "openResults (fst cs) ch = Some k" and "pending_inv (fst cs)" and "\<not> answers ch ev"
    and "opens ev \<longrightarrow> nextID (fst cs) + 1 \<noteq> ch"
  shows "openResults (fst (client_step ev cs)) ch = Some k"
proof (cases ev)
  case (CFrame f)
  then show ?thesis
    using assms(1,3) client_HandleFrame_chans [OF refl, of f "fst cs" "snd cs"]
    by (auto simp: answers_def split: if_splits)
qed (use assms in \<open>auto simp: opens_def copyTCPToTunnel_iter_def split_beta Let_def\<close>)

lemma nextID_step:
  "nextID (fst (client_step ev cs)) = nextID (fst cs) + (if opens ev then 1 else 0)"
  using client_HandleFrame_chans [OF refl, of _ "fst cs" "snd cs"]
  by (cases ev) (auto simp: opens_def copyTCPToTunnel_iter_def split_beta Let_def)

lemma waiting_run:
  assumes "openResults (fst cs) ch = Some k" and "pending_inv (fst cs)"
    and "nextID (fst cs) = ch + of_nat j" and "j + length (filter opens evs) < 2 ^ 32"
    and "\<forall>ev \<in> set evs. \<not> answers ch ev"
  shows "openResults (fst (client_run evs cs)) ch = Some k"
  using assms
proof (induction evs arbitrary: cs j)
  case (Cons ev evs)
  have "opens ev \<longrightarrow> nextID (fst cs) + 1 \<noteq> ch"
  proof
    assume "opens ev"
    then have "Suc j < 2 ^ 32" using Cons.prems(4) by simp
    then have "unat (of_nat (Suc j) :: u32) = Suc j"
      by (simp add: unat_of_nat take_bit_nat_eq_self del: of_nat_Suc)
    then have "of_nat (Suc j) \<noteq> (0 :: u32)" by (metis Zero_not_Suc unat_0)
    then show "nextID (fst cs) + 1 \<noteq> ch" by (simp add: Cons.prems(3) add.assoc add.commute)
  qed
  then have "openResults (fst (client_step ev cs)) ch = Some k"
    using waiting_step Cons.prems by simp
  then show ?case
    using Cons.IH [of "client_step ev cs" "if opens ev then Suc j else j"] Cons.prems
      pending_inv_step [of cs ev] nextID_step [of ev cs]
    by (simp add: algebra_simps split: if_splits)
qed simp

text \<open>A result that has been sent stays.\<close>

lemma result_step:
  assumes "pending_inv (fst cs)" and "chans (fst cs) k = Some err"
  shows "chans (fst (client_step ev cs)) k = Some err"
proof -
  have "openResults (fst cs) ch \<noteq> Some k" for ch
    using assms unfolding pending_inv_def by auto
  note idle = this
  show ?thesis
  proof (cases ev)
    case (CFrame f)
    then show ?thesis
      using assms(2) idle [of "channelID f"] client_HandleFrame_chans [OF refl, of f "fst cs" "snd cs"]
      by (auto split: if_splits option.splits)
  qed (use assms(2) in \<open>simp_all add: copyTCPToTunnel_iter_def split_beta Let_def\<close>)
qed

lemma result_run:
  "pending_inv (fst cs) \<Longrightarrow> chans (fst cs) k = Some err \<Longrightarrow> chans (fst (client_run evs cs)) k = Some err"
  by (induction evs arbitrary: cs) (simp_all add: pending_inv_step result_step)

section \<open>Properties of the client\<close>

text \<open>C21. Every open gets its own answer, once: after any history of the client, the result channel of
  a new TCP open is empty until the first OPENOK or OPENERR frame for its channel is handled, then it
  holds that answer, and nothing that comes later changes it, other opens, answers and closes
  included, as long as fewer than 2^32 other channels are opened while it waits.\<close>

theorem open_gets_its_answer:
  assumes "cs0 = client_run evs0 (newTunnelClient w sv, s0)"
    and "openTCPChannel_start addr conn cs0 = (Inr (ch, k), cs1)"
    and "length (filter opens evs) < 2 ^ 32" and "\<forall>ev \<in> set evs. \<not> answers ch ev"
    and "answers ch (CFrame g)"
    and "cs2 = client_run evs cs1" and "cs3 = client_run (CFrame g # later) cs2"
  shows "open_result what False ch k (fst cs2) = None
    \<and> open_result what False ch k (fst cs3) = Some (ch,
        if ftype g = FrameOPENOK then None else Some (ErrorNew (string_of_bytes (payload g))))"
proof -
  have inv0: "pending_inv (fst cs0)" using assms(1) pending_inv_run pending_inv_new by simp
  have ids: "ch = nextID (fst cs0) + 1" "k = next_chan (fst cs0)"
    using assms(2)
    by (auto simp: openTCPChannel_start_def nextChannel_def split_beta Let_def split: option.splits)
  have cs1: "cs1 = client_step (COpenTCP addr conn) cs0" using assms(2) by simp
  have inv1: "pending_inv (fst cs1)" unfolding cs1 by (rule pending_inv_step [OF inv0])
  have "openResults (fst cs1) ch = Some k" "nextID (fst cs1) = ch + of_nat 0"
    using cs1 ids by simp_all
  then have w: "openResults (fst cs2) ch = Some k"
    using waiting_run [OF _ inv1, of ch k 0 evs] assms(3,4,6) by simp
  have inv2: "pending_inv (fst cs2)" using inv1 pending_inv_run assms(6) by simp
  have "chans (fst cs2) k = None" using inv2 w unfolding pending_inv_def by blast
  moreover have "chans (fst (client_step (CFrame g) cs2)) k
      = Some (if ftype g = FrameOPENOK then None else Some (ErrorNew (string_of_bytes (payload g))))"
    using client_HandleFrame_chans [OF refl, of g "fst cs2" "snd cs2"] w assms(5)
    by (auto simp: answers_def)
  then have "chans (fst cs3) k
      = Some (if ftype g = FrameOPENOK then None else Some (ErrorNew (string_of_bytes (payload g))))"
    unfolding assms(7) client_run.simps by (rule result_run [OF pending_inv_step [OF inv2]])
  ultimately show ?thesis by (simp add: open_result_def)
qed

definition demo_client :: tunnel_client where
  "demo_client = newTunnelClient ((new_network (\<lambda>_ _. None))\<lparr>sockets :=
     [0 \<mapsto> \<lparr>sent = [], conn_open = True, broken = None\<rparr>], next_sock := 1\<rparr>) (\<lambda>_. Inl EOF)"

lemma demo_start:
  "\<exists>cs1. openTCPChannel_start [] 0 (demo_client, demo_session) = (Inr (2, 0), cs1)"
  by (simp add: data_frame_def EncodeAddress_def openTCPChannel_start_def nextChannel_def demo_client_def newTunnelClient_def
      demo_session_def NewSession_def QueueControl_def Push_def NewFrameQueue_def split_beta Let_def)

theorem open_gets_its_answer_witness:
  "let cs1 = snd (openTCPChannel_start [] 0 (demo_client, demo_session));
       cs3 = client_run [CFrame (data_frame FrameOPENERR 3 []), CFrame (data_frame FrameOPENOK 2 []),
               CFrame (data_frame FrameOPENERR 2 [])] cs1
   in open_result [] False 2 0 (fst cs3) = Some (2, None)"
proof -
  obtain cs1 where st: "openTCPChannel_start [] 0 (demo_client, demo_session) = (Inr (2, 0), cs1)"
    using demo_start by blast
  have h: "(demo_client, demo_session) = client_run [] (newTunnelClient ((new_network (\<lambda>_ _. None))\<lparr>sockets :=
     [0 \<mapsto> \<lparr>sent = [], conn_open = True, broken = None\<rparr>], next_sock := 1\<rparr>) (\<lambda>_. Inl EOF), demo_session)"
    by (simp add: demo_client_def)
  have n: "\<forall>ev \<in> set [CFrame (data_frame FrameOPENERR 3 [])]. \<not> answers 2 ev"
    and a: "answers 2 (CFrame (data_frame FrameOPENOK 2 []))"
    by (simp_all add: answers_def data_frame_def)
  have c: "client_run [CFrame (data_frame FrameOPENERR 3 []), CFrame (data_frame FrameOPENOK 2 []),
        CFrame (data_frame FrameOPENERR 2 [])] cs1
      = client_run [CFrame (data_frame FrameOPENOK 2 []), CFrame (data_frame FrameOPENERR 2 [])]
          (client_run [CFrame (data_frame FrameOPENERR 3 [])] cs1)"
    by simp
  have l: "length (filter opens [CFrame (data_frame FrameOPENERR 3 [])]) < 2 ^ 32"
    by (simp add: opens_def)
  note conjunct2 [OF open_gets_its_answer [OF h st l n a refl refl,
      of "[]" "[CFrame (data_frame FrameOPENERR 2 [])]"]]
  then show ?thesis
    unfolding Let_def st snd_conv c by (simp add: data_frame_def)
qed

text \<open>The first half of a CONNECT: the greeting is acknowledged and the channel asked for.\<close>

lemma connect_begin:
  assumes "avail rd = [v, of_nat (length methods)] @ methods @ [v2, 0x01, x] @ header @ rest"
    and "length methods \<le> 255"
    and "(length ip = 4 \<and> header = ip4_header ip port \<and> target = host_port (ip4_string ip) port)
      \<or> (header = name_header host port \<and> length host \<le> 255 \<and> target = host_port host port)"
    and "healthy conn (net c)" and "session_wf s"
    and "control_room s (data_frame FrameOPENTCP (nextID c + 1) (EncodeAddress target))"
    and "handleSocksConn_begin conn rd listen (c, s) = (st, rd2, c2, s2)"
  shows "st = SocksOpening (nextID c + 1) (next_chan c) header \<and> avail rd2 = rest
    \<and> c2 = c\<lparr>net := snd (sock_write conn [0x05, 0x00] (net c)), nextID := nextID c + 1, next_chan := next_chan c + 1,
        tcpConns := (tcpConns c)(nextID c + 1 \<mapsto> conn), openResults := (openResults c)(nextID c + 1 \<mapsto> next_chan c)\<rparr>
    \<and> q_list (controlQ s2) = q_list (controlQ s)
        @ [data_frame FrameOPENTCP (nextID c + 1) (EncodeAddress target)] \<and> dataQ s2 = dataQ s"
proof -
  define w where "w = snd (sock_write conn [0x05, 0x00] (net c))"
  have w: "sock_write conn [0x05, 0x00] (net c) = (None, w)" "healthy conn w"
    "delivered conn w = delivered conn (net c) @ [[0x05, 0x00]]"
    using sock_write_healthy [OF assms(4), of "[0x05, 0x00]"] by (simp_all add: w_def prod_eq_iff)
  obtain atyp hs where h: "header = atyp # hs"
    and rs: "\<And>e. readSocksAddr (rd\<lparr>avail := hs @ rest\<rparr>) atyp = (Inr (target, header), rd\<lparr>avail := rest\<rparr>)"
  proof -
    from assms(3) show thesis
    proof
      assume a: "length ip = 4 \<and> header = ip4_header ip port \<and> target = host_port (ip4_string ip) port"
      then have "readSocksAddr (rd\<lparr>avail := (ip @ put_u16 port) @ rest\<rparr>) 0x01
          = (Inr (target, header), rd\<lparr>avail := rest\<rparr>)"
        by (simp add: readSocksAddr_def read_full_def ip4_header_def IP_String_def To4_def go_slice_def)
      then show thesis using a that [of "0x01" "ip @ put_u16 port"] by (simp add: ip4_header_def)
    next
      assume a: "header = name_header host port \<and> length host \<le> 255 \<and> target = host_port host port"
      then have "readSocksAddr (rd\<lparr>avail := (of_nat (length host) # bytes_of_string host @ put_u16 port) @ rest\<rparr>) 0x03
          = (Inr (target, header), rd\<lparr>avail := rest\<rparr>)"
        by (simp add: readSocksAddr_def read_full_def name_header_def unat_byte_len)
      then show thesis
        using a that [of "0x03" "of_nat (length host) # bytes_of_string host @ put_u16 port"]
        by (simp add: name_header_def)
    qed
  qed
  have "socks_request conn rd (net c) = (Some (0x01, target, header), rd\<lparr>avail := rest\<rparr>, w)"
    using assms(1,2) w(1) rs h
    by (simp add: socks_request_def read_full_def unat_byte_len)
  moreover note QueueControl_list [OF assms(5), of "data_frame FrameOPENTCP (nextID c + 1) (EncodeAddress target)"]
  ultimately show ?thesis
    using assms(6,7)
    by (auto simp: handleSocksConn_begin_def openTCPChannel_start_def nextChannel_def w_def split_beta Let_def)
qed

text \<open>C32. A SOCKS CONNECT request: on a connection that delivers a greeting, the request and a name
  or IPv4 address, the client acknowledges the greeting, queues one OPENTCP frame with the target
  for a new channel that it registers, and waits; when the channel's answer is OPENOK it replies with
  success and the address as sent and starts copying, when it is OPENERR it replies with a failure
  and closes the connection.\<close>

theorem socks_connect:
  assumes "avail rd = [v, of_nat (length methods)] @ methods @ [v2, 0x01, x] @ header @ rest"
    and "length methods \<le> 255"
    and "(length ip = 4 \<and> header = ip4_header ip port \<and> target = host_port (ip4_string ip) port)
      \<or> (header = name_header host port \<and> length host \<le> 255 \<and> target = host_port host port)"
    and "healthy conn (net c)" and "session_wf s"
    and "control_room s (data_frame FrameOPENTCP (nextID c + 1) (EncodeAddress target))"
    and "handleSocksConn_begin conn rd listen (c, s) = (st, rd2, c2, s2)"
  shows "st = SocksOpening (nextID c + 1) (next_chan c) header \<and> avail rd2 = rest
    \<and> delivered conn (net c2) = delivered conn (net c) @ [[0x05, 0x00]]
    \<and> q_list (controlQ s2) = q_list (controlQ s)
        @ [data_frame FrameOPENTCP (nextID c + 1) (EncodeAddress target)]
    \<and> tcpConns c2 (nextID c + 1) = Some conn \<and> openResults c2 (nextID c + 1) = Some (next_chan c)
    \<and> (\<forall>c3 ch k err. net c3 = net c2 \<and> chans c3 k = Some err \<longrightarrow>
        (case err of
           None \<Rightarrow> fst (handleSocksConn_opened conn ch k header False c3) = SocksCopying ch
             \<and> delivered conn (net (snd (handleSocksConn_opened conn ch k header False c3)))
                 = delivered conn (net c) @ [[0x05, 0x00], [0x05, 0x00, 0x00] @ header]
         | Some e \<Rightarrow> fst (handleSocksConn_opened conn ch k header False c3) = SocksDone
             \<and> delivered conn (net (snd (handleSocksConn_opened conn ch k header False c3)))
                 = delivered conn (net c) @ [[0x05, 0x00], socks_reply 0x01]
             \<and> \<not> is_open conn (net (snd (handleSocksConn_opened conn ch k header False c3)))))"
proof -
  define w where "w = snd (sock_write conn [0x05, 0x00] (net c))"
  have w: "healthy conn w" "delivered conn w = delivered conn (net c) @ [[0x05, 0x00]]"
    using sock_write_healthy [OF assms(4), of "[0x05, 0x00]"] by (simp_all add: w_def)
  have "client_write conn data c3 = (None, c3\<lparr>net := snd (sock_write conn data w)\<rparr>)
      \<and> delivered conn (snd (sock_write conn data w)) = delivered conn w @ [data]"
    if "net c3 = w" for c3 data
    using sock_write_healthy [OF w(1), of data] that by (simp add: client_write_def split_beta)
  then show ?thesis
    using connect_begin [OF assms] w(2)
    by (auto simp: handleSocksConn_opened_def open_result_def finish_socks_def simp flip: w_def split: option.splits)
qed

theorem socks_connect_witness:
  "let header = name_header ''ab'' 80;
       rd = \<lparr>avail = [0x05, 1] @ [0] @ [0x05, 0x01, 0] @ header, end_err = EOF\<rparr>
   in fst (handleSocksConn_begin 0 rd (Inl EOF) (demo_client, demo_session)) = SocksOpening 2 0 header"
proof -
  let ?header = "name_header ''ab'' 80"
  let ?rd = "\<lparr>avail = [0x05, 1] @ [0] @ [0x05, 0x01, 0] @ ?header, end_err = EOF\<rparr>"
  have a: "avail ?rd = [0x05, of_nat (length [0 :: byte])] @ [0] @ [0x05, 0x01, 0] @ ?header @ []" by simp
  have n: "nextID demo_client = 1" "next_chan demo_client = 0"
    by (simp_all add: demo_client_def newTunnelClient_def)
  have h: "healthy 0 (net demo_client)" by (simp add: demo_client_def newTunnelClient_def healthy_def)
  have wf: "session_wf demo_session" and e: "q_list (controlQ demo_session) = []"
    using session_wf_New by (simp_all add: demo_session_def New_simps(1) [of Control, simplified])
  have "length (host_port ''ab'' 80) = 5"
    by (simp add: host_port_def JoinHostPort_def decimal.simps)
  then have r: "control_room demo_session (data_frame FrameOPENTCP (nextID demo_client + 1)
      (EncodeAddress (host_port ''ab'' 80)))"
    using e by (simp add: control_room_def data_frame_def EncodeAddress_def)
  obtain st rd2 c2 s2 where run: "handleSocksConn_begin 0 ?rd (Inl EOF) (demo_client, demo_session)
      = (st, rd2, c2, s2)" by (metis prod_cases4)
  from socks_connect [OF a _ _ h wf r run, where ip = "[]" and host = "''ab''" and port = 80] n show ?thesis
    unfolding Let_def run by simp
qed

text \<open>UDP packets from a SOCKS client: a packet of at least ten bytes whose address, a name or an
  IPv4 address, already has a channel is sent on that channel as one UDPDATA frame, which carries a
  single-fragment datagram with the packet's data cut to 1200 bytes, the sending time and a deadline
  of one second; it makes no difference whether that channel still exists.  A shorter packet is
  dropped, even if it is complete.\<close>

theorem udp_associate_forwards:
  assumes "buf = [r0, r1, frag] @ header @ data"
    and "(length ip = 4 \<and> header = ip4_header ip port \<and> target = host_port (ip4_string ip) port)
      \<or> (header = name_header host port \<and> length host \<le> 255 \<and> target = host_port host port)"
    and "m (peer @ ''|'' @ target) = Some ch" and "session_wf s"
    and "dg = \<lparr>dgID = of_int nano, SentMS = of_int milli, DeadlineMS = 1000, FragIndex = 0,
        FragCount = 1, TotalLen = of_nat (min (length data) 1200), udp_datagram.Data = take 1200 data\<rparr>"
    and "g = data_frame FrameUDPDATA ch (EncodeUDPDatagram dg)"
  shows "udp_associate_recv usock buf peer m (c, s)
      = (if length buf < 10 then USkip else USend ch (take 1200 data), c, s)
    \<and> q_list (dataQ (udp_associate_send nano milli ch (take 1200 data) s))
      = q_list (dataQ s) @ (if data_room s g then [g] else [])
    \<and> transmittable g \<and> DecodeUDPDatagram (payload g) = Inr dg"
proof -
  have p: "readPacketAddr (header @ data) = Inr (target, length header)"
  proof -
    from assms(2) show ?thesis
    proof
      assume a: "length ip = 4 \<and> header = ip4_header ip port \<and> target = host_port (ip4_string ip) port"
      then have "length header = 7" by (simp add: ip4_header_def)
      with a readPacketAddr_ip4 show ?thesis by simp
    next
      assume a: "header = name_header host port \<and> length host \<le> 255 \<and> target = host_port host port"
      then have "length header = length host + 4" by (simp add: name_header_def)
      with a readPacketAddr_name show ?thesis by simp
    qed
  qed
  have "drop (3 + length header) buf = data" using assms(1) by (simp add: numeral_3_eq_3)
  then have "udp_associate_recv usock buf peer m (c, s)
      = (if length buf < 10 then USkip else USend ch (take 1200 data), c, s)"
    using p assms(1,3)
    by (simp add: udp_associate_recv_def packetAddrLen_def)
  moreover have "udp_associate_send nano milli ch (take 1200 data) s = snd (QueueData g s)"
    using assms(5,6) by (simp add: udp_associate_send_def min.commute)
  moreover have "transmittable g"
    using assms(5,6) by (simp add: transmittable_def encodable_def data_frame_def zero_frame_def
        KnownFrameType_def)
  moreover have "DecodeUDPDatagram (payload g) = Inr dg" using assms(6) by (simp add: data_frame_def)
  ultimately show ?thesis using QueueData_list [OF assms(4), of g] by simp
qed

theorem udp_associate_forwards_witness:
  "udp_associate_recv 3 ([0, 0, 0] @ ip4_header [10, 0, 0, 1] 53 @ [7, 8]) ''p''
      [''p|'' @ host_port (ip4_string [10, 0, 0, 1]) 53 \<mapsto> 5] (demo_client, demo_session)
    = (USend 5 [7, 8], demo_client, demo_session)
   \<and> udp_associate_recv 3 ([0, 0, 0] @ name_header ''a'' 53) ''p''
      [''p|'' @ host_port ''a'' 53 \<mapsto> 5] (demo_client, demo_session) = (USkip, demo_client, demo_session)"
proof -
  have wf: "session_wf demo_session" using session_wf_New by (simp add: demo_session_def)
  let ?dg = "\<lambda>d. \<lparr>dgID = of_int 1, SentMS = of_int 2, DeadlineMS = 1000, FragIndex = 0, FragCount = 1,
      TotalLen = of_nat (min (length d) 1200), udp_datagram.Data = take 1200 d\<rparr>"
  have "udp_associate_recv 3 ([0, 0, 0] @ ip4_header [10, 0, 0, 1] 53 @ [7, 8]) ''p''
      [''p|'' @ host_port (ip4_string [10, 0, 0, 1]) 53 \<mapsto> 5] (demo_client, demo_session)
    = (if length ([0, 0, 0] @ ip4_header [10, 0, 0, 1] 53 @ [7, 8]) < 10 then USkip
       else USend 5 (take 1200 [7, 8]), demo_client, demo_session)"
    using udp_associate_forwards [OF refl _ _ wf refl refl, where header = "ip4_header [10, 0, 0, 1] 53" and ip = "[10, 0, 0, 1]"
        and port = 53 and target = "host_port (ip4_string [10, 0, 0, 1]) 53"] by simp
  moreover have "udp_associate_recv 3 ([0, 0, 0] @ name_header ''a'' 53 @ []) ''p''
      [''p|'' @ host_port ''a'' 53 \<mapsto> 5] (demo_client, demo_session)
    = (if length ([0, 0, 0] @ name_header ''a'' 53 @ []) < 10 then USkip
       else USend 5 (take 1200 []), demo_client, demo_session)"
    using udp_associate_forwards [OF refl _ _ wf refl refl, where header = "name_header ''a'' 53" and host = "''a''"
        and port = 53 and target = "host_port ''a'' 53" and data = "[]"] by simp
  ultimately show ?thesis by (simp add: ip4_header_def name_header_def)
qed

end
