(* ===== verification/SLPP_Tunnel.thy ===== *)
theory SLPP_Tunnel
  imports SLPP_Server SLPP_Client
begin

text \<open>
  Both ends together: iterations of a session's read loop on the bytes that the other end's write
  loop has put on the wire, and the lemmas that carry the payloads of a channel from the frames that
  were accepted into the queues on one side to the connection on the other.
\<close>

section \<open>Iterating the read loop\<close>

primrec read_iters :: "'h handler \<Rightarrow> int \<Rightarrow> nat \<Rightarrow> 'h \<Rightarrow> session \<Rightarrow> loop_result \<times> 'h \<times> session" where
  "read_iters handle now 0 h s = (Continue, h, s)"
| "read_iters handle now (Suc n) h s =
     (case readLoop_iter handle SelDefault now h s of
        (Return e, h1, s1) \<Rightarrow> (Return e, h1, s1)
      | (Continue, h1, s1) \<Rightarrow> read_iters handle now n h1 s1)"

context session_handler
begin

text \<open>The read loop goes on over frames that the handler takes without an error.\<close>

lemma read_iters_continue:
  assumes "\<And>f h s. ok h \<Longrightarrow> f \<in> F \<Longrightarrow> fst (handle f h s) = None \<and> ok (fst (snd (handle f h s)))"
    and "read_all Decode n (s_reader s) = (Inr fs, r)" and "set fs \<subseteq> F" and "ok h"
  shows "\<exists>h2 s2. read_iters handle now n h s = (Continue, h2, s2) \<and> ok h2"
  using assms(2-4)
proof (induction n arbitrary: h s fs)
  case (Suc n)
  obtain f r1 gs where f: "Decode (s_reader s) = (Inr f, r1)" "fs = f # gs"
    "read_all Decode n r1 = (Inr gs, r)"
    using Suc.prems(1) by (auto split: prod.splits sum.splits)
  define s1 where "s1 = s\<lparr>s_reader := r1, lastActive := now, s_stats := (s_stats s)
      \<lparr>framesIn := framesIn (s_stats s) + 1,
       bytesIn := bytesIn (s_stats s) + of_nat (length (payload f))\<rparr>\<rparr>"
  obtain h2 s2 where h: "handle f h s1 = (None, h2, s2)" "ok h2"
    using assms(1) [of h f s1] Suc.prems(2,3) f(2) by (metis insert_subset list.simps(15) prod.collapse)
  have "s_reader s2 = r1" using handler_queues_only [OF h(1)] by (simp add: queues_only_def s1_def)
  then show ?case
    using Suc.IH [of s2 gs h2] Suc.prems(2) f h by (simp add: readLoop_iter_def Let_def flip: s1_def)
qed simp

end

section \<open>From the queues to the frames on the wire\<close>

lemma of_class_sorted:
  "sorted (map fst log) \<Longrightarrow> map snd log = of_class Control log @ of_class frame_class.Data log"
proof (induction log)
  case (Cons x log)
  show ?case
  proof (cases "fst x")
    case Data
    then have "\<forall>y \<in> set log. fst y = frame_class.Data"
      using Cons.prems by (auto simp: less_eq_frame_class_def split: frame_class.splits)
    then have "of_class Control log = []" "of_class frame_class.Data log = map snd log"
      by (auto simp: of_class_def filter_empty_conv)
    with Data show ?thesis by (simp add: of_class_def)
  qed (use Cons in \<open>simp add: of_class_def\<close>)
qed (simp add: of_class_def)

lemma queued_length: "queued s = length (q_list (controlQ s) @ q_list (dataQ s))"
  by (simp add: queued_def)

text \<open>Enough iterations of the write loop write what is queued: control frames, then data.\<close>

lemma drained_log:
  assumes "ready s" and "queued s \<le> n"
  shows "list_all2 (stamped (s_id s)) (q_list (controlQ s) @ q_list (dataQ s))
     (map snd (event_log wrote (replicate n EvWrite) s))"
proof -
  let ?evs = "replicate n EvWrite"
  let ?log = "event_log wrote ?evs s" and ?t = "apply_events ?evs s"
  note d = drain [OF assms]
  have "\<forall>ev \<in> set ?evs. event_ok ev" by simp
  note eff = events_effect [OF assms(1) this]
  have none: "event_log pushed ?evs s = []" 
    by (induction n arbitrary: s) (simp_all add: pushed_def)
  have "length (q_list (queue_of c ?t)) = 0" for c
    using d by (cases c) (simp_all add: queued_def del: length_0_conv)
  then have e: "q_list (queue_of c ?t) = []" for c by blast
  have "list_all2 (stamped (s_id s)) (q_list (queue_of c s)) (of_class c ?log)" for c
    using eff none e by (simp add: of_class_def)
  from list_all2_appendI [OF this [of Control] this [of frame_class.Data]]
  show ?thesis using of_class_sorted d by simp
qed

definition body :: "frame \<Rightarrow> byte \<times> u32 \<times> byte list" where
  "body f = (ftype f, channelID f, payload f)"

lemma body_stamped: "list_all2 (stamped sid) fs gs \<Longrightarrow> map body gs = map body fs"
proof (induction rule: list_all2_induct)
  case (Cons f fs g gs)
  then obtain x y where "g = f\<lparr>sessionID := x, seqNo := y\<rparr>" unfolding stamped_def by blast
  with Cons show ?case by (simp add: body_def)
qed simp

lemma body_defaults [simp]: "body (frame_defaults f) = body f"
  by (simp add: body_def)

lemma written_bodies:
  assumes "ready s" and "queued s \<le> n"
  shows "map (body \<circ> snd) (event_log wrote (replicate n EvWrite) s)
    = map body (q_list (controlQ s) @ q_list (dataQ s))"
  using body_stamped [OF drained_log [OF assms]] by simp

lemma read_written:
  assumes "ready s" and "\<forall>ev \<in> set evs. event_ok ev" and "log = event_log wrote evs s"
    and "written (s_writer (apply_events evs s)) = written (s_writer s) @ avail r"
  shows "read_all Decode (length log) r = (Inr (map frame_defaults (map snd log)), r\<lparr>avail := []\<rparr>)"
proof -
  note eff = events_effect [OF assms(1,2)]
  have "avail r = concat (map frame_wire (map snd log)) @ []" using eff assms(3,4) by simp
  moreover have "\<forall>f \<in> set (map snd log). transmittable f" using eff assms(3) by auto
  ultimately show ?thesis using codec.read_all_valid [of "map snd log" r "[]"] by simp
qed

definition tcp_payloads :: "u32 \<Rightarrow> frame list \<Rightarrow> byte list list" where
  "tcp_payloads ch fs = map payload (filter (\<lambda>f. ftype f = FrameTCPDATA \<and> channelID f = ch) fs)"

lemma tcp_payloads_simps [simp]:
  "tcp_payloads ch [] = []"
  "tcp_payloads ch (f # fs) =
     (if ftype f = FrameTCPDATA \<and> channelID f = ch then payload f # tcp_payloads ch fs else tcp_payloads ch fs)"
  "tcp_payloads ch (fs @ gs) = tcp_payloads ch fs @ tcp_payloads ch gs"
  by (simp_all add: tcp_payloads_def)

lemma data_in_frames: "data_in ch (map FrameIn fs) = tcp_payloads ch fs"
  by (induction fs) simp_all

lemma tcp_payloads_defaults: "tcp_payloads ch (map (frame_defaults \<circ> g) fs) = tcp_payloads ch (map g fs)"
  by (induction fs) simp_all

lemma tcp_payloads_stamped: "list_all2 (stamped sid) fs gs \<Longrightarrow> tcp_payloads ch gs = tcp_payloads ch fs"
proof (induction rule: list_all2_induct)
  case (Cons f fs g gs)
  then obtain x y where "g = f\<lparr>sessionID := x, seqNo := y\<rparr>"
    unfolding stamped_def by blast
  with Cons show ?case by simp
qed simp

text \<open>TCP data goes through the data queue only, as in the client and the server.\<close>

fun separated :: "session_event \<Rightarrow> bool" where
  "separated (EvQueue Control f) = (ftype f \<noteq> FrameTCPDATA)"
| "separated _ = True"

lemma pushed_control:
  "\<forall>ev \<in> set evs. separated ev \<Longrightarrow> tcp_payloads ch (of_class Control (event_log pushed evs s)) = []"
proof (induction evs arbitrary: s)
  case (Cons ev evs)
  have "tcp_payloads ch (of_class Control (pushed ev s)) = []"
    using Cons.prems
    by (cases ev rule: separated.cases) (auto simp: pushed_def beat_frame_def)
  with Cons show ?case by simp
qed simp

lemma tcp_payloads_classes:
  "tcp_payloads ch (of_class Control log) = [] \<Longrightarrow>
     tcp_payloads ch (map snd log) = tcp_payloads ch (of_class frame_class.Data log)"
proof (induction log)
  case (Cons x log)
  then show ?case by (cases "fst x") (auto split: if_splits)
qed simp

section \<open>The receiving end\<close>

text \<open>
  The end of a tunnel that receives the data of a channel: while it is \<open>good\<close> and the frames
  it handles are such that they keep the channel, each handled frame adds its TCP data to what the
  channel has \<open>got\<close>.
\<close>

locale stream_sink = session_handler handle for handle :: "'h handler" +
  fixes ch :: u32 and keeps :: "frame \<Rightarrow> bool" and good :: "'h \<Rightarrow> bool" and got :: "'h \<Rightarrow> byte list list"
  assumes sink_step: "good h \<Longrightarrow> keeps f \<Longrightarrow> handle f h s = (None, h2, s2) \<Longrightarrow>
      good h2 \<and> got h2 = got h @ tcp_payloads ch [f]"
    and keeps_defaults: "keeps (frame_defaults f) = keeps f"
begin

lemma readLoop_iter_continue:
  assumes "readLoop_iter handle SelDefault now h s = (Continue, h1, s1)"
  obtains f r s0 where "Decode (s_reader s) = (Inr f, r)"
    and "handle f h s0 = (None, h1, s1)" and "s_reader s1 = r"
proof -
  obtain d r where d: "Decode (s_reader s) = (d, r)" by (metis prod.exhaust)
  show thesis
  proof (cases d)
    case (Inl e)
    then show ?thesis using assms d by (simp add: readLoop_iter_def)
  next
    case (Inr f)
    define s0 where "s0 = s\<lparr>s_reader := r, lastActive := now, s_stats := (s_stats s)
      \<lparr>framesIn := framesIn (s_stats s) + 1,
       bytesIn := bytesIn (s_stats s) + of_nat (length (payload f))\<rparr>\<rparr>"
    have h: "handle f h s0 = (None, h1, s1)"
      using assms d Inr unfolding readLoop_iter_def
      by (simp add: Let_def s0_def split: prod.splits option.splits)
    moreover have "s_reader s1 = r"
      using handler_queues_only [OF h] by (simp add: queues_only_def s0_def)
    ultimately show ?thesis using that d Inr by simp
  qed
qed

lemma read_iters_got:
  assumes "good h" and "read_all Decode n (s_reader s) = (Inr fs, r)" and "\<forall>f \<in> set fs. keeps f"
    and "read_iters handle now n h s = (Continue, h2, s2)"
  shows "good h2 \<and> got h2 = got h @ tcp_payloads ch fs"
  using assms
proof (induction n arbitrary: h s fs)
  case (Suc n)
  obtain res h1 s1 where it: "readLoop_iter handle SelDefault now h s = (res, h1, s1)"
    by (metis prod_cases3)
  then have "res = Continue" and rest: "read_iters handle now n h1 s1 = (Continue, h2, s2)"
    using Suc.prems(4) by (auto split: loop_result.splits)
  with it obtain f r1 s0 where f: "Decode (s_reader s) = (Inr f, r1)"
    "handle f h s0 = (None, h1, s1)" "s_reader s1 = r1"
    using readLoop_iter_continue by metis
  then obtain gs where gs: "fs = f # gs" "read_all Decode n (s_reader s1) = (Inr gs, r)"
    using Suc.prems(2) by (auto split: prod.splits sum.splits)
  have step: "good h1" "got h1 = got h @ tcp_payloads ch [f]"
    using sink_step [OF Suc.prems(1) _ f(2)] Suc.prems(3) gs(1) by simp_all
  then show ?case using Suc.IH [OF step(1) gs(2) _ rest] Suc.prems(3) gs(1) by simp
qed simp

text \<open>From the queues of the sending session to this end.\<close>

lemma wire_delivers:
  assumes "ready s" and "\<forall>ev \<in> set evs. event_ok ev \<and> separated ev"
    and "t = apply_events evs s" and "log = event_log wrote evs s"
    and "\<forall>k. tcp_payloads ch (q_list (queue_of k s)) = []"
    and "written (s_writer t) = written (s_writer s) @ avail (s_reader r)"
    and "good h" and "\<forall>x \<in> set log. keeps (snd x)"
    and "read_iters handle now (length log) h r = (Continue, h2, r2)"
  shows "good h2 \<and> (\<exists>ps. got h2 = got h @ ps
    \<and> tcp_payloads ch (map snd (event_log pushed evs s)) = ps @ tcp_payloads ch (q_list (dataQ t)))"
proof -
  have ok: "\<forall>ev \<in> set evs. event_ok ev" and sep: "\<forall>ev \<in> set evs. separated ev"
    using assms(2) by auto
  note eff = events_effect [OF assms(1) ok]
  let ?fs = "map frame_defaults (map snd log)"
  have wire: "written (s_writer (apply_events evs s)) = written (s_writer s) @ avail (s_reader r)"
    using assms(3,6) by simp
  note rd = read_written [OF assms(1) ok assms(4) wire]
  have "\<forall>f \<in> set ?fs. keeps f" using assms(8) keeps_defaults by auto
  then have got: "good h2 \<and> got h2 = got h @ tcp_payloads ch (map snd log)"
    using read_iters_got [OF assms(7) rd _ assms(9)] tcp_payloads_defaults [of ch snd log] by simp
  have cls: "tcp_payloads ch (of_class k (event_log pushed evs s))
      = tcp_payloads ch (of_class k log) @ tcp_payloads ch (q_list (queue_of k t))" for k
  proof -
    obtain fs where fs: "q_list (queue_of k s) @ of_class k (event_log pushed evs s) = fs @ q_list (queue_of k t)"
      and st: "list_all2 (stamped (s_id s)) fs (of_class k log)"
      using eff assms(3,4) by metis
    from arg_cong [OF fs, of "tcp_payloads ch"] show ?thesis
      using assms(5) tcp_payloads_stamped [OF st, of ch] by simp
  qed
  have none: "tcp_payloads ch (of_class Control (event_log pushed evs s)) = []"
    using pushed_control [OF sep] .
  then have "tcp_payloads ch (of_class Control log) = []" using cls [of Control] by simp
  then have "tcp_payloads ch (map snd log) = tcp_payloads ch (of_class frame_class.Data log)"
    by (rule tcp_payloads_classes)
  moreover have "tcp_payloads ch (map snd (event_log pushed evs s))
      = tcp_payloads ch (of_class frame_class.Data (event_log pushed evs s))"
    using none by (rule tcp_payloads_classes)
  ultimately show ?thesis using cls [of frame_class.Data] got by auto
qed

end

text \<open>The server's end of an open channel.\<close>

definition server_keeps :: "u32 \<Rightarrow> nat \<Rightarrow> frame \<Rightarrow> bool" where
  "server_keeps ch c f = keeps_channel ch c (FrameIn f)"

definition server_good :: "u32 \<Rightarrow> nat \<Rightarrow> server \<Rightarrow> bool" where
  "server_good ch c h \<longleftrightarrow> authOK h \<and> carries ch c (tcp h)"

interpretation server_end: stream_sink HandleFrame ch "server_keeps ch c" "server_good ch c"
  "\<lambda>h. delivered c (snd (tcp h))" for ch c
proof unfold_locales
  fix f h s h2 s2
  assume "server_good ch c h" and "server_keeps ch c f" and "HandleFrame f h s = (None, h2, s2)"
  then show "server_good ch c h2 \<and> delivered c (snd (tcp h2)) = delivered c (snd (tcp h)) @ tcp_payloads ch [f]"
    using carries_frame [of ch c h f s] authOK_frame [of h f s] data_in_frames [of ch "[f]"]
    by (simp add: server_good_def server_keeps_def)
qed (simp add: server_keeps_def)

text \<open>The client's end: the connection of the SOCKS client is registered for this channel only.\<close>

definition client_keeps :: "u32 \<Rightarrow> frame \<Rightarrow> bool" where
  "client_keeps ch f \<longleftrightarrow> (channelID f = ch \<longrightarrow> ftype f \<noteq> FrameTCPCLOSE)"

definition client_good :: "u32 \<Rightarrow> nat \<Rightarrow> tunnel_client \<Rightarrow> bool" where
  "client_good ch k c \<longleftrightarrow> tcpConns c ch = Some k \<and> healthy k (net c)
     \<and> (\<forall>ch2. tcpConns c ch2 = Some k \<longrightarrow> ch2 = ch)"

lemma other_conn:
  "j \<noteq> k \<Longrightarrow> healthy k (snd (sock_write j data w)) = healthy k w"
  "j \<noteq> k \<Longrightarrow> delivered k (snd (sock_write j data w)) = delivered k w"
  "j \<noteq> k \<Longrightarrow> healthy k (sock_close j w) = healthy k w"
  "j \<noteq> k \<Longrightarrow> delivered k (sock_close j w) = delivered k w"
  by (simp_all add: healthy_def delivered_def)

lemma client_good_net:
  "client_good ch k c \<Longrightarrow> healthy k w \<Longrightarrow> client_good ch k (c\<lparr>net := w\<rparr>)"
  by (simp add: client_good_def)

lemma client_TCPDATA_good:
  assumes "client_good ch k c"
  shows "client_good ch k (snd (client_TCPDATA f c))
    \<and> delivered k (net (snd (client_TCPDATA f c))) = delivered k (net c)
        @ (if channelID f = ch then [payload f] else [])"
proof (cases "tcpConns c (channelID f)")
  case None
  then have "channelID f \<noteq> ch" using assms by (metis client_good_def option.distinct(1))
  then show ?thesis using assms None by (simp add: client_TCPDATA_def)
next
  case (Some j)
  have up: "snd (client_TCPDATA f c) = c\<lparr>net := snd (sock_write j (payload f) (net c))\<rparr>"
    using Some by (simp add: client_TCPDATA_def split_beta Let_def)
  have k: "healthy k (net c)" using assms unfolding client_good_def by blast
  show ?thesis
  proof (cases "channelID f = ch")
    case True
    then have "j = k" using assms Some by (metis client_good_def option.inject)
    moreover note w = sock_write_healthy [OF k, of "payload f"]
    moreover have "client_good ch k (c\<lparr>net := snd (sock_write k (payload f) (net c))\<rparr>)"
      using w by (intro client_good_net [OF assms]) blast
    ultimately show ?thesis unfolding up using True by simp
  next
    case False
    then have "j \<noteq> k" using assms Some unfolding client_good_def by blast
    then have "client_good ch k (c\<lparr>net := snd (sock_write j (payload f) (net c))\<rparr>)"
      using k by (intro client_good_net [OF assms]) (simp add: other_conn)
    then show ?thesis unfolding up using False other_conn(2) [OF \<open>j \<noteq> k\<close>] by simp
  qed
qed

lemma client_close_good:
  assumes "client_good ch k c" and "ch2 \<noteq> ch"
  shows "client_good ch k (closeTCP ch2 c) \<and> delivered k (net (closeTCP ch2 c)) = delivered k (net c)"
proof -
  have c1: "client_good ch k (c\<lparr>tcpConns := (tcpConns c)(ch2 := None)\<rparr>)"
    using assms unfolding client_good_def by simp
  show ?thesis
  proof (cases "tcpConns c ch2")
    case (Some j)
    then have "j \<noteq> k" using assms unfolding client_good_def by blast
    then show ?thesis
      using client_good_net [OF c1, of "sock_close j (net c)"] c1 Some
      by (simp add: closeTCP_def Let_def other_conn) (simp add: client_good_def)
  qed (use c1 in \<open>simp add: closeTCP_def Let_def\<close>)
qed

lemma client_other_good:
  "client_good ch k (signalOpen ch2 e c) = client_good ch k c" "net (signalOpen ch2 e c) = net c"
  "client_good ch k (closeUDP ch2 c) = client_good ch k c" "net (closeUDP ch2 c) = net c"
  "client_good ch k (snd (client_UDPDATA f c)) = client_good ch k c" "net (snd (client_UDPDATA f c)) = net c"
  by (simp_all add: signalOpen_def closeUDP_def client_UDPDATA_def WriteToUDP_def client_good_def Let_def
      split: option.split sum.split)

interpretation client_end: stream_sink client_HandleFrame ch "client_keeps ch" "client_good ch k"
  "\<lambda>c. delivered k (net c)" for ch k
proof unfold_locales
  fix f c s c2 s2
  assume "client_good ch k c" and "client_keeps ch f" and "client_HandleFrame f c s = (None, c2, s2)"
  then show "client_good ch k c2 \<and> delivered k (net c2) = delivered k (net c) @ tcp_payloads ch [f]"
    using client_TCPDATA_good [of ch k c f] client_close_good [of ch k c "channelID f"]
    by (auto simp: client_HandleFrame_def client_keeps_def client_other_good split_beta Let_def
        split: if_splits)
qed (simp add: client_keeps_def)

lemma client_accepts:
  assumes "client_good ch k c" and "body f = (FrameTCPDATA, ch, p) \<or> ftype f = FrameAUTHOK \<or> ftype f = FrameOPENOK"
  shows "fst (client_HandleFrame f c s) = None \<and> client_good ch k (fst (snd (client_HandleFrame f c s)))"
proof -
  have "fst (client_TCPDATA f c) = None" if "channelID f = ch"
    using assms(1) that sock_write_healthy [of k "net c" "payload f"]
    by (auto simp: client_TCPDATA_def client_good_def split_beta Let_def)
  then show ?thesis
    using assms client_TCPDATA_good [OF assms(1), of f]
    by (auto simp: client_HandleFrame_def body_def client_other_good split_beta Let_def)
qed

end
