(* ===== verification/SLPP_Duplex.thy ===== *)
theory SLPP_Duplex
  imports SLPP_Tunnel "HOL-Library.Sublist"
begin

text \<open>
  What the two programs do to their sessions, as sequences of session events: every step of the
  server (\<open>server_events\<close>) and of the client (\<open>client_events\<close>) changes its session by
  queueing frames and by iterations of the write loop and the heartbeat only, apart from the shared
  counters.  So the results on sessions apply to the programs, in both directions of the tunnel.
\<close>

section \<open>Sessions up to the counters\<close>

definition nostats :: "session \<Rightarrow> session" where
  "nostats s = s\<lparr>s_stats := NewStats 0\<rparr>"

lemma nostats_stats [simp]: "nostats (s\<lparr>s_stats := st\<rparr>) = nostats s"
  by (simp add: nostats_def)

lemma nostats_eqD:
  assumes "nostats s = nostats t"
  shows "controlQ s = controlQ t" "dataQ s = dataQ t" "s_writer s = s_writer t" "s_reader s = s_reader t"
    "s_id s = s_id t" "nextSeq s = nextSeq t" "closed s = closed t" "lastErr s = lastErr t"
    "\<exists>st. s = t\<lparr>s_stats := st\<rparr>"
proof -
  have t: "t = (nostats t)\<lparr>s_stats := s_stats t\<rparr>" by (simp add: nostats_def)
  have "s = (nostats s)\<lparr>s_stats := s_stats s\<rparr>" by (simp add: nostats_def)
  then have s: "s = (nostats t)\<lparr>s_stats := s_stats s\<rparr>" unfolding assms .
  show "controlQ s = controlQ t" "dataQ s = dataQ t" "s_writer s = s_writer t" "s_reader s = s_reader t"
    "s_id s = s_id t" "nextSeq s = nextSeq t" "closed s = closed t" "lastErr s = lastErr t"
    by (subst s, subst t, simp add: nostats_def)+
  show "\<exists>st. s = t\<lparr>s_stats := st\<rparr>"
    by (rule exI [of _ "s_stats s"], subst s) (simp add: nostats_def)
qed

lemma nostats_cong:
  assumes "nostats s = nostats t" and "\<And>st. nostats (g (t\<lparr>s_stats := st\<rparr>)) = nostats (g t)"
  shows "nostats (g s) = nostats (g t)"
  using nostats_eqD(9) [OF assms(1)] assms(2) by auto

lemma nostats_record: "nostats (record_queue_bytes s) = nostats s"
  by (simp add: record_queue_bytes_def)

lemma nostats_QueueControl:
  "nostats s = nostats t \<Longrightarrow> nostats (snd (QueueControl f s)) = nostats (snd (QueueControl f t))"
  by (erule nostats_cong, simp add: QueueControl_def split_beta Let_def nostats_record)
    (simp add: nostats_def)

lemma nostats_QueueData:
  "nostats s = nostats t \<Longrightarrow> nostats (snd (QueueData f s)) = nostats (snd (QueueData f t))"
  by (erule nostats_cong, simp add: QueueData_def split_beta Let_def nostats_record)
    (simp add: nostats_def)

lemma stamp_stats: "stamp f (s\<lparr>s_stats := st\<rparr>) = (fst (stamp f s), (snd (stamp f s))\<lparr>s_stats := st\<rparr>)"
  by (simp add: stamp_def Let_def)

lemma nostats_writeFrame:
  "nostats s = nostats t \<Longrightarrow> nostats (snd (writeFrame f s)) = nostats (snd (writeFrame f t))"
  by (erule nostats_cong, simp add: writeFrame_def stamp_stats split_beta Let_def split: option.split)
    (simp add: nostats_def)

lemma snd_case_option: "snd (case r of (Some e, s1) \<Rightarrow> (Return (Some e), s1) | (None, s1) \<Rightarrow> (Continue, s1)) = snd r"
  by (cases r; cases "fst r") auto

lemma nostats_writeLoop:
  assumes "nostats s = nostats t"
  shows "nostats (snd (writeLoop_iter SelDefault s)) = nostats (snd (writeLoop_iter SelDefault t))"
proof -
  have q: "controlQ s = controlQ t" "dataQ s = dataQ t" using nostats_eqD [OF assms] by simp_all
  have c: "nostats (s\<lparr>controlQ := q\<rparr>) = nostats (t\<lparr>controlQ := q\<rparr>)"
    and d: "nostats (s\<lparr>dataQ := q\<rparr>) = nostats (t\<lparr>dataQ := q\<rparr>)" for q
    by (rule nostats_cong [OF assms], simp add: nostats_def)+
  show ?thesis
  proof (cases "fst (Pop (controlQ t))")
    case None
    show ?thesis
    proof (cases "fst (Pop (dataQ t))")
      case None2: None
      with None show ?thesis using assms by (simp add: writeLoop_iter_def q split_beta)
    next
      case (Some f)
      then show ?thesis using None nostats_writeFrame [OF d]
        by (cases "Pop (controlQ t)"; cases "Pop (dataQ t)") (simp add: writeLoop_iter_def q snd_case_option)
    qed
  next
    case (Some f)
    then show ?thesis using nostats_writeFrame [OF c]
      by (cases "Pop (controlQ t)") (simp add: writeLoop_iter_def q snd_case_option)
  qed
qed

lemma nostats_heartbeat:
  assumes "nostats s = nostats t"
  shows "nostats (snd (heartbeatLoop_iter SelDefault s)) = nostats (snd (heartbeatLoop_iter SelDefault t))"
proof -
  have "nostats (s\<lparr>nextSeq := n\<rparr>) = nostats (t\<lparr>nextSeq := n\<rparr>)" for n
    by (rule nostats_cong [OF assms], simp add: nostats_def)
  from nostats_QueueControl [OF this] show ?thesis
    using nostats_eqD(5,6) [OF assms] by (simp add: heartbeatLoop_iter_def Let_def snd_case_option)
qed

lemma nostats_event:
  assumes "nostats s = nostats t"
  shows "nostats (apply_event ev s) = nostats (apply_event ev t)"
proof (cases ev)
  case (EvQueue k f)
  then show ?thesis using nostats_QueueControl [OF assms] nostats_QueueData [OF assms] by (cases k) simp_all
qed (use nostats_writeLoop [OF assms] nostats_heartbeat [OF assms] in simp_all)

lemma nostats_events: "nostats s = nostats t \<Longrightarrow> nostats (apply_events evs s) = nostats (apply_events evs t)"
proof (induction evs arbitrary: s t)
  case (Cons ev evs)
  from Cons.IH [OF nostats_event [OF Cons.prems]] show ?case by simp
qed simp

lemma pushed_wrote_nostats:
  assumes "nostats s = nostats t"
  shows "pushed ev s = pushed ev t" and "wrote ev s = wrote ev t"
proof -
  note eq = nostats_eqD(1-6) [OF assms]
  have "beat_frame s = beat_frame t" by (simp add: beat_frame_def eq)
  then show "pushed ev s = pushed ev t" by (simp only: pushed_def eq)
  have "fst (stamp f s) = fst (stamp f t)" for f by (simp add: stamp_def eq Let_def)
  then show "wrote ev s = wrote ev t" by (simp only: wrote_def eq)
qed

lemma event_log_nostats:
  "nostats s = nostats t \<Longrightarrow> event_log pushed evs s = event_log pushed evs t"
  "nostats s = nostats t \<Longrightarrow> event_log wrote evs s = event_log wrote evs t"
proof -
  show "nostats s = nostats t \<Longrightarrow> event_log pushed evs s = event_log pushed evs t"
  proof (induction evs arbitrary: s t)
    case (Cons ev evs)
    from Cons.IH [OF nostats_event [OF Cons.prems]] pushed_wrote_nostats [OF Cons.prems] show ?case by simp
  qed simp
  show "nostats s = nostats t \<Longrightarrow> event_log wrote evs s = event_log wrote evs t"
  proof (induction evs arbitrary: s t)
    case (Cons ev evs)
    from Cons.IH [OF nostats_event [OF Cons.prems]] pushed_wrote_nostats [OF Cons.prems] show ?case by simp
  qed simp
qed

declare apply_events_append [simp]

lemma event_log_append: "event_log what (xs @ ys) s = event_log what xs s @ event_log what ys (apply_events xs s)"
  by (induction xs arbitrary: s) simp_all

section \<open>The server's steps as session events\<close>

definition reply_events :: "frame \<Rightarrow> server \<Rightarrow> session_event list" where
  "reply_events f h =
     (if \<not> authOK h \<and> ftype f \<noteq> FrameAUTH then []
      else if ftype f = FrameAUTH then
        (case DecodeAuthPayload (payload f) of
           Inl _ \<Rightarrow> []
         | Inr p \<Rightarrow>
             (case fst (Validate (map_order h (tokens (validator h))) (now_ns h) (later_ns h)
                   (Token p) (Nonce p) (validator h)) of
                Some e \<Rightarrow> [EvQueue Control (reply FrameAUTHERR 0 (error_text e))]
              | None \<Rightarrow> [EvQueue Control (reply FrameAUTHOK 0 [])]))
      else if ftype f = FramePING then [EvQueue Control (reply FramePONG 0 [])]
      else if ftype f = FrameOPENTCP \<or> ftype f = FrameOPENUDP then
        (case DecodeAddress (payload f) of
           Inl _ \<Rightarrow> []
         | Inr addr \<Rightarrow>
             (case (if ftype f = FrameOPENTCP then dial_error (snd (tcp h)) ''tcp'' addr
                    else dial_error (snd (udp h)) ''udp'' addr) of
                Some e \<Rightarrow> [EvQueue Control (reply FrameOPENERR (channelID f) (error_text e))]
              | None \<Rightarrow> [EvQueue Control (reply FrameOPENOK (channelID f) [])]))
      else [])"

definition copy_events :: "u32 \<Rightarrow> read_result \<Rightarrow> session_event list" where
  "copy_events ch rd =
     (if fst rd \<noteq> [] then [EvQueue frame_class.Data (data_frame FrameTCPDATA ch (fst rd))] else [])
     @ (if snd rd \<noteq> None then [EvQueue Control (data_frame FrameTCPCLOSE ch [])] else [])"

definition udp_read_events :: "int \<Rightarrow> u32 \<Rightarrow> read_result \<Rightarrow> session_event list" where
  "udp_read_events nano ch rd =
     (if fst rd \<noteq> [] then
        (case FragmentUDP (fst rd) (of_int nano) 1000 of
           Inl _ \<Rightarrow> []
         | Inr frags \<Rightarrow> map (\<lambda>d. EvQueue frame_class.Data
             (data_frame FrameUDPDATA ch (EncodeUDPDatagram d))) frags)
      else [])
     @ (if snd rd \<noteq> None then [EvQueue Control (data_frame FrameUDPCLOSE ch [])] else [])"

definition server_events :: "server_event \<Rightarrow> server \<Rightarrow> session_event list" where
  "server_events ev h =
     (case ev of
        FrameIn f \<Rightarrow> reply_events f h
      | CopyTCP ch c rd \<Rightarrow> if (ch, c) \<in> set (tcopiers (fst (tcp h))) then copy_events ch rd else []
      | ReadUDP nano ch c rd \<Rightarrow>
          if (ch, c) \<in> set (ureaders (fst (udp h))) then udp_read_events nano ch rd else []
      | WriteIter \<Rightarrow> [EvWrite]
      | BeatIter \<Rightarrow> [EvBeat]
      | _ \<Rightarrow> [])"

primrec server_trace :: "server_event list \<Rightarrow> server \<times> session \<Rightarrow> session_event list" where
  "server_trace [] hs = []"
| "server_trace (ev # evs) hs = server_events ev (fst hs) @ server_trace evs (serve_event ev hs)"

lemma opened_events:
  "nostats (snd (opened ch err s)) = nostats (apply_events (case err of
     Some e \<Rightarrow> [EvQueue Control (reply FrameOPENERR ch (error_text e))]
   | None \<Rightarrow> [EvQueue Control (reply FrameOPENOK ch [])]) s)"
  by (cases err) (simp_all add: opened_def nostats_QueueControl [of "s\<lparr>s_stats := _\<rparr>" s])

lemma HandleFrame_events:
  "nostats (snd (snd (HandleFrame f h s))) = nostats (apply_events (reply_events f h) s)"
proof -
  have au: "nostats (snd (snd (handle_AUTH f h s))) = nostats (apply_events (reply_events f h) s)"
    if "ftype f = FrameAUTH"
    using that nostats_QueueControl [of "s\<lparr>s_stats := AddAuthFailure (s_stats s)\<rparr>" s]
    by (auto simp: handle_AUTH_def reply_events_def split_beta Let_def split: sum.split option.split prod.split)
  show ?thesis
    using au opened_events
    by (auto simp: HandleFrame_def reply_events_def handle_OPENTCP_def handle_OPENUDP_def
        handle_UDPDATA_def split_beta Let_def TCP_Open_error UDP_Open_error split: sum.split)
qed

lemma copy_steps: "snd (snd (copyRemoteToTunnel_iter ch c rd rw s)) = apply_events (copy_events ch rd) s"
  by (cases rd) (simp add: copyRemoteToTunnel_iter_def copy_events_def split_beta Let_def)

lemma udp_read_steps: "snd (snd (UDP_readLoop_iter nano ch c rd rw s)) = apply_events (udp_read_events nano ch rd) s"
proof -
  have "fold (\<lambda>d s. snd (QueueData (data_frame FrameUDPDATA ch (EncodeUDPDatagram d)) s)) ds s
      = apply_events (map (\<lambda>d. EvQueue frame_class.Data (data_frame FrameUDPDATA ch (EncodeUDPDatagram d))) ds) s"
    for ds s by (induction ds arbitrary: s) simp_all
  then show ?thesis
    by (cases rd) (simp add: UDP_readLoop_iter_def udp_read_events_def split_beta Let_def split: sum.split)
qed

lemma serve_event_events:
  "nostats (snd (serve_event ev hs)) = nostats (apply_events (server_events ev (fst hs)) (snd hs))"
proof (cases ev)
  case (FrameIn f)
  then show ?thesis using HandleFrame_events [of f "fst hs" "snd hs"] by (simp add: server_events_def)
next
  case (CopyTCP ch c rd)
  then show ?thesis by (simp add: server_events_def split_beta Let_def copy_steps)
next
  case (ReadUDP nano ch c rd)
  then show ?thesis by (simp add: server_events_def split_beta Let_def udp_read_steps)
qed (simp_all add: server_events_def)

lemma serve_trace:
  "nostats (snd (serve evs hs)) = nostats (apply_events (server_trace evs hs) (snd hs))"
proof (induction evs arbitrary: hs)
  case (Cons ev evs)
  show ?case
    using Cons.IH [of "serve_event ev hs"]
      nostats_events [OF serve_event_events [of ev hs], of "server_trace evs (serve_event ev hs)"] by simp
qed simp

text \<open>What the server queues can be transmitted, and its TCP data goes through the data queue.\<close>

lemma new_frame_simps:
  "ftype (reply ty ch t) = ty" "ftype (data_frame ty ch p) = ty"
  "channelID (reply ty ch t) = ch" "channelID (data_frame ty ch p) = ch"
  "payload (reply ty ch t) = bytes_of_string t" "payload (data_frame ty ch p) = p"
  by (simp_all add: reply_def data_frame_def)

definition good_events :: "session_event list \<Rightarrow> bool" where
  "good_events evs \<longleftrightarrow> (\<forall>x \<in> set evs. event_ok x \<and> separated x)"

lemma good_events_simps [simp]:
  "good_events []" "good_events (x # xs) \<longleftrightarrow> event_ok x \<and> separated x \<and> good_events xs"
  "good_events (xs @ ys) \<longleftrightarrow> good_events xs \<and> good_events ys"
  by (auto simp: good_events_def)

lemma good_events_map: "(\<And>d. d \<in> set ds \<Longrightarrow> event_ok (g d) \<and> separated (g d)) \<Longrightarrow> good_events (map g ds)"
  by (auto simp: good_events_def)

lemma copy_events_ok: "read_ok 16384 rd \<Longrightarrow> good_events (copy_events ch rd)"
  by (simp add: copy_events_def read_ok_def transmittable_data_frame new_frame_simps)

lemma udp_read_events_ok: "good_events (udp_read_events nano ch rd)"
proof -
  have "good_events (map (\<lambda>d. EvQueue frame_class.Data (data_frame FrameUDPDATA ch (EncodeUDPDatagram d))) ds)"
    if "FragmentUDP (fst rd) (of_int nano) 1000 = Inr ds" for ds
    using frags_fit [OF that] by (intro good_events_map) (simp add: transmittable_data_frame)
  then show ?thesis
    by (simp add: udp_read_events_def transmittable_data_frame new_frame_simps split: sum.split)
qed

lemma reply_events_ok: "dials_short h \<Longrightarrow> good_events (reply_events f h)"
  using Validate_short
  by (auto simp: reply_events_def transmittable_reply new_frame_simps dials_short_def short_errors_def
      split: sum.split option.split)

lemma server_events_ok: "dials_short h \<Longrightarrow> event_fine ev \<Longrightarrow> good_events (server_events ev h)"
  by (cases ev) (simp_all add: server_events_def copy_events_ok udp_read_events_ok reply_events_ok)

lemma server_trace_ok:
  "dials_short (fst hs) \<Longrightarrow> \<forall>ev \<in> set evs. event_fine ev \<Longrightarrow> good_events (server_trace evs hs)"
proof (induction evs arbitrary: hs)
  case (Cons ev evs)
  then show ?case
    using server_events_ok [of "fst hs" ev] dials_short_event [of hs ev] Cons.IH [of "serve_event ev hs"]
    by simp
qed simp

section \<open>The data a program queues\<close>

fun queued_frames :: "session_event list \<Rightarrow> frame list" where
  "queued_frames [] = []"
| "queued_frames (EvQueue k f # evs) = f # queued_frames evs"
| "queued_frames (_ # evs) = queued_frames evs"

lemma queued_frames_append [simp]: "queued_frames (xs @ ys) = queued_frames xs @ queued_frames ys"
  by (induction xs rule: queued_frames.induct) simp_all

text \<open>A queue that is full drops frames; it neither adds nor reorders any.\<close>

lemma pushed_subseq:
  "subseq (tcp_payloads ch (map snd (event_log pushed evs s))) (tcp_payloads ch (queued_frames evs))"
proof (induction evs arbitrary: s rule: queued_frames.induct)
  case (2 k f evs)
  have "subseq (tcp_payloads ch (map snd (pushed (EvQueue k f) s))) (tcp_payloads ch [f])"
    by (cases k) (auto simp: pushed_def)
  from list_emb_append_mono [OF this "2.IH" [of "apply_event (EvQueue k f) s"]] show ?case
    by (auto simp del: tcp_payloads_simps(3) simp flip: tcp_payloads_simps(3) split: if_splits)
qed (simp_all add: pushed_def beat_frame_def)

text \<open>What the server's copy loops of a channel have read.\<close>

definition copied_on :: "u32 \<Rightarrow> server_event \<Rightarrow> server \<Rightarrow> byte list list" where
  "copied_on ch ev h =
     (case ev of
        CopyTCP ch2 c rd \<Rightarrow>
          if ch2 = ch \<and> (ch2, c) \<in> set (tcopiers (fst (tcp h))) \<and> fst rd \<noteq> [] then [fst rd] else []
      | _ \<Rightarrow> [])"

primrec remote_reads :: "u32 \<Rightarrow> server_event list \<Rightarrow> server \<times> session \<Rightarrow> byte list list" where
  "remote_reads ch [] hs = []"
| "remote_reads ch (ev # evs) hs = copied_on ch ev (fst hs) @ remote_reads ch evs (serve_event ev hs)"

lemma server_events_data: "tcp_payloads ch (queued_frames (server_events ev h)) = copied_on ch ev h"
proof (cases ev)
  case (FrameIn f)
  then show ?thesis
    by (simp add: server_events_def copied_on_def reply_events_def new_frame_simps
        split: sum.split option.split)
next
  case (ReadUDP nano c rd)
  have "tcp_payloads ch (queued_frames (map (\<lambda>d. EvQueue k (data_frame FrameUDPDATA c2 (g d))) ds)) = []"
    for k c2 g and ds :: "udp_datagram list"
    by (induction ds) (simp_all add: new_frame_simps)
  then show ?thesis
    by (simp add: ReadUDP server_events_def copied_on_def udp_read_events_def new_frame_simps
        split: sum.split)
qed (auto simp: server_events_def copied_on_def copy_events_def new_frame_simps)

lemma server_trace_data: "tcp_payloads ch (queued_frames (server_trace evs hs)) = remote_reads ch evs hs"
  by (induction evs arbitrary: hs) (simp_all add: server_events_data)



text \<open>A demonstration: the server opens a channel, reads two bytes from the remote end, and writes.\<close>

definition demo_open :: frame where
  "demo_open = data_frame FrameOPENTCP 2 (EncodeAddress ''a:1'')"

definition demo_run :: "server_event list" where
  "demo_run = [FrameIn demo_auth, FrameIn demo_open, CopyTCP 2 0 ([5, 6], None), WriteIter, WriteIter, WriteIter]"

lemma demo_authenticated:
  "authOK (fst (serve_event (FrameIn demo_auth) (demo_server, s)))"
  "tcp (fst (serve_event (FrameIn demo_auth) (demo_server, s))) = (NewTCPRelay, new_network (\<lambda>_ _. None))"
  "reply_events demo_auth demo_server = [EvQueue Control (reply FrameAUTHOK 0 [])]"
proof -
  have "authenticates (FrameIn demo_auth) demo_server" by (rule demo_auth_ok)
  then show "reply_events demo_auth demo_server = [EvQueue Control (reply FrameAUTHOK 0 [])]"
    and "authOK (fst (serve_event (FrameIn demo_auth) (demo_server, s)))"
    by (auto simp: authenticates_def reply_events_def HandleFrame_def handle_AUTH_def split_beta Let_def
        split: sum.splits option.splits prod.splits)
  show "tcp (fst (serve_event (FrameIn demo_auth) (demo_server, s))) = (NewTCPRelay, new_network (\<lambda>_ _. None))"
    by (simp add: HandleFrame_tcp demo_server_def new_handler_def)
qed

lemma demo_trace:
  "server_trace demo_run (demo_server, s)
     = [EvQueue Control (reply FrameAUTHOK 0 []), EvQueue Control (reply FrameOPENOK 2 []),
        EvQueue frame_class.Data (data_frame FrameTCPDATA 2 [5, 6]), EvWrite, EvWrite, EvWrite]"
  "remote_reads 2 demo_run (demo_server, s) = [[5, 6]]"
proof -
  note hs1 = demo_authenticated(1,2) [of s]
  define hs2 where "hs2 = serve_event (FrameIn demo_open) (serve_event (FrameIn demo_auth) (demo_server, s))"
  have d: "DecodeAddress (payload demo_open) = Inr ''a:1''"
    using DecodeAddress_Encode [of "''a:1''" "[]"] by (simp add: demo_open_def new_frame_simps)
  have o: "ftype demo_open = FrameOPENTCP" "channelID demo_open = 2"
    by (simp_all add: demo_open_def new_frame_simps)
  have "(2, 0) \<in> set (tcopiers (fst (tcp (fst hs2))))"
    using hs1 d o by (simp add: hs2_def HandleFrame_tcp TCP_Open_def dial_def new_network_def
        NewTCPRelay_def Register_def Let_def split_beta)
  moreover have "reply_events demo_open (fst (serve_event (FrameIn demo_auth) (demo_server, s)))
      = [EvQueue Control (reply FrameOPENOK 2 [])]"
    using hs1 d o by (simp add: reply_events_def new_network_def)
  ultimately show "server_trace demo_run (demo_server, s)
     = [EvQueue Control (reply FrameAUTHOK 0 []), EvQueue Control (reply FrameOPENOK 2 []),
        EvQueue frame_class.Data (data_frame FrameTCPDATA 2 [5, 6]), EvWrite, EvWrite, EvWrite]"
    and "remote_reads 2 demo_run (demo_server, s) = [[5, 6]]"
    unfolding demo_run_def server_trace.simps remote_reads.simps hs2_def [symmetric]
    by (simp_all add: server_events_def copied_on_def copy_events_def demo_authenticated(3)
        del: serve_event.simps(1))
qed

lemma demo_flush:
  defines "q \<equiv> apply_events [EvQueue Control (reply FrameAUTHOK 0 []), EvQueue Control (reply FrameOPENOK 2 []),
    EvQueue frame_class.Data (data_frame FrameTCPDATA 2 [5, 6])] demo_session"
  shows "ready q" and "q_list (controlQ q) = [reply FrameAUTHOK 0 [], reply FrameOPENOK 2 []]"
    and "q_list (dataQ q) = [data_frame FrameTCPDATA 2 [5, 6]]"
proof -
  let ?a = "reply FrameAUTHOK 0 []" and ?o = "reply FrameOPENOK 2 []" and ?d = "data_frame FrameTCPDATA 2 [5, 6]"
  let ?s1 = "snd (QueueControl ?a demo_session)" and ?s2 = "snd (QueueControl ?o (snd (QueueControl ?a demo_session)))"
  have r0: "ready demo_session" by (simp add: demo_session_def ready_New)
  have e: "q_list (controlQ demo_session) = []" "q_list (dataQ demo_session) = []"
    using New_simps(1) [of Control] New_simps(1) [of frame_class.Data]
    by (simp_all add: demo_session_def queue_of_def)
  have wf: "session_wf demo_session" using r0 by (simp add: ready_def)
  note s1 = QueueControl_list [OF wf, of ?a]
  note s2 = QueueControl_list [OF s1(4), of ?o]
  note s3 = QueueData_list [OF s2(4), of ?d]
  have c1: "q_list (controlQ ?s1) = [?a]" using s1 e by (simp add: control_room_def payload_bytes_def new_frame_simps del: length_q_list)
  have c2: "q_list (controlQ ?s2) = [?a, ?o]" using s2 c1 by (simp add: control_room_def payload_bytes_def new_frame_simps del: length_q_list)
  have d2: "q_list (dataQ ?s2) = []" using s1 s2 e by simp
  show "q_list (controlQ q) = [?a, ?o]" "q_list (dataQ q) = [?d]"
    using c2 d2 s3 by (simp_all add: q_def data_room_def payload_bytes_def new_frame_simps del: length_q_list)
  show "ready q"
    using r0 by (simp add: q_def ready_control ready_data transmittable_reply transmittable_data_frame)
qed


end
