(* ===== verification/SLPP_Bench.thy ===== *)
theory SLPP_Bench
  imports SLPP_Frame
begin

text \<open>
  The codec benchmark, \<^verbatim>\<open>internal/bench/bench.go\<close>: it encodes one frame again and again,
  each time into an empty buffer, and reports the time between two readings of the clock.
\<close>

record bench_result =
  bench_Name :: string
  Duration :: int
  Bytes :: int
  Iterations :: int

definition bench_frame :: frame where
  "bench_frame = zero_frame\<lparr>ftype := FrameTCPDATA, payload := replicate 1024 0x61\<rparr>"

definition empty_buffer :: writer where
  "empty_buffer = \<lparr>written = [], room = None, write_err = EOF\<rparr>"

text \<open>The loop: its buffers, which the code drops, one for each iteration.\<close>

primrec bench_loop :: "nat \<Rightarrow> writer list" where
  "bench_loop 0 = []"
| "bench_loop (Suc n) = snd (Encode bench_frame empty_buffer) # bench_loop n"

definition CodecEncode :: "int \<Rightarrow> int \<Rightarrow> int \<Rightarrow> bench_result \<times> writer list" where
  "CodecEncode iterations start stop =
     (\<lparr>bench_Name = ''codec_encode'', Duration = stop - start, Bytes = 1024,
       Iterations = iterations\<rparr>, bench_loop (nat iterations))"

text \<open>Every iteration encodes the frame completely: header and payload, 1044 bytes.\<close>

lemma bench_frame_encodable: "encodable bench_frame"
  by (simp add: bench_frame_def encodable_def zero_frame_def KnownFrameType_def)

lemma bench_iterations:
  "length (snd (CodecEncode n t0 t1)) = nat n
   \<and> (\<forall>w \<in> set (snd (CodecEncode n t0 t1)). written w = frame_wire bench_frame)"
proof -
  have "snd (Encode bench_frame empty_buffer) = empty_buffer\<lparr>written := frame_wire bench_frame\<rparr>"
    using bench_frame_encodable by (simp add: Encode_ok empty_buffer_def)
  then have "length (bench_loop k) = k \<and> (\<forall>w \<in> set (bench_loop k). written w = frame_wire bench_frame)" for k
    by (induction k) simp_all
  then show ?thesis by (simp add: CodecEncode_def)
qed

end
