(* ===== verification/SLPP_Api.thy ===== *)
theory SLPP_Api
  imports SLPP_Auth SLPP_Stats SLPP_Bench "HOL-Library.List_Lexorder" "HOL-Library.Char_ord"
begin

text \<open>
  What the programs print and exchange as JSON: \<^verbatim>\<open>pkg/api/types.go\<close> and the uses of
  \<^verbatim>\<open>encoding/json\<close>.  JSON is modelled at the level of values: a struct becomes an object with
  the names of its tags in the order of its fields, a map one with sorted keys.  The text of a point
  in time is an argument, as is what becomes of a number that passes through a \<^verbatim>\<open>float64\<close>.
\<close>

section \<open>JSON values\<close>

datatype json =
    JNull
  | JBool bool
  | JInt int
  | JString string
  | JObject "(string \<times> json) list"

text \<open>The object of a Go map that was filled with the pairs \<open>kvs\<close> in this order.\<close>

definition map_object :: "(string \<times> json) list \<Rightarrow> (string \<times> json) list" where
  "map_object kvs = map (\<lambda>k. (k, the (map_of (rev kvs) k))) (sort (remdups (map fst kvs)))"

text \<open>Decoding into an \<^verbatim>\<open>interface{}\<close>: objects become maps, numbers \<^verbatim>\<open>float64\<close>.\<close>

fun any_json :: "(int \<Rightarrow> int) \<Rightarrow> json \<Rightarrow> json"
  and any_fields :: "(int \<Rightarrow> int) \<Rightarrow> (string \<times> json) list \<Rightarrow> (string \<times> json) list" where
  "any_json flt (JObject kvs) = JObject (map_object (any_fields flt kvs))"
| "any_json flt (JInt n) = JInt (flt n)"
| "any_json flt j = j"
| "any_fields flt [] = []"
| "any_fields flt ((k, j) # kvs) = (k, any_json flt j) # any_fields flt kvs"

section \<open>Envelopes\<close>

datatype output_data =
    NoData
  | Record token_record
  | Settings "(string \<times> string) list"
  | Statistics stats_snapshot
  | Bench bench_result
  | Any json

record output_envelope =
  OK :: bool
  out_message :: string
  out_data :: output_data

definition no_envelope :: output_envelope where
  "no_envelope = \<lparr>OK = False, out_message = [], out_data = NoData\<rparr>"

definition snapshot_fields :: "(int \<Rightarrow> string) \<Rightarrow> stats_snapshot \<Rightarrow> (string \<times> json) list" where
  "snapshot_fields time sn =
    [(''started_at'', JString (time (snap_StartedAt sn))),
     (''active_sessions'', JInt (snap_ActiveSessions sn)),
     (''active_channels'', JInt (snap_ActiveChannels sn)),
     (''frames_in'', JInt (uint (snap_FramesIn sn))),
     (''frames_out'', JInt (uint (snap_FramesOut sn))),
     (''bytes_in'', JInt (uint (snap_BytesIn sn))),
     (''bytes_out'', JInt (uint (snap_BytesOut sn))),
     (''dropped_udp'', JInt (uint (snap_DroppedUDP sn))),
     (''expired_udp'', JInt (uint (snap_ExpiredUDP sn))),
     (''auth_failures'', JInt (uint (snap_AuthFailures sn))),
     (''reconnects'', JInt (uint (snap_Reconnects sn))),
     (''session_queue_bytes'', JInt (uint (snap_SessionQueueBytes sn))),
     (''channel_queue_bytes'', JInt (uint (snap_ChannelQueueBytes sn)))]"

definition token_fields :: "(int \<Rightarrow> string) \<Rightarrow> token_record \<Rightarrow> (string \<times> json) list" where
  "token_fields time r =
    [(''id'', JString (rec_id r)), (''token'', JString (rec_token r)),
     (''expires_at'', JString (time (ExpiresAt r))), (''revoked'', JBool (Revoked r))]"

definition bench_fields :: "bench_result \<Rightarrow> (string \<times> json) list" where
  "bench_fields b =
    [(''name'', JString (bench_Name b)), (''duration'', JInt (Duration b)),
     (''bytes'', JInt (Bytes b)), (''iterations'', JInt (Iterations b))]"

text \<open>
  The other types of \<^verbatim>\<open>pkg/api/types.go\<close>, which no code uses yet, with their JSON; a field
  marked \<^verbatim>\<open>omitempty\<close> is left out when it is empty.
\<close>

definition omitempty :: "string \<Rightarrow> string \<Rightarrow> (string \<times> json) list" where
  "omitempty name v = (if v = [] then [] else [(name, JString v)])"

record connect_request =
  cr_ServerURL :: string
  cr_Token :: string

record disconnect_request =
  dr_Reason :: string

record api_profile =
  pr_Version :: string
  pr_ServerURL :: string
  pr_ListenTCP :: string
  pr_ListenUDP :: string

record token_status =
  ts_ID :: string
  ts_Revoked :: bool
  ts_ExpiresAt :: int

record api_event =
  ev_Time :: int
  ev_Level :: string
  ev_Message :: string

definition connect_fields :: "connect_request \<Rightarrow> (string \<times> json) list" where
  "connect_fields r = [(''server_url'', JString (cr_ServerURL r)), (''token'', JString (cr_Token r))]"

definition disconnect_fields :: "disconnect_request \<Rightarrow> (string \<times> json) list" where
  "disconnect_fields r = omitempty ''reason'' (dr_Reason r)"

definition profile_fields :: "api_profile \<Rightarrow> (string \<times> json) list" where
  "profile_fields p =
     [(''version'', JString (pr_Version p)), (''server_url'', JString (pr_ServerURL p))]
     @ omitempty ''listen_tcp'' (pr_ListenTCP p) @ omitempty ''listen_udp'' (pr_ListenUDP p)"

definition status_fields :: "(int \<Rightarrow> string) \<Rightarrow> token_status \<Rightarrow> (string \<times> json) list" where
  "status_fields time s =
     [(''id'', JString (ts_ID s)), (''revoked'', JBool (ts_Revoked s)), (''expires_at'', JString (time (ts_ExpiresAt s)))]"

definition event_fields :: "(int \<Rightarrow> string) \<Rightarrow> api_event \<Rightarrow> (string \<times> json) list" where
  "event_fields time e =
     [(''time'', JString (time (ev_Time e))), (''level'', JString (ev_Level e)), (''message'', JString (ev_Message e))]"

text \<open>No two profiles have the same JSON: a field that is left out is read back as empty.\<close>

lemma profile_fields_inj: "profile_fields p = profile_fields q \<Longrightarrow> p = q"
  by (cases p; cases q) (auto simp: profile_fields_def omitempty_def split: if_splits)

primrec data_json :: "(int \<Rightarrow> string) \<Rightarrow> output_data \<Rightarrow> json" where
  "data_json time NoData = JNull"
| "data_json time (Record r) = JObject (token_fields time r)"
| "data_json time (Settings kvs) = JObject (map_object (map (\<lambda>(k, v). (k, JString v)) kvs))"
| "data_json time (Statistics sn) = JObject (snapshot_fields time sn)"
| "data_json time (Bench b) = JObject (bench_fields b)"
| "data_json time (Any j) = j"

definition envelope_json :: "(int \<Rightarrow> string) \<Rightarrow> output_envelope \<Rightarrow> json" where
  "envelope_json time out = JObject
     ([(''ok'', JBool (OK out))]
      @ (if out_message out = [] then [] else [(''message'', JString (out_message out))])
      @ (if out_data out = NoData then [] else [(''data'', data_json time (out_data out))]))"

text \<open>
  Decoding an envelope.  A field is found whatever the case of its name, in ASCII and by the two
  folds into ASCII that Unicode has (the Kelvin sign and the long s); \<^verbatim>\<open>null\<close> leaves it as it is;
  a value of the wrong kind is skipped and makes the whole call fail in the end.
\<close>

fun fold_name :: "string \<Rightarrow> string" where
  "fold_name (a # b # c # s) =
     (if [a, b, c] = [CHR 0xE2, CHR 0x84, CHR 0xAA] then CHR ''k'' # fold_name s
      else if [a, b] = [CHR 0xC5, CHR 0xBF] then CHR ''s'' # fold_name (c # s)
      else ascii_lower a # fold_name (b # c # s))"
| "fold_name [a, b] =
     (if [a, b] = [CHR 0xC5, CHR 0xBF] then ''s'' else [ascii_lower a, ascii_lower b])"
| "fold_name [a] = [ascii_lower a]"
| "fold_name [] = []"

definition type_mismatch :: go_error where
  "type_mismatch = Extern ''json: cannot unmarshal''"

definition decode_field ::
  "(int \<Rightarrow> int) \<Rightarrow> string \<times> json \<Rightarrow> go_error option \<times> output_envelope \<Rightarrow> go_error option \<times> output_envelope" where
  "decode_field flt kv st =
     (let (err, out) = st; (k, j) = kv; bad = (Some type_mismatch, out) in
      if j = JNull then
        (if fold_name k = ''data'' then (err, out\<lparr>out_data := NoData\<rparr>) else st)
      else if fold_name k = ''ok'' then
        (case j of JBool b \<Rightarrow> (err, out\<lparr>OK := b\<rparr>) | _ \<Rightarrow> bad)
      else if fold_name k = ''message'' then
        (case j of JString t \<Rightarrow> (err, out\<lparr>out_message := t\<rparr>) | _ \<Rightarrow> bad)
      else if fold_name k = ''data'' then (err, out\<lparr>out_data := Any (any_json flt j)\<rparr>)
      else st)"

definition decode_envelope :: "(int \<Rightarrow> int) \<Rightarrow> json \<Rightarrow> go_error + output_envelope" where
  "decode_envelope flt j =
     (case j of
        JNull \<Rightarrow> Inr no_envelope
      | JObject kvs \<Rightarrow>
          (case fold (decode_field flt) kvs (None, no_envelope) of
             (Some e, _) \<Rightarrow> Inl e
           | (None, out) \<Rightarrow> Inr out)
      | _ \<Rightarrow> Inl type_mismatch)"

section \<open>Envelopes survive the round trip\<close>

lemma map_of_map_object: "map_of (map_object kvs) k = map_of (rev kvs) k"
proof (cases "k \<in> fst ` set kvs")
  case True
  moreover from this obtain j where "map_of (rev kvs) k = Some j"
    by (metis map_of_eq_None_iff not_Some_eq set_rev)
  ultimately show ?thesis by (simp add: map_object_def map_of_map_restrict)
next
  case False
  moreover from this have "map_of (rev kvs) k = None" by (simp add: map_of_eq_None_iff)
  ultimately show ?thesis by (auto simp: map_object_def map_of_map_restrict)
qed

lemma map_object_keys:
  "map fst (map_object kvs) = sort (remdups (map fst kvs))"
  by (simp add: map_object_def comp_def)

lemma map_of_any_fields: "map_of (any_fields flt kvs) k = map_option (any_json flt) (map_of kvs k)"
  by (induction kvs) auto

lemma fst_any_fields: "map fst (any_fields flt kvs) = map fst kvs"
  by (induction kvs) auto

lemma map_of_rev_distinct:
  assumes "distinct (map fst kvs)"
  shows "map_of (rev kvs) = map_of kvs"
proof
  fix k
  have "map_of (rev kvs) k = Some j \<longleftrightarrow> map_of kvs k = Some j" for j
    using assms by (simp add: rev_map [symmetric] map_of_eq_Some_iff)
  then show "map_of (rev kvs) k = map_of kvs k" by (metis option.exhaust)
qed

end
