(* ===== verification/SLPP_Admin.thy ===== *)
theory SLPP_Admin
  imports SLPP_Api
begin

text \<open>
  The token commands of the server program, \<^verbatim>\<open>cmd/slppd/main.go\<close>: \<^verbatim>\<open>check\<close>,
  \<^verbatim>\<open>gen-token\<close> and \<^verbatim>\<open>revoke-token\<close>, each a process of its own that loads the token
  file, works on its own store and writes the file back.
\<close>

section \<open>Commands\<close>

definition checkServerMain :: "string \<Rightarrow> string \<Rightarrow> disk \<Rightarrow> go_error + output_envelope" where
  "checkServerMain listen tokenFile dk =
     (case NewStore dk tokenFile of
        Inl e \<Rightarrow> Inl e
      | Inr _ \<Rightarrow> Inr \<lparr>OK = True, out_message = ''configuration valid'',
          out_data = Settings [(''listen'', listen), (''token_file'', tokenFile)]\<rparr>)"

definition genTokenMain ::
  "string \<Rightarrow> int \<Rightarrow> int \<Rightarrow> go_error + byte list \<Rightarrow> go_error + byte list \<Rightarrow> string list \<Rightarrow> write_outcome
     \<Rightarrow> disk \<Rightarrow> (go_error + output_envelope) \<times> disk" where
  "genTokenMain tokenFile ttl now rnd_token rnd_id ks wr dk =
     (case NewStore dk tokenFile of
        Inl e \<Rightarrow> (Inl e, dk)
      | Inr st \<Rightarrow>
          (case Generate now ttl rnd_token rnd_id ks wr (st, dk) of
             ((r, Some e), _, dk1) \<Rightarrow> (Inl e, dk1)
           | ((r, None), _, dk1) \<Rightarrow>
               (Inr \<lparr>OK = True, out_message = [], out_data = Record r\<rparr>, dk1)))"

definition revokeTokenMain ::
  "string \<Rightarrow> string \<Rightarrow> string list \<Rightarrow> write_outcome \<Rightarrow> disk \<Rightarrow> (go_error + output_envelope) \<times> disk" where
  "revokeTokenMain tokenFile ident ks wr dk =
     (case NewStore dk tokenFile of
        Inl e \<Rightarrow> (Inl e, dk)
      | Inr st \<Rightarrow>
          (case Revoke ident ks wr (st, dk) of
             (Some e, _, dk1) \<Rightarrow> (Inl e, dk1)
           | (None, _, dk1) \<Rightarrow>
               (Inr \<lparr>OK = True, out_message = ''token revoked'', out_data = NoData\<rparr>, dk1)))"

section \<open>Properties of the token commands\<close>

lemma NewStore_file:
  "p \<noteq> [] \<Longrightarrow> dk p = TokenFile recs \<Longrightarrow>
     NewStore dk p = Inr \<lparr>store_path = p, tokens = load_tokens recs, replay = Map.empty\<rparr>"
  by (simp add: NewStore_def)

lemma NewStore_flushed:
  assumes "p \<noteq> []" and "ids_agree m" and "range_order m ks"
  shows "NewStore (dk(p := TokenFile (range_values m ks))) p
    = Inr \<lparr>store_path = p, tokens = m, replay = Map.empty\<rparr>"
  using NewStore_file [OF assms(1), of "dk(p := TokenFile (range_values m ks))"]
    load_range_order [OF assms(2,3)] by simp

text \<open>C36. A generated token works: if \<^verbatim>\<open>gen-token\<close> succeeds and the token it drew is not in the
  file already, a server that then loads the file accepts exactly this token until the moment it
  expires, once for each nonce, and refuses it afterwards; the records that were in the file under
  other identifiers are kept.\<close>

theorem generated_token_works:
  assumes "p \<noteq> []" and "dk p = TokenFile recs"
    and "genTokenMain p ttl now (Inr tokenBytes) (Inr idBytes) ks WriteOK dk = (Inr env, dk1)"
    and "r = \<lparr>rec_id = RawURLEncoding idBytes, rec_token = RawURLEncoding tokenBytes,
        ExpiresAt = now + ttl, Revoked = False\<rparr>"
    and "range_order ((load_tokens recs)(rec_id r \<mapsto> r)) ks"
    and "unique_tokens ((load_tokens recs)(rec_id r \<mapsto> r))"
  shows "\<exists>s. NewStore dk1 p = Inr s \<and> out_data env = Record r
    \<and> (fst (Validate ks t t2 (rec_token r) nonce s) = None \<longleftrightarrow> t \<le> now + ttl)
    \<and> (\<forall>i. i \<noteq> rec_id r \<longrightarrow> tokens s i = load_tokens recs i)"
proof -
  let ?m = "(load_tokens recs)(rec_id r \<mapsto> r)"
  let ?s = "\<lparr>store_path = p, tokens = ?m, replay = Map.empty\<rparr>"
  have "ids_agree ?m" using load_tokens_ids by (simp add: ids_agree_def)
  then have "NewStore (dk(p := TokenFile (range_values ?m ks))) p = Inr ?s"
    by (rule NewStore_flushed [OF assms(1) _ assms(5)])
  moreover have "dk1 = dk(p := TokenFile (range_values ?m ks))" "out_data env = Record r"
    using assms(1,3,4) NewStore_file [of p dk recs, OF assms(1,2)]
    by (auto simp: genTokenMain_def Generate_def flushLocked_def Let_def)
  moreover have "fst (Validate ks t t2 (rec_token r) nonce ?s) = None \<longleftrightarrow> t \<le> now + ttl"
  proof -
    have m: "matching ?s ks (rec_token r) = Some r"
      by (rule matching_unique [where i = "rec_id r"]) (use assms(5,6) in simp_all)
    have "ExpiresAt r = now + ttl" "\<not> Revoked r" using assms(4) by simp_all
    then show ?thesis
      unfolding Validate_def m by (auto simp: Let_def)
  qed
  ultimately show ?thesis by simp
qed

theorem generated_token_works_witness:
  "let dk = (\<lambda>_. NoFile)(''f'' := TokenFile []);
       dk1 = snd (genTokenMain ''f'' 50 10 (Inr [1, 2, 3]) (Inr [4, 5, 6]) [RawURLEncoding [4, 5, 6]] WriteOK dk)
   in \<exists>s. NewStore dk1 ''f'' = Inr s
      \<and> fst (Validate [RawURLEncoding [4, 5, 6]] 60 60 (RawURLEncoding [1, 2, 3]) (replicate 12 3) s) = None"
proof -
  let ?dk = "(\<lambda>_. NoFile)(''f'' := TokenFile [])" and ?ks = "[RawURLEncoding [4, 5, 6]]"
  define r where "r = \<lparr>rec_id = RawURLEncoding [4, 5, 6], rec_token = RawURLEncoding [1, 2, 3],
    ExpiresAt = 10 + 50, Revoked = False\<rparr>"
  obtain env dk1 where g: "genTokenMain ''f'' 50 10 (Inr [1, 2, 3]) (Inr [4, 5, 6]) ?ks WriteOK ?dk = (Inr env, dk1)"
    by (simp add: genTokenMain_def NewStore_def load_tokens_def Generate_def flushLocked_def Let_def)
  have o: "range_order ((load_tokens [])(rec_id r \<mapsto> r)) ?ks" "unique_tokens ((load_tokens [])(rec_id r \<mapsto> r))"
    by (auto simp: range_order_def unique_tokens_def load_tokens_def r_def)
  have f: "''f'' \<noteq> []" "?dk ''f'' = TokenFile []" by simp_all
  from generated_token_works [OF f g r_def o, of 60 60 "replicate 12 3"] show ?thesis
    unfolding Let_def g by (auto simp: r_def)
qed

text \<open>C37. \<^verbatim>\<open>revoke-token\<close> does not reach a running server: a server that loaded the file before
  the command goes on accepting the revoked token with fresh nonces until it expires, while one that
  loads the file after it refuses it.\<close>

theorem revoke_misses_running_server:
  assumes "p \<noteq> []" and "dk p = TokenFile recs" and "tokens running i = Some r"
    and "NewStore dk p = Inr running"
    and "range_order (tokens running) ks" and "unique_tokens (tokens running)"
    and "\<not> Revoked r" and "t \<le> ExpiresAt r"
    and "revokeTokenMain p i ks WriteOK dk = (res, dk1)"
  shows "(\<exists>env. res = Inr env)
    \<and> fst (Validate ks t t2 (rec_token r) nonce running) = None
    \<and> (\<exists>later. NewStore dk1 p = Inr later \<and> fst (Validate ks t t2 (rec_token r) nonce later) \<noteq> None)"
proof -
  have run: "running = \<lparr>store_path = p, tokens = load_tokens recs, replay = Map.empty\<rparr>"
    using NewStore_file [of p dk recs, OF assms(1,2)] assms(4) by simp
  define r2 where "r2 = r\<lparr>Revoked := True\<rparr>"
  let ?m = "(load_tokens recs)(i \<mapsto> r2)"
  have i: "load_tokens recs i = Some r" using assms(3) run by simp
  then have "rec_id r = i" using load_tokens_ids [of recs] by (simp add: ids_agree_def)
  then have "ids_agree ?m" using load_tokens_ids [of recs] by (simp add: ids_agree_def r2_def)
  moreover have ord: "range_order ?m ks"
    using assms(5) i run by (auto simp: range_order_def)
  ultimately have later: "NewStore (dk(p := TokenFile (range_values ?m ks))) p
      = Inr \<lparr>store_path = p, tokens = ?m, replay = Map.empty\<rparr>" (is "_ = Inr ?later")
    by (rule NewStore_flushed [OF assms(1)])
  have rv: "dk1 = dk(p := TokenFile (range_values ?m ks))" "\<exists>env. res = Inr env"
    using assms(1,9) NewStore_file [of p dk recs, OF assms(1,2)] i
    by (auto simp: revokeTokenMain_def Revoke_def flushLocked_def Let_def r2_def)
  have "all_revoked (rec_token r) (tokens ?later)"
    using assms(6) i run unfolding unique_tokens_def all_revoked_def by (auto simp: r2_def)
  then have "fst (Validate ks t t2 (rec_token r) nonce ?later) \<noteq> None"
    using ord by (intro all_revoked_refused) simp_all
  moreover have "fst (Validate ks t t2 (rec_token r) nonce running) = None"
    using matching_unique [OF assms(5,6,3) refl] assms(7,8) run
    by (simp add: Validate_def Let_def)
  ultimately show ?thesis using rv later by blast
qed

theorem revoke_misses_running_server_witness:
  "fst (Validate [''id1''] 20 20 ''tok'' (replicate 12 3) demo_store) = None
   \<and> (\<exists>later. NewStore (snd (revokeTokenMain ''tokens.json'' ''id1'' [''id1''] WriteOK
          ((\<lambda>_. NoFile)(''tokens.json'' := TokenFile [demo_record])))) ''tokens.json'' = Inr later
        \<and> fst (Validate [''id1''] 20 20 ''tok'' (replicate 12 3) later) \<noteq> None)"
proof -
  let ?dk = "(\<lambda>_. NoFile)(''tokens.json'' := TokenFile [demo_record])"
  obtain res dk1 where r: "revokeTokenMain ''tokens.json'' ''id1'' [''id1''] WriteOK ?dk = (res, dk1)"
    by (metis prod.exhaust)
  have h: "''tokens.json'' \<noteq> []" "?dk ''tokens.json'' = TokenFile [demo_record]"
    "tokens demo_store ''id1'' = Some demo_record" "NewStore ?dk ''tokens.json'' = Inr demo_store"
    "range_order (tokens demo_store) [''id1'']" "unique_tokens (tokens demo_store)"
    "\<not> Revoked demo_record" "20 \<le> ExpiresAt demo_record"
    by (auto simp: demo_store_def demo_record_def range_order_def unique_tokens_def NewStore_def load_tokens_def)
  have "rec_token demo_record = ''tok''" by (simp add: demo_record_def)
  with revoke_misses_running_server [OF h r, of 20 "replicate 12 3"] show ?thesis by (simp add: r)
qed

end
