(* ===== verification/SLPP_TimerWheel.thy ===== *)
theory SLPP_TimerWheel
  imports SLPP_Stats
begin

text \<open>
  The timer wheel, \<^verbatim>\<open>internal/core/timerwheel.go\<close>: a table of tasks by key, scanned at each
  tick for the tasks whose deadline has come.  A task's function is a value of type \<open>'f\<close>;
  \<^verbatim>\<open>fireExpired\<close> returns the functions it is going to call.
\<close>

section \<open>State and operations\<close>

record 'f timer_task =
  tkey :: string
  deadline :: int
  tfn :: 'f

record 'f timer_wheel =
  interval :: int
  stopped :: bool
  tasks :: "string \<rightharpoonup> 'f timer_task"

definition NewTimerWheel :: "int \<Rightarrow> 'f timer_wheel" where
  "NewTimerWheel iv = \<lparr>interval = iv, stopped = False, tasks = Map.empty\<rparr>"

definition Schedule :: "int \<Rightarrow> string \<Rightarrow> int \<Rightarrow> 'f \<Rightarrow> 'f timer_wheel \<Rightarrow> 'f timer_wheel" where
  "Schedule now key delay fn tw =
     tw\<lparr>tasks := (tasks tw)(key \<mapsto> \<lparr>tkey = key, deadline = now + delay, tfn = fn\<rparr>)\<rparr>"

definition Cancel :: "string \<Rightarrow> 'f timer_wheel \<Rightarrow> 'f timer_wheel" where
  "Cancel key tw = tw\<lparr>tasks := (tasks tw)(key := None)\<rparr>"

text \<open>Closing the stop channel a second time panics.\<close>

definition Stop :: "'f timer_wheel \<Rightarrow> 'f timer_wheel option" where
  "Stop tw = (if stopped tw then None else Some (tw\<lparr>stopped := True\<rparr>))"

text \<open>The range over the tasks, in the order \<open>ks\<close>, removes the due ones as it goes.\<close>

fun fire_range :: "int \<Rightarrow> string list \<Rightarrow> 'f timer_wheel \<Rightarrow> 'f list \<times> 'f timer_wheel" where
  "fire_range now [] tw = ([], tw)"
| "fire_range now (k # ks) tw =
     (case tasks tw k of
        None \<Rightarrow> fire_range now ks tw
      | Some task \<Rightarrow>
          if \<not> deadline task > now then
            (let (due, tw1) = fire_range now ks (tw\<lparr>tasks := (tasks tw)(k := None)\<rparr>)
             in (tfn task # due, tw1))
          else fire_range now ks tw)"

definition fireExpired :: "int \<Rightarrow> string list \<Rightarrow> 'f timer_wheel \<Rightarrow> 'f list \<times> 'f timer_wheel" where
  "fireExpired now ks tw = fire_range now ks tw"

text \<open>An iteration of \<^verbatim>\<open>Run\<close>: the branch its \<^verbatim>\<open>select\<close> takes; \<open>None\<close> is its return.\<close>

datatype wheel_select = Tick int "string list" | StopSeen

definition Run_iter :: "wheel_select \<Rightarrow> 'f timer_wheel \<Rightarrow> ('f list \<times> 'f timer_wheel) option" where
  "Run_iter sel tw = (case sel of Tick now ks \<Rightarrow> Some (fireExpired now ks tw) | StopSeen \<Rightarrow> None)"

section \<open>Lemmas\<close>

interpretation timer_table: registry "\<lambda>k tw. tasks tw k" "\<lambda>k t tw. tw\<lparr>tasks := (tasks tw)(k \<mapsto> t)\<rparr>" Cancel
  by unfold_locales (simp_all add: Cancel_def)

definition due :: "int \<Rightarrow> 'f timer_wheel \<Rightarrow> string \<Rightarrow> bool" where
  "due now tw k = (case tasks tw k of None \<Rightarrow> False | Some t \<Rightarrow> deadline t \<le> now)"

lemma fire_range_tasks:
  "tasks (snd (fire_range now ks tw)) k = (if k \<in> set ks \<and> due now tw k then None else tasks tw k)"
proof (induction now ks tw rule: fire_range.induct)
  case (2 now j ks tw)
  then show ?case
    by (auto simp: due_def Let_def split_beta split: option.splits)
qed simp

lemma fire_range_due:
  "distinct ks \<Longrightarrow> fst (fire_range now ks tw)
     = map (\<lambda>k. tfn (the (tasks tw k))) (filter (due now tw) ks)"
proof (induction now ks tw rule: fire_range.induct)
  case (2 now j ks tw)
  show ?case
  proof (cases "due now tw j")
    case False
    then show ?thesis using 2 by (auto simp: due_def split: option.splits)
  next
    case True
    then obtain t where t: "tasks tw j = Some t" "deadline t \<le> now"
      by (auto simp: due_def split: option.splits)
    let ?tw = "tw\<lparr>tasks := (tasks tw)(j := None)\<rparr>"
    have "filter (due now ?tw) ks = filter (due now tw) ks"
      using 2(4) by (intro filter_cong) (auto simp: due_def)
    moreover have "map (\<lambda>k. tfn (the (tasks ?tw k))) (filter (due now tw) ks)
        = map (\<lambda>k. tfn (the (tasks tw k))) (filter (due now tw) ks)"
      using 2(4) by (intro map_cong) auto
    ultimately show ?thesis using 2(2) [OF t(1)] 2(4) t True by (simp add: split_beta)
  qed
qed simp

section \<open>A wheel at work\<close>

datatype 'f wheel_event = DoSchedule int string int 'f | DoCancel string | DoTick int "string list"

primrec wheel_step :: "'f wheel_event \<Rightarrow> 'f timer_wheel \<Rightarrow> 'f timer_wheel" where
  "wheel_step (DoSchedule now key delay fn) tw = Schedule now key delay fn tw"
| "wheel_step (DoCancel key) tw = Cancel key tw"
| "wheel_step (DoTick now ks) tw = snd (fireExpired now ks tw)"

primrec touches :: "string \<Rightarrow> 'f wheel_event \<Rightarrow> bool" where
  "touches k (DoSchedule now key delay fn) = (key = k)"
| "touches k (DoCancel key) = (key = k)"
| "touches k (DoTick now ks) = False"

text \<open>The times of the ticks at which the task under a key is called.\<close>

fun fired_at :: "string \<Rightarrow> 'f wheel_event list \<Rightarrow> 'f timer_wheel \<Rightarrow> int list" where
  "fired_at k [] tw = []"
| "fired_at k (DoTick now ks # evs) tw =
     (if k \<in> set ks \<and> due now tw k then [now] else []) @ fired_at k evs (wheel_step (DoTick now ks) tw)"
| "fired_at k (ev # evs) tw = fired_at k evs (wheel_step ev tw)"

fun tick_times :: "'f wheel_event list \<Rightarrow> int list" where
  "tick_times [] = []"
| "tick_times (DoTick now ks # evs) = now # tick_times evs"
| "tick_times (ev # evs) = tick_times evs"

text \<open>Every tick ranges over all the keys that are in the table then.\<close>

fun ranges_ok :: "'f wheel_event list \<Rightarrow> 'f timer_wheel \<Rightarrow> bool" where
  "ranges_ok [] tw = True"
| "ranges_ok (DoTick now ks # evs) tw =
     (distinct ks \<and> set ks = dom (tasks tw) \<and> ranges_ok evs (wheel_step (DoTick now ks) tw))"
| "ranges_ok (ev # evs) tw = ranges_ok evs (wheel_step ev tw)"

lemma fired_absent:
  "tasks tw k = None \<Longrightarrow> \<forall>ev \<in> set evs. \<not> touches k ev \<Longrightarrow> fired_at k evs tw = []"
proof (induction k evs tw rule: fired_at.induct)
  case (2 k now ks evs tw)
  then show ?case by (simp add: due_def fireExpired_def fire_range_tasks)
qed (auto simp: Schedule_def Cancel_def)

lemma fired_present:
  assumes "tasks tw k = Some t" and "\<forall>ev \<in> set evs. \<not> touches k ev" and "ranges_ok evs tw"
  shows "fired_at k evs tw = (case filter (\<lambda>now. deadline t \<le> now) (tick_times evs) of [] \<Rightarrow> [] | now # _ \<Rightarrow> [now])"
  using assms
proof (induction k evs tw rule: fired_at.induct)
  case (2 k now ks evs tw)
  have mem: "k \<in> set ks" using 2(2,4) by auto
  show ?case
  proof (cases "deadline t \<le> now")
    case True
    have "tasks (wheel_step (DoTick now ks) tw) k = None"
      using mem True 2(2) by (simp add: fireExpired_def fire_range_tasks due_def)
    then have "fired_at k evs (wheel_step (DoTick now ks) tw) = []"
      using fired_absent 2(3) by simp
    then show ?thesis using True mem 2(2) by (simp add: due_def)
  next
    case False
    then have "tasks (wheel_step (DoTick now ks) tw) k = Some t"
      using 2(2) by (simp add: fireExpired_def fire_range_tasks due_def)
    then show ?thesis using 2 False by (simp add: due_def)
  qed
qed (auto simp: Schedule_def Cancel_def)

section \<open>Property of the timer wheel\<close>



text \<open>A tick calls the functions of exactly the due tasks, each once, in the order of the range,
  removes exactly these tasks and keeps the others.\<close>

theorem tick_runs_due_tasks:
  assumes "distinct ks" and "set ks = dom (tasks tw)"
  shows "fst (fireExpired now ks tw) = map (\<lambda>k. tfn (the (tasks tw k))) (filter (due now tw) ks)
    \<and> tasks (snd (fireExpired now ks tw)) = (\<lambda>k. if due now tw k then None else tasks tw k)"
proof
  show "fst (fireExpired now ks tw) = map (\<lambda>k. tfn (the (tasks tw k))) (filter (due now tw) ks)"
    using fire_range_due [OF assms(1)] by (simp add: fireExpired_def)
  show "tasks (snd (fireExpired now ks tw)) = (\<lambda>k. if due now tw k then None else tasks tw k)"
  proof
    fix k
    have "due now tw k \<Longrightarrow> k \<in> set ks" using assms(2) by (auto simp: due_def split: option.splits)
    then show "tasks (snd (fireExpired now ks tw)) k = (if due now tw k then None else tasks tw k)"
      by (auto simp: fireExpired_def fire_range_tasks)
  qed
qed

theorem tick_runs_due_tasks_witness:
  "let tw = Schedule 0 ''b'' 3 (2 :: nat) (Schedule 0 ''a'' 10 1 (NewTimerWheel 1))
   in fst (fireExpired 5 [''a'', ''b''] tw) = [2]"
proof -
  let ?tw = "Schedule 0 ''b'' 3 (2 :: nat) (Schedule 0 ''a'' 10 1 (NewTimerWheel 1))"
  have "set [''a'', ''b''] = dom (tasks ?tw)"
    by (auto simp: Schedule_def NewTimerWheel_def)
  with tick_runs_due_tasks [of "[''a'', ''b'']" ?tw 5] show ?thesis
    by (simp add: due_def Schedule_def NewTimerWheel_def)
qed

end
