(* ===== verification/SLPP_Flag.thy ===== *)
theory SLPP_Flag
  imports SLPP_Prelude
begin

text \<open>
  Command lines.  Both programs read their options with Go's package \<^verbatim>\<open>flag\<close>: a command
  declares its flags with their defaults and calls \<^verbatim>\<open>Parse\<close> on a \<^verbatim>\<open>FlagSet\<close> made with
  \<^verbatim>\<open>ExitOnError\<close>.  A flag set is the list of its flags with their current values.  The
  number syntax of integer and duration flags (\<^verbatim>\<open>strconv.ParseInt\<close> with base 0,
  \<^verbatim>\<open>time.ParseDuration\<close>) is an argument; two commands of \<^verbatim>\<open>slppd\<close> have one such flag.
\<close>

section \<open>Flag sets\<close>

datatype flag_value = BoolFlag bool | StringFlag string | IntFlag int | DurationFlag int

type_synonym flag_set = "(string \<times> flag_value) list"

record number_syntax =
  int_syntax :: "string \<Rightarrow> int option"
  duration_syntax :: "string \<Rightarrow> int option"

datatype flag_error =
    ErrHelp
  | BadSyntax string
  | Undefined string
  | NeedsArgument string
  | InvalidValue string string

text \<open>\<^verbatim>\<open>strconv.ParseBool\<close>.\<close>

definition ParseBool :: "string \<Rightarrow> bool option" where
  "ParseBool s =
     (if s \<in> set [''1'', ''t'', ''T'', ''true'', ''TRUE'', ''True''] then Some True
      else if s \<in> set [''0'', ''f'', ''F'', ''false'', ''FALSE'', ''False''] then Some False
      else None)"

text \<open>The method \<^verbatim>\<open>Set\<close> of the flag's value.\<close>

primrec value_Set :: "number_syntax \<Rightarrow> string \<Rightarrow> flag_value \<Rightarrow> flag_value option" where
  "value_Set ns s (BoolFlag b) = map_option BoolFlag (ParseBool s)"
| "value_Set ns s (StringFlag t) = Some (StringFlag s)"
| "value_Set ns s (IntFlag n) = map_option IntFlag (int_syntax ns s)"
| "value_Set ns s (DurationFlag d) = map_option DurationFlag (duration_syntax ns s)"

definition is_bool_flag :: "flag_value \<Rightarrow> bool" where
  "is_bool_flag v = (case v of BoolFlag _ \<Rightarrow> True | _ \<Rightarrow> False)"

definition assign_flag :: "string \<Rightarrow> flag_value \<Rightarrow> flag_set \<Rightarrow> flag_set" where
  "assign_flag name v flags = map (\<lambda>(n, w). (n, if n = name then v else w)) flags"

section \<open>Parsing\<close>

text \<open>The name and the value of \<^verbatim>\<open>name=value\<close>; the equals sign is not the first character.\<close>

definition split_value :: "string \<Rightarrow> string \<times> string option" where
  "split_value name =
     (let rest = tl name; pre = takeWhile (\<lambda>c. c \<noteq> CHR ''='') rest
      in if pre = rest then (name, None)
         else (hd name # pre, Some (drop (length pre + 1) rest)))"

text \<open>
  One call of \<^verbatim>\<open>parseOne\<close>: nothing when it stops, at the first argument that is no flag or
  after \<^verbatim>\<open>--\<close>, else the changed flags and the remaining arguments.
\<close>

definition parse_value ::
  "number_syntax \<Rightarrow> flag_set \<Rightarrow> string \<Rightarrow> string option \<Rightarrow> string list
     \<Rightarrow> flag_error + (flag_set \<times> string list) option" where
  "parse_value ns flags name val rest =
     (let set_to = (\<lambda>old v left. case value_Set ns v old of
             None \<Rightarrow> Inl (InvalidValue v name)
           | Some new \<Rightarrow> Inr (Some (assign_flag name new flags, left)))
      in case map_of flags name of
           None \<Rightarrow> Inl (if name = ''help'' \<or> name = ''h'' then ErrHelp else Undefined name)
         | Some old \<Rightarrow>
             if is_bool_flag old then
               set_to old (case val of None \<Rightarrow> ''true'' | Some v \<Rightarrow> v) rest
             else
               (case val of
                  Some v \<Rightarrow> set_to old v rest
                | None \<Rightarrow>
                    (case rest of [] \<Rightarrow> Inl (NeedsArgument name)
                     | v # left \<Rightarrow> set_to old v left)))"

definition parse_one ::
  "number_syntax \<Rightarrow> flag_set \<Rightarrow> string list \<Rightarrow> flag_error + (flag_set \<times> string list) option" where
  "parse_one ns flags args =
     (case args of
        [] \<Rightarrow> Inr None
      | s # rest \<Rightarrow>
          if length s < 2 \<or> hd s \<noteq> CHR ''-'' then Inr None
          else if s = ''--'' then Inr None
          else
            let body = drop (if s ! 1 = CHR ''-'' then 2 else 1) s in
            if body = [] \<or> hd body = CHR ''-'' \<or> hd body = CHR ''='' then Inl (BadSyntax s)
            else parse_value ns flags (fst (split_value body)) (snd (split_value body)) rest)"

lemma parse_value_shorter:
  "parse_value ns flags name val rest = Inr (Some (flags2, args2)) \<Longrightarrow> length args2 \<le> length rest"
  by (auto simp: parse_value_def Let_def split: list.splits if_splits option.splits)

lemma parse_one_shorter:
  "parse_one ns flags args = Inr (Some (flags2, args2)) \<Longrightarrow> length args2 < length args"
  by (auto simp: parse_one_def Let_def dest: parse_value_shorter split: list.splits if_splits)

function Parse :: "number_syntax \<Rightarrow> flag_set \<Rightarrow> string list \<Rightarrow> flag_error + flag_set" where
  "Parse ns flags args =
     (case parse_one ns flags args of
        Inl e \<Rightarrow> Inl e
      | Inr None \<Rightarrow> Inr flags
      | Inr (Some (flags2, args2)) \<Rightarrow> Parse ns flags2 args2)"
  by pat_completeness auto
termination
  by (relation "measure (\<lambda>(_, _, args). length args)") (auto dest: parse_one_shorter)

declare Parse.simps [simp del]

text \<open>With \<^verbatim>\<open>ExitOnError\<close>, \<^verbatim>\<open>Parse\<close> ends the process when it fails.\<close>

definition flag_exit_code :: "flag_error \<Rightarrow> nat" where
  "flag_exit_code e = (if e = ErrHelp then 0 else 2)"

text \<open>Reading a flag through the pointer that its declaration returned.\<close>

definition string_flag :: "string \<Rightarrow> flag_set \<Rightarrow> string" where
  "string_flag name flags = (case map_of flags name of Some (StringFlag s) \<Rightarrow> s | _ \<Rightarrow> [])"

definition bool_flag :: "string \<Rightarrow> flag_set \<Rightarrow> bool" where
  "bool_flag name flags = (case map_of flags name of Some (BoolFlag b) \<Rightarrow> b | _ \<Rightarrow> False)"

definition int_flag :: "string \<Rightarrow> flag_set \<Rightarrow> int" where
  "int_flag name flags =
     (case map_of flags name of Some (IntFlag n) \<Rightarrow> n | Some (DurationFlag n) \<Rightarrow> n | _ \<Rightarrow> 0)"

section \<open>Command lines written by a user\<close>

text \<open>
  The ways the manual writes an option: \<^verbatim>\<open>--name value\<close>, \<^verbatim>\<open>--name=value\<close> and, for a
  boolean flag, \<^verbatim>\<open>--name\<close>.  A name has no hyphen in front and no equals sign.
\<close>

datatype option_form = Separate string | Joined string | Bare

definition plain_name :: "string \<Rightarrow> bool" where
  "plain_name n \<longleftrightarrow> n \<noteq> [] \<and> hd n \<noteq> CHR ''-'' \<and> CHR ''='' \<notin> set n"

fun option_args :: "string \<times> option_form \<Rightarrow> string list" where
  "option_args (n, Separate v) = [''--'' @ n, v]"
| "option_args (n, Joined v) = [''--'' @ n @ ''='' @ v]"
| "option_args (n, Bare) = [''--'' @ n]"

fun option_text :: "option_form \<Rightarrow> string" where
  "option_text (Separate v) = v"
| "option_text (Joined v) = v"
| "option_text Bare = ''true''"

text \<open>An option fits a flag when its form is allowed for the flag and its value can be set.\<close>

definition option_fits :: "number_syntax \<Rightarrow> flag_set \<Rightarrow> string \<times> option_form \<Rightarrow> bool" where
  "option_fits ns flags opt =
     (plain_name (fst opt) \<and>
      (case map_of flags (fst opt) of
         None \<Rightarrow> False
       | Some old \<Rightarrow> value_Set ns (option_text (snd opt)) old \<noteq> None
           \<and> (case snd opt of Separate _ \<Rightarrow> \<not> is_bool_flag old | Bare \<Rightarrow> is_bool_flag old
                | Joined _ \<Rightarrow> True)))"

definition apply_option :: "number_syntax \<Rightarrow> string \<times> option_form \<Rightarrow> flag_set \<Rightarrow> flag_set" where
  "apply_option ns opt flags =
     assign_flag (fst opt)
       (the (value_Set ns (option_text (snd opt)) (the (map_of flags (fst opt))))) flags"

lemma map_of_assign_flag:
  "map_of (assign_flag name v flags) n
     = (if n = name then map_option (\<lambda>_. v) (map_of flags n) else map_of flags n)"
  by (induction flags) (auto simp: assign_flag_def)

lemma value_Set_kind: "value_Set ns s v = Some w \<Longrightarrow> is_bool_flag w = is_bool_flag v"
  by (cases v) (auto simp: is_bool_flag_def)

lemma value_Set_again:
  "value_Set ns s v = Some w \<Longrightarrow>
     (\<exists>y. value_Set ns t w = Some y) \<longleftrightarrow> (\<exists>y. value_Set ns t v = Some y)"
  by (cases v) auto

lemma takeWhile_sep:
  "sep \<notin> set cs \<Longrightarrow> takeWhile (\<lambda>c. c \<noteq> sep) cs = cs"
  "sep \<notin> set cs \<Longrightarrow> takeWhile (\<lambda>c. c \<noteq> sep) (cs @ sep # v) = cs"
  by (induction cs) auto

lemma split_value_name:
  assumes "plain_name n"
  shows "split_value n = (n, None)" and "split_value (n @ ''='' @ v) = (n, Some v)"
proof -
  obtain c cs where n: "n = c # cs" and cs: "CHR ''='' \<notin> set cs"
    using assms by (metis list.exhaust list.set_intros(2) plain_name_def)
  show "split_value n = (n, None)"
    unfolding split_value_def n list.sel Let_def takeWhile_sep(1) [OF cs] by simp
  show "split_value (n @ ''='' @ v) = (n, Some v)"
    by (simp add: split_value_def n Let_def takeWhile_sep(2) [OF cs])
qed

lemma parse_one_option:
  assumes "option_fits ns flags opt"
  shows "parse_one ns flags (option_args opt @ rest) = Inr (Some (apply_option ns opt flags, rest))"
proof -
  obtain n form where o: "opt = (n, form)" by (cases opt)
  from assms o obtain old where n: "plain_name n" and old: "map_of flags n = Some old"
    and set_ok: "value_Set ns (option_text form) old \<noteq> None"
    by (auto simp: option_fits_def split: option.splits)
  have dash: "parse_one ns flags ((''--'' @ body) # more) =
      parse_value ns flags (fst (split_value body)) (snd (split_value body)) more"
    if "body \<noteq> []" "hd body \<noteq> CHR ''-''" "hd body \<noteq> CHR ''=''" for body more
    using that by (simp add: parse_one_def)
  have hd: "n \<noteq> []" "hd n \<noteq> CHR ''-''" "hd n \<noteq> CHR ''=''"
    using n by (auto simp: plain_name_def dest: hd_in_set)
  show ?thesis
  proof (cases form)
    case (Separate v)
    then show ?thesis using assms o old set_ok dash [OF hd] split_value_name(1) [OF n]
      by (auto simp: option_fits_def apply_option_def parse_value_def)
  next
    case (Joined v)
    then show ?thesis
      using assms o old set_ok dash [of "n @ ''='' @ v"] hd split_value_name(2) [OF n, of v]
      by (auto simp: option_fits_def apply_option_def parse_value_def)
  next
    case Bare
    then show ?thesis using assms o old set_ok dash [OF hd] split_value_name(1) [OF n]
      by (auto simp: option_fits_def apply_option_def parse_value_def)
  qed
qed

lemma option_fits_apply:
  assumes "option_fits ns flags opt" and "option_fits ns flags o2"
  shows "option_fits ns (apply_option ns opt flags) o2"
proof -
  obtain v where v: "value_Set ns (option_text (snd opt)) (the (map_of flags (fst opt))) = Some v"
    using assms(1) by (auto simp: option_fits_def split: option.splits)
  show ?thesis
  proof (cases "fst o2 = fst opt")
    case True
    then show ?thesis using assms v value_Set_kind [OF v] value_Set_again [OF v]
      by (auto simp: option_fits_def apply_option_def map_of_assign_flag
          split: option.splits option_form.splits)
  next
    case False
    then show ?thesis using assms
      by (auto simp: option_fits_def apply_option_def map_of_assign_flag)
  qed
qed

text \<open>Parsing a command line that writes options out applies them from left to right.\<close>

lemma Parse_options:
  assumes "\<forall>opt \<in> set opts. option_fits ns flags opt"
    and "rest = [] \<or> parse_one ns (fold (apply_option ns) opts flags) rest = Inr None"
  shows "Parse ns flags (concat (map option_args opts) @ rest) = Inr (fold (apply_option ns) opts flags)"
  using assms
proof (induction opts arbitrary: flags)
  case Nil
  then have "parse_one ns flags rest = Inr None" by (auto simp: parse_one_def)
  then show ?case by (simp add: Parse.simps [of ns flags rest])
next
  case (Cons opt opts)
  then have one: "parse_one ns flags (option_args opt @ concat (map option_args opts) @ rest)
      = Inr (Some (apply_option ns opt flags, concat (map option_args opts) @ rest))"
    by (intro parse_one_option) simp
  have "\<forall>o2 \<in> set opts. option_fits ns (apply_option ns opt flags) o2"
    using Cons.prems(1) by (simp add: option_fits_apply)
  then have "Parse ns (apply_option ns opt flags) (concat (map option_args opts) @ rest)
      = Inr (fold (apply_option ns) opts (apply_option ns opt flags))"
    using Cons.prems(2) by (intro Cons.IH) simp_all
  then show ?case
    by (simp add: Parse.simps [of ns flags "option_args opt @ _"] one)
qed

end
