(* ===== verification/SLPP_Http.thy ===== *)
theory SLPP_Http
  imports SLPP_Api
begin

text \<open>
  The HTTP side of both programs: the browser profiles and the tunnel request of
  \<^verbatim>\<open>internal/transport/client.go\<close>, the routes of \<^verbatim>\<open>internal/transport/server.go\<close> and the
  control server, \<^verbatim>\<open>internal/control/server.go\<close>.  A request is its method, its URL and its
  header; \<^verbatim>\<open>net/http\<close> and TLS are what they make of it: an outcome that is an argument.
\<close>

section \<open>Requests and headers\<close>

type_synonym http_header = "string \<rightharpoonup> string"

record http_request =
  req_method :: string
  req_url :: string
  req_header :: http_header

text \<open>
  \<^verbatim>\<open>Header.Set\<close>; it puts a name into canonical form first, which every name that the program
  sets is in already.
\<close>

definition Header_Set :: "string \<Rightarrow> string \<Rightarrow> http_header \<Rightarrow> http_header" where
  "Header_Set k v h = h(k \<mapsto> v)"

record http_response =
  Status :: string
  StatusCode :: nat
  resp_body :: reader

text \<open>The part of the TLS configuration that the program chooses.\<close>

record tls_config =
  MinVersion :: nat
  InsecureSkipVerify :: bool
  NextProtos :: "string list"

definition VersionTLS13 :: nat where
  "VersionTLS13 = 0x0304"

section \<open>Browser profiles\<close>

text \<open>
  \<^verbatim>\<open>strings.TrimSpace\<close>: the UTF-8 codes of the characters that \<^verbatim>\<open>unicode.IsSpace\<close> holds for
  are taken off both ends.
\<close>

definition space_runes :: "string list" where
  "space_runes =
     [[CHR 0x09], [CHR 0x0A], [CHR 0x0B], [CHR 0x0C], [CHR 0x0D], [CHR 0x20],
      [CHR 0xC2, CHR 0x85], [CHR 0xC2, CHR 0xA0], [CHR 0xE1, CHR 0x9A, CHR 0x80]]
     @ map (\<lambda>n. [CHR 0xE2, CHR 0x80, char_of (n :: nat)]) [0x80..<0x8B]
     @ [[CHR 0xE2, CHR 0x80, CHR 0xA8], [CHR 0xE2, CHR 0x80, CHR 0xA9], [CHR 0xE2, CHR 0x80, CHR 0xAF],
        [CHR 0xE2, CHR 0x81, CHR 0x9F], [CHR 0xE3, CHR 0x80, CHR 0x80]]"

fun trim_front :: "string list \<Rightarrow> string \<Rightarrow> string" where
  "trim_front spaces [] = []"
| "trim_front spaces [a] = (if [a] \<in> set spaces then [] else [a])"
| "trim_front spaces [a, b] =
     (if [a] \<in> set spaces then trim_front spaces [b]
      else if [a, b] \<in> set spaces then [] else [a, b])"
| "trim_front spaces (a # b # c # s) =
     (if [a] \<in> set spaces then trim_front spaces (b # c # s)
      else if [a, b] \<in> set spaces then trim_front spaces (c # s)
      else if [a, b, c] \<in> set spaces then trim_front spaces s
      else a # b # c # s)"

definition TrimSpace :: "string \<Rightarrow> string" where
  "TrimSpace s = rev (trim_front (map rev space_runes) (rev (trim_front space_runes s)))"

text \<open>
  \<^verbatim>\<open>strings.ToLower\<close>, as far as the result is compared with ASCII names: besides the ASCII
  capitals, the Turkish dotted I and the Kelvin sign have a lower case in ASCII, and no other
  character.  The bytes of the rest stay as they are.
\<close>

fun ToLower :: "string \<Rightarrow> string" where
  "ToLower (a # b # c # s) =
     (if [a, b, c] = [CHR 0xE2, CHR 0x84, CHR 0xAA] then CHR ''k'' # ToLower s
      else if [a, b] = [CHR 0xC4, CHR 0xB0] then CHR ''i'' # ToLower (c # s)
      else ascii_lower a # ToLower (b # c # s))"
| "ToLower [a, b] =
     (if [a, b] = [CHR 0xC4, CHR 0xB0] then ''i'' else [ascii_lower a, ascii_lower b])"
| "ToLower [a] = [ascii_lower a]"
| "ToLower [] = []"

record browser_profile =
  profile_Name :: string
  Headers :: http_header

definition chrome_headers :: "(string \<times> string) list" where
  "chrome_headers =
    [(''User-Agent'', ''Mozilla/5.0 (Windows NT 10.0; Win64; x64) AppleWebKit/537.36 (KHTML, like Gecko) Chrome/133.0.0.0 Safari/537.36''),
     (''Accept'', ''text/html,application/xhtml+xml,application/xml;q=0.9,image/avif,image/webp,*/*;q=0.8''),
     (''Accept-Language'', ''en-US,en;q=0.9''),
     (''Cache-Control'', ''max-age=0''),
     (''Sec-Ch-Ua'', ''\"Chromium\";v=\"133\", \"Google Chrome\";v=\"133\", \"Not(A:Brand\";v=\"99\"''),
     (''Sec-Ch-Ua-Mobile'', ''?0''),
     (''Sec-Ch-Ua-Platform'', ''\"Windows\"''),
     (''Sec-Fetch-Dest'', ''document''),
     (''Sec-Fetch-Mode'', ''navigate''),
     (''Sec-Fetch-Site'', ''none''),
     (''Sec-Fetch-User'', ''?1''),
     (''Upgrade-Insecure-Requests'', ''1'')]"

definition firefox_headers :: "(string \<times> string) list" where
  "firefox_headers =
    [(''User-Agent'', ''Mozilla/5.0 (Windows NT 10.0; Win64; x64; rv:136.0) Gecko/20100101 Firefox/136.0''),
     (''Accept'', ''text/html,application/xhtml+xml,application/xml;q=0.9,image/avif,image/webp,*/*;q=0.8''),
     (''Accept-Language'', ''en-US,en;q=0.5''),
     (''Cache-Control'', ''max-age=0''),
     (''Sec-Fetch-Dest'', ''document''),
     (''Sec-Fetch-Mode'', ''navigate''),
     (''Sec-Fetch-Site'', ''none''),
     (''Sec-Fetch-User'', ''?1''),
     (''Upgrade-Insecure-Requests'', ''1'')]"

definition safari_headers :: "(string \<times> string) list" where
  "safari_headers =
    [(''User-Agent'', ''Mozilla/5.0 (Macintosh; Intel Mac OS X 10_15_7) AppleWebKit/605.1.15 (KHTML, like Gecko) Version/18.3 Safari/605.1.15''),
     (''Accept'', ''text/html,application/xhtml+xml,application/xml;q=0.9,*/*;q=0.8''),
     (''Accept-Language'', ''en-US,en;q=0.9''),
     (''Cache-Control'', ''max-age=0'')]"

text \<open>\<open>quote\<close> is the verb \<^verbatim>\<open>%q\<close>, which escapes what cannot be printed.\<close>

definition ResolveBrowserProfile :: "(string \<Rightarrow> string) \<Rightarrow> string \<Rightarrow> go_error + browser_profile" where
  "ResolveBrowserProfile quote name =
     (let n = ToLower (TrimSpace name) in
      if n = [] \<or> n = ''chrome'' then
        Inr \<lparr>profile_Name = ''chrome'', Headers = map_of chrome_headers\<rparr>
      else if n = ''firefox'' then
        Inr \<lparr>profile_Name = ''firefox'', Headers = map_of firefox_headers\<rparr>
      else if n = ''safari'' then
        Inr \<lparr>profile_Name = ''safari'', Headers = map_of safari_headers\<rparr>
      else Inl (ErrorNew (''unsupported browser profile '' @ quote name)))"

text \<open>The order in which Go ranges over the headers is the argument \<open>ks\<close>.\<close>

definition ApplyBrowserProfile :: "string list \<Rightarrow> browser_profile \<Rightarrow> http_request \<Rightarrow> http_request" where
  "ApplyBrowserProfile ks profile req =
     req\<lparr>req_header := fold (\<lambda>k h. case Headers profile k of
         None \<Rightarrow> h | Some v \<Rightarrow> Header_Set k v h) ks (req_header req)\<rparr>"

section \<open>The tunnel request\<close>

record client_config =
  ServerURL :: string
  cfg_Token :: string
  ListenSocks :: string
  UDPAssociate :: string
  BrowserProfile :: string
  InsecureSkipTLS :: bool
  cfg_Heartbeat :: int

text \<open>
  What the client's environment makes of its calls: whether a URL can be parsed, the response to a
  request (for a tunnel, as soon as the server has sent its header), and the pipe that is the body
  of the tunnel request.
\<close>

record http_env =
  NewRequest_err :: "string \<Rightarrow> go_error option"
  http_Do :: "tls_config \<Rightarrow> http_request \<Rightarrow> go_error + http_response"
  http_Pipe :: writer
  header_order :: "http_header \<Rightarrow> string list"
  quoted :: "string \<Rightarrow> string"

definition client_tls :: "bool \<Rightarrow> tls_config" where
  "client_tls insecure = \<lparr>MinVersion = VersionTLS13, InsecureSkipVerify = insecure, NextProtos = [''h2'']\<rparr>"

record client_tunnel =
  WriteCloser :: writer
  ReadCloser :: reader
  Response :: http_response

definition DialClientTunnel :: "http_env \<Rightarrow> client_config \<Rightarrow> go_error + client_tunnel" where
  "DialClientTunnel env cfg =
     (let url = ServerURL cfg @ ''/tunnel'' in
      case NewRequest_err env url of
        Some e \<Rightarrow> Inl e
      | None \<Rightarrow>
          (let req = \<lparr>req_method = ''POST'', req_url = url,
                 req_header = Header_Set ''Content-Type'' ''application/octet-stream'' Map.empty\<rparr>
           in case ResolveBrowserProfile (quoted env) (BrowserProfile cfg) of
                Inl e \<Rightarrow> Inl e
              | Inr profile \<Rightarrow>
                  (case http_Do env (client_tls (InsecureSkipTLS cfg))
                      (ApplyBrowserProfile (header_order env (Headers profile)) profile req) of
                     Inl e \<Rightarrow> Inl e
                   | Inr resp \<Rightarrow> Inr \<lparr>WriteCloser = http_Pipe env, ReadCloser = resp_body resp,
                       Response = resp\<rparr>)))"

section \<open>Routes\<close>

text \<open>
  A \<^verbatim>\<open>ServeMux\<close> maps the paths that were registered to their handlers; other paths are
  answered by \<^verbatim>\<open>net/http\<close> itself (404, or a redirect for a path that is not clean).
\<close>

type_synonym 'a mux = "(string \<times> 'a) list"

definition HandleFunc :: "string \<Rightarrow> 'a \<Rightarrow> 'a mux \<Rightarrow> 'a mux" where
  "HandleFunc path handler mux = mux @ [(path, handler)]"

datatype tunnel_route = HandleTunnel | TunnelHealth

definition Register_routes :: "tunnel_route mux \<Rightarrow> tunnel_route mux" where
  "Register_routes mux = HandleFunc ''/healthz'' TunnelHealth (HandleFunc ''/tunnel'' HandleTunnel mux)"

record server_config =
  ListenAddr :: string
  CertFile :: string
  KeyFile :: string
  TokenFile_path :: string
  ControlSocket :: string
  cfg_ServerHeartbeat :: int
  IdleTimeout :: int
  cfg_TLSConfig :: "tls_config option"

record 'a http_server =
  Addr :: string
  Handler :: "'a mux"
  ReadHeaderTimeout :: int
  TLSConfig :: "tls_config option"

definition NewHTTPServer :: "server_config \<Rightarrow> tunnel_route http_server" where
  "NewHTTPServer cfg =
     \<lparr>Addr = ListenAddr cfg, Handler = Register_routes [], ReadHeaderTimeout = 5 * 1000000000,
      TLSConfig = Some \<lparr>MinVersion = VersionTLS13, InsecureSkipVerify = False,
        NextProtos = [''h2'', ''http/1.1'']\<rparr>\<rparr>"

definition health_json :: json where
  "health_json = JObject (map_object [(''ok'', JBool True)])"

section \<open>The control server\<close>

datatype control_route = StatsRoute | HealthRoute

record control_server =
  socket :: string
  http :: "control_route http_server"

definition NewServer :: "string \<Rightarrow> control_server" where
  "NewServer sock =
     \<lparr>socket = sock,
      http = \<lparr>Addr = [], Handler = HandleFunc ''/healthz'' HealthRoute (HandleFunc ''/stats'' StatsRoute []),
        ReadHeaderTimeout = 5 * 1000000000, TLSConfig = None\<rparr>\<rparr>"

text \<open>The body of the response to a request for a path, if the path is registered.\<close>

definition control_reply :: "(int \<Rightarrow> string) \<Rightarrow> stats \<Rightarrow> string \<Rightarrow> control_server \<Rightarrow> json option" where
  "control_reply time st path srv =
     (case map_of (Handler (http srv)) path of
        None \<Rightarrow> None
      | Some StatsRoute \<Rightarrow>
          Some (envelope_json time \<lparr>OK = True, out_message = [], out_data = Statistics (Snapshot st)\<rparr>)
      | Some HealthRoute \<Rightarrow>
          Some (envelope_json time \<lparr>OK = True, out_message = ''ok'', out_data = NoData\<rparr>))"

text \<open>
  \<^verbatim>\<open>Run\<close> with what it meets: the error of the context once it is done, the outcome of
  listening on the socket, and the error with which \<^verbatim>\<open>Serve\<close> returned.  The files are those that
  exist; the socket's file is removed before listening, whatever it is.
\<close>

definition ErrServerClosed :: go_error where
  "ErrServerClosed = ErrorNew ''http: Server closed''"

definition control_Run ::
  "go_error \<Rightarrow> go_error option \<Rightarrow> go_error \<Rightarrow> control_server \<Rightarrow> string set \<Rightarrow> go_error option \<times> string set" where
  "control_Run ctx_err listen serve srv files =
     (if socket srv = [] then (Some ctx_err, files)
      else let files1 = files - {socket srv} in
        case listen of
          Some e \<Rightarrow> (Some e, files1)
        | None \<Rightarrow> (if errors_is serve ErrServerClosed then None else Some serve, files1))"


section \<open>Profiles and requests\<close>

lemma trim_front_space: "[c] \<in> set spaces \<Longrightarrow> trim_front spaces (c # s) = trim_front spaces s"
  by (cases s; cases "tl s") auto

lemma trim_front_spaces:
  "\<forall>c \<in> set ws. [c] \<in> set spaces \<Longrightarrow> trim_front spaces (ws @ s) = trim_front spaces s"
  by (induction ws) (auto simp: trim_front_space)

lemma trim_front_stop:
  "\<forall>r \<in> set spaces. hd r \<noteq> c \<Longrightarrow> trim_front spaces (c # s) = c # s"
proof -
  assume a: "\<forall>r \<in> set spaces. hd r \<noteq> c"
  then have "[c] \<notin> set spaces" "[c, b] \<notin> set spaces" "[c, b, d] \<notin> set spaces" for b d
    by (metis list.sel(1))+
  then show ?thesis by (cases s; cases "tl s") auto
qed

text \<open>A letter is neither the first nor the last byte of a space.\<close>

definition is_letter :: "char \<Rightarrow> bool" where
  "is_letter c \<longleftrightarrow> (let n = of_char c :: nat in 65 \<le> n \<and> n \<le> 90 \<or> 97 \<le> n \<and> n \<le> 122)"

lemma space_runes_no_letter:
  "\<forall>r \<in> set space_runes. \<not> is_letter (hd r) \<and> \<not> is_letter (hd (rev r)) \<and> r \<noteq> []"
  by code_simp

lemma TrimSpace_trims:
  assumes "\<forall>c \<in> set (ws @ ws2). [c] \<in> set space_runes"
    and "n = [] \<or> is_letter (hd n) \<and> is_letter (last n)"
  shows "TrimSpace (ws @ n @ ws2) = n"
proof (cases "n = []")
  case True
  have "trim_front space_runes ((ws @ ws2) @ []) = []"
    using trim_front_spaces [of "ws @ ws2" space_runes "[]"] assms(1) by simp
  then show ?thesis using True by (simp add: TrimSpace_def)
next
  case False
  then have n: "is_letter (hd n)" "is_letter (hd (rev n))" using assms(2) by (simp_all add: hd_rev)
  have front: "trim_front space_runes (ws @ n @ ws2) = n @ ws2"
  proof -
    obtain c m where c: "n @ ws2 = c # m" "is_letter c" using False n(1) by (cases n) auto
    have "trim_front space_runes (c # m) = c # m"
      using c(2) space_runes_no_letter by (intro trim_front_stop) auto
    then show ?thesis using trim_front_spaces [of ws space_runes "n @ ws2"] assms(1) c(1) by simp
  qed
  have rear: "trim_front (map rev space_runes) (rev ws2 @ rev n) = rev n"
  proof -
    obtain c m where c: "rev n = c # m" "is_letter c" using False n(2) by (cases "rev n") auto
    have "trim_front (map rev space_runes) (c # m) = c # m"
      using c(2) space_runes_no_letter by (intro trim_front_stop) auto
    moreover have "\<forall>b \<in> set (rev ws2). [b] \<in> set (map rev space_runes)"
      using assms(1) by (force simp: image_iff)
    ultimately show ?thesis using trim_front_spaces [of "rev ws2" "map rev space_runes" "rev n"] c(1) by simp
  qed
  show ?thesis by (simp add: TrimSpace_def front rear)
qed

lemma ToLower_ascii:
  "\<forall>c \<in> set s. (of_char c :: nat) < 128 \<Longrightarrow> ToLower s = map ascii_lower s"
  by (induction s rule: ToLower.induct) auto

lemma ascii_lower_letter: "is_letter (ascii_lower c) \<Longrightarrow> is_letter c"
  by (auto simp: ascii_lower_def is_letter_def Let_def split: if_splits)

lemma is_letter_ascii: "is_letter c \<Longrightarrow> (of_char c :: nat) < 128"
  by (auto simp: is_letter_def Let_def)

text \<open>A browser profile is found by its name in any case and with white space around it, and
  an empty or blank name means Chrome; the profile never sets the content type, so that the tunnel
  request keeps its own.\<close>

theorem profile_variants:
  assumes "name \<in> {''chrome'', ''firefox'', ''safari''}" and "map ascii_lower n = name"
    and "\<forall>c \<in> set (ws @ ws2). [c] \<in> set space_runes"
  shows "(\<exists>p. ResolveBrowserProfile quote (ws @ n @ ws2) = Inr p \<and> profile_Name p = name
      \<and> ResolveBrowserProfile quote name = Inr p
      \<and> Headers p ''Content-Type'' = None \<and> Headers p ''User-Agent'' \<noteq> None)
    \<and> (\<exists>p. ResolveBrowserProfile quote (ws @ ws2) = Inr p \<and> profile_Name p = ''chrome'')"
proof -
  have letters: "\<forall>c \<in> set name. is_letter c" "name \<noteq> []"
    using assms(1) by (auto simp: is_letter_def Let_def)
  then have n: "\<forall>c \<in> set n. is_letter c" using assms(2) ascii_lower_letter by fastforce
  moreover have "n \<noteq> []" using assms(2) letters(2) by auto
  ultimately have "TrimSpace (ws @ n @ ws2) = n" using assms(3) by (intro TrimSpace_trims) simp_all
  moreover have low: "ToLower n = name" using n assms(2) by (simp add: ToLower_ascii is_letter_ascii)
  moreover have "TrimSpace name = name"
    using TrimSpace_trims [of "[]" "[]" name] letters by simp
  moreover have "map ascii_lower name = name" using assms(1) by (auto simp: ascii_lower_def)
  then have "ToLower name = name" using letters(1) by (simp add: ToLower_ascii is_letter_ascii)
  ultimately have "\<exists>p. ResolveBrowserProfile quote (ws @ n @ ws2) = Inr p \<and> profile_Name p = name
      \<and> ResolveBrowserProfile quote name = Inr p
      \<and> Headers p ''Content-Type'' = None \<and> Headers p ''User-Agent'' \<noteq> None"
    using assms(1)
    by (auto simp: ResolveBrowserProfile_def Let_def chrome_headers_def firefox_headers_def safari_headers_def)
  moreover have "TrimSpace (ws @ ws2) = []" using TrimSpace_trims [of ws ws2 "[]"] assms(3) by simp
  then have "\<exists>p. ResolveBrowserProfile quote (ws @ ws2) = Inr p \<and> profile_Name p = ''chrome''"
    by (simp add: ResolveBrowserProfile_def)
  ultimately show ?thesis by blast
qed

theorem profile_variants_witness:
  "\<exists>p. ResolveBrowserProfile (\<lambda>s. s) '' FireFox '' = Inr p \<and> profile_Name p = ''firefox''"
proof -
  have h: "''firefox'' \<in> {''chrome'', ''firefox'', ''safari''}" by simp
  have n: "map ascii_lower ''FireFox'' = ''firefox''" by code_simp
  have w: "\<forall>c \<in> set ('' '' @ '' ''). [c] \<in> set space_runes" by code_simp
  show ?thesis
    using conjunct1 [OF profile_variants [OF h n w, where quote = "\<lambda>s. s"], unfolded append.simps]
    by blast
qed

lemma restrict_dom [simp]: "m |` dom m = m"
  by (auto simp: restrict_map_def fun_eq_iff dom_def)

lemma apply_headers:
  "fold (\<lambda>k h. case m k of None \<Rightarrow> h | Some v \<Rightarrow> Header_Set k v h) ks h
     = h ++ (m |` set ks)"
  by (induction ks arbitrary: h)
    (auto simp: Header_Set_def fun_eq_iff map_add_def restrict_map_def split: option.splits)

lemma ApplyBrowserProfile_order:
  "range_order (Headers p) ks \<Longrightarrow>
     ApplyBrowserProfile ks p req = req\<lparr>req_header := req_header req ++ Headers p\<rparr>"
  by (simp add: ApplyBrowserProfile_def apply_headers range_order_def)

lemma profile_no_content_type:
  "ResolveBrowserProfile quote name = Inr p \<Longrightarrow> Headers p ''Content-Type'' = None"
  by (auto simp: ResolveBrowserProfile_def Let_def chrome_headers_def firefox_headers_def
      safari_headers_def split: if_splits)

text \<open>C31. The tunnel request is a POST to the server's tunnel path with the binary content type and
  the headers of the profile, whatever order Go ranges over them in, over TLS 1.3 with HTTP/2; any
  response makes a tunnel, also one that is an error by its status.\<close>

theorem dial_request:
  assumes "ResolveBrowserProfile (quoted env) (BrowserProfile cfg) = Inr p"
    and "range_order (Headers p) (header_order env (Headers p))"
    and "NewRequest_err env (ServerURL cfg @ ''/tunnel'') = None"
  shows "\<exists>req tls. DialClientTunnel env cfg = map_sum id (\<lambda>resp. \<lparr>WriteCloser = http_Pipe env,
        ReadCloser = resp_body resp, Response = resp\<rparr>) (http_Do env tls req)
    \<and> req_method req = ''POST'' \<and> req_url req = ServerURL cfg @ ''/tunnel''
    \<and> req_header req ''Content-Type'' = Some ''application/octet-stream''
    \<and> (\<forall>k. k \<noteq> ''Content-Type'' \<longrightarrow> req_header req k = Headers p k)
    \<and> MinVersion tls = VersionTLS13 \<and> NextProtos tls = [''h2'']
    \<and> InsecureSkipVerify tls = InsecureSkipTLS cfg"
proof -
  let ?h = "[''Content-Type'' \<mapsto> ''application/octet-stream''] ++ Headers p"
  let ?req = "\<lparr>req_method = ''POST'', req_url = ServerURL cfg @ ''/tunnel'', req_header = ?h\<rparr>"
  let ?tls = "client_tls (InsecureSkipTLS cfg)"
  have "DialClientTunnel env cfg = map_sum id (\<lambda>resp. \<lparr>WriteCloser = http_Pipe env,
        ReadCloser = resp_body resp, Response = resp\<rparr>) (http_Do env ?tls ?req)"
    using assms
    by (simp add: DialClientTunnel_def ApplyBrowserProfile_order Header_Set_def split: sum.split)
  moreover have "?h ''Content-Type'' = Some ''application/octet-stream''"
    using profile_no_content_type [OF assms(1)] by (simp add: map_add_def)
  moreover have "\<forall>k. k \<noteq> ''Content-Type'' \<longrightarrow> ?h k = Headers p k"
    by (auto simp: map_add_def split: option.splits)
  ultimately show ?thesis
    by (intro exI [of _ ?req] exI [of _ ?tls]) (simp add: client_tls_def)
qed

theorem dial_request_witness:
  "let env = \<lparr>NewRequest_err = \<lambda>_. None, http_Do = \<lambda>_ req. if req_method req = ''POST''
         then Inr \<lparr>Status = ''500'', StatusCode = 500, resp_body = \<lparr>avail = [], end_err = EOF\<rparr>\<rparr> else Inl EOF,
       http_Pipe = \<lparr>written = [], room = None, write_err = EOF\<rparr>,
       header_order = (\<lambda>_. map fst safari_headers), quoted = (\<lambda>s. s)\<rparr>;
       cfg = \<lparr>ServerURL = ''https://h'', cfg_Token = [], ListenSocks = [], UDPAssociate = [],
         BrowserProfile = ''safari'', InsecureSkipTLS = False, cfg_Heartbeat = 0\<rparr>
   in \<exists>tunnel. DialClientTunnel env cfg = Inr tunnel \<and> StatusCode (Response tunnel) = 500"
proof -
  define env where "env = \<lparr>NewRequest_err = \<lambda>_. None, http_Do = \<lambda>_ req. if req_method req = ''POST''
         then Inr \<lparr>Status = ''500'', StatusCode = 500, resp_body = \<lparr>avail = [], end_err = EOF\<rparr>\<rparr> else Inl EOF,
       http_Pipe = \<lparr>written = [], room = None, write_err = EOF\<rparr>,
       header_order = (\<lambda>_. map fst safari_headers), quoted = (\<lambda>s. s)\<rparr>"
  define cfg where "cfg = \<lparr>ServerURL = ''https://h'', cfg_Token = [], ListenSocks = [], UDPAssociate = [],
         BrowserProfile = ''safari'', InsecureSkipTLS = False, cfg_Heartbeat = 0\<rparr>"
  let ?p = "\<lparr>profile_Name = ''safari'', Headers = map_of safari_headers\<rparr>"
  have "ToLower (TrimSpace ''safari'') = ''safari''" by code_simp
  then have h: "ResolveBrowserProfile (quoted env) (BrowserProfile cfg) = Inr ?p"
    "NewRequest_err env (ServerURL cfg @ ''/tunnel'') = None"
    by (simp_all add: env_def cfg_def ResolveBrowserProfile_def)
  have "distinct (map fst safari_headers)" by (simp add: safari_headers_def)
  then have "range_order (Headers ?p) (header_order env (Headers ?p))"
    by (simp add: env_def range_order_def dom_map_of_conv_image_fst)
  from dial_request [OF h(1) this h(2)] obtain req tls where
    "DialClientTunnel env cfg = map_sum id (\<lambda>resp. \<lparr>WriteCloser = http_Pipe env,
        ReadCloser = resp_body resp, Response = resp\<rparr>) (http_Do env tls req)" "req_method req = ''POST''"
    by blast
  then show ?thesis unfolding Let_def env_def [symmetric] cfg_def [symmetric] by (simp add: env_def)
qed

end
