(* ===== verification/SLPP_Process.thy ===== *)
theory SLPP_Process
  imports SLPP_Flag SLPP_Api
begin

text \<open>
  A run of a program as the sequence of what it does: output, goroutines it starts, calls that go on
  until their work is over, waiting for an interrupt, and how it ends.  \<^verbatim>\<open>printEnvelope\<close> and \<^verbatim>\<open>exitErr\<close>, which both programs
  have in the same words (\<^verbatim>\<open>cmd/slppc/main.go\<close>, \<^verbatim>\<open>cmd/slppd/main.go\<close>).  Go ends the
  process when \<^verbatim>\<open>main\<close> returns, whatever goroutines are running.
\<close>

datatype printed = Line string | JSONLine json | Indented json

datatype 'g action =
    Print printed
  | PrintErr string
  | FlagUsage flag_error
  | Spawn 'g
  | Call 'g
  | AwaitDone
  | CloseStream string
  | Exit nat

definition printEnvelope :: "(int \<Rightarrow> string) \<Rightarrow> output_envelope \<Rightarrow> bool \<Rightarrow> 'g action list" where
  "printEnvelope time out asJSON =
     (if asJSON then [Print (JSONLine (envelope_json time out))]
      else (if out_message out \<noteq> [] then [Print (Line (out_message out))] else [])
        @ (if out_data out \<noteq> NoData then [Print (Indented (data_json time (out_data out)))] else []))"

definition exitErr :: "(int \<Rightarrow> string) \<Rightarrow> go_error \<Rightarrow> bool \<Rightarrow> 'g action list" where
  "exitErr time err asJSON =
     (if asJSON
      then [Print (JSONLine (envelope_json time \<lparr>OK = False, out_message = error_text err, out_data = NoData\<rparr>))]
      else [PrintErr (''error: '' @ error_text err)]) @ [Exit 1]"

text \<open>A command reads its flags and goes on with their values, or ends with the exit code of
  \<^verbatim>\<open>flag\<close>.  When \<^verbatim>\<open>main\<close> returns the exit code is 0.\<close>

definition with_flags ::
  "number_syntax \<Rightarrow> flag_set \<Rightarrow> string list \<Rightarrow> (flag_set \<Rightarrow> 'g action list) \<Rightarrow> 'g action list" where
  "with_flags ns decls args k =
     (case Parse ns decls args of
        Inl e \<Rightarrow> [FlagUsage e, Exit (flag_exit_code e)]
      | Inr fs \<Rightarrow> k fs)"

definition is_exit :: "'g action \<Rightarrow> bool" where
  "is_exit a = (case a of Exit _ \<Rightarrow> True | _ \<Rightarrow> False)"

definition awaits :: "'g action list \<Rightarrow> bool" where
  "awaits acts = list_ex (\<lambda>a. case a of AwaitDone \<Rightarrow> True | _ \<Rightarrow> False) acts"

definition main_returns :: "'g action list \<Rightarrow> 'g action list" where
  "main_returns acts = (if list_ex is_exit acts then acts else acts @ [Exit 0])"

text \<open>
  A run is complete when it ends, once, with an exit code that the program uses: 2 after a usage
  message, 1 after an error report, which is then the last output.
\<close>

definition reports_error :: "'g action \<Rightarrow> bool" where
  "reports_error a =
     (case a of PrintErr _ \<Rightarrow> True
      | Print (JSONLine (JObject kvs)) \<Rightarrow> map_of kvs ''ok'' = Some (JBool False) | _ \<Rightarrow> False)"

definition complete_run :: "'g action list \<Rightarrow> bool" where
  "complete_run acts \<longleftrightarrow>
     (\<exists>pre code. acts = pre @ [Exit code] \<and> \<not> list_ex is_exit pre
        \<and> (code = 0 \<or> code = 2 \<or> (code = 1 \<and> pre \<noteq> [] \<and> reports_error (last pre))))"

lemma is_exit_simps [simp]:
  "is_exit (Exit c)" "\<not> is_exit (Print x)" "\<not> is_exit (PrintErr t)" "\<not> is_exit (FlagUsage e)"
  "\<not> is_exit (Spawn g)" "\<not> is_exit (Call g)" "\<not> is_exit AwaitDone" "\<not> is_exit (CloseStream t)"
  by (simp_all add: is_exit_def)

lemma awaits_simps [simp]:
  "\<not> awaits []" "awaits (AwaitDone # acts)" "awaits (Spawn g # acts) = awaits acts"
  "awaits (Call g # acts) = awaits acts"
  "awaits (CloseStream t # acts) = awaits acts" "awaits (Print x # acts) = awaits acts"
  "awaits (PrintErr t # acts) = awaits acts" "awaits (Exit c # acts) = awaits acts"
  "awaits (FlagUsage e # acts) = awaits acts" "awaits (as @ bs) \<longleftrightarrow> awaits as \<or> awaits bs"
  by (simp_all add: awaits_def)

lemma printEnvelope_no_exit [simp]: "\<not> list_ex is_exit (printEnvelope time out asJSON)"
  by (simp add: printEnvelope_def)

lemma printEnvelope_no_wait [simp]: "\<not> awaits (printEnvelope time out asJSON)"
  by (simp add: printEnvelope_def)

lemma exitErr_exits [simp]: "list_ex is_exit (exitErr time err asJSON)"
  by (simp add: exitErr_def)

lemma complete_exitErr [simp, intro]:
  "\<not> list_ex is_exit acts \<Longrightarrow> complete_run (acts @ exitErr time err asJSON)"
  unfolding complete_run_def exitErr_def
  by (rule exI [of _ "acts @ butlast (exitErr time err asJSON)"], rule exI [of _ 1])
    (auto simp: exitErr_def reports_error_def envelope_json_def)

lemma complete_exitErr_Nil [simp, intro]: "complete_run (exitErr time err asJSON)"
  using complete_exitErr [of "[]"] by simp

text \<open>What every command guarantees: it has not ended the process, or it has done so properly.\<close>

definition proper_run :: "'g action list \<Rightarrow> bool" where
  "proper_run acts \<longleftrightarrow> \<not> list_ex is_exit acts \<or> complete_run acts"

lemma proper_no_exit [intro]: "\<not> list_ex is_exit acts \<Longrightarrow> proper_run acts"
  by (simp add: proper_run_def)

lemma proper_printEnvelope [simp]: "proper_run (printEnvelope time out json)"
  by (rule proper_no_exit) simp

lemma proper_exitErr [simp]: "proper_run (exitErr time err json)"
  by (simp add: proper_run_def complete_exitErr_Nil)

lemma proper_usage [simp]: "proper_run [PrintErr text, Exit 2]" "proper_run [Print x]"
  by (auto simp: proper_run_def complete_run_def intro: exI [of _ "[PrintErr text]"])

lemma proper_flag_usage [simp]: "proper_run [FlagUsage e, Exit (flag_exit_code e)]"
  by (auto simp: proper_run_def complete_run_def flag_exit_code_def)

lemma complete_main_returns: "proper_run acts \<Longrightarrow> complete_run (main_returns acts)"
  by (cases "list_ex is_exit acts") (auto simp: main_returns_def proper_run_def complete_run_def)

lemma proper_with_flags:
  "(\<And>fs. proper_run (k fs)) \<Longrightarrow> proper_run (with_flags ns decls args k)"
  by (auto simp: with_flags_def proper_run_def complete_run_def flag_exit_code_def split: sum.splits)

lemma with_flags_options:
  "\<forall>opt \<in> set opts. option_fits ns decls opt \<Longrightarrow>
     with_flags ns decls (concat (map option_args opts)) k = k (fold (apply_option ns) opts decls)"
  using Parse_options [of opts ns decls "[]"] by (simp add: with_flags_def)

end
