(* ===== verification/SLPP_ClientMain.thy ===== *)
theory SLPP_ClientMain
  imports SLPP_Client SLPP_Http SLPP_Process
begin

text \<open>
  The client program, \<^verbatim>\<open>cmd/slppc/main.go\<close>: \<^verbatim>\<open>main\<close> and its commands, from the command
  line to the goroutines they start.  A command is the sequence of its actions; what the network,
  the clock and the operating system answer is the environment.
\<close>

section \<open>Environment\<close>

text \<open>
  \<open>interrupted\<close>: an interrupt or a termination signal has arrived when a command looks at its
  context.  \<open>listen_tcp\<close> is the address of the listener or the error of \<^verbatim>\<open>net.Listen\<close>.
\<close>

record client_env = http_env +
  url_Parse :: "string \<Rightarrow> go_error option"
  nonce_bytes :: "go_error + byte list"
  unix_nanos :: int
  start_time :: int
  listen_tcp :: "string \<Rightarrow> go_error + string"
  interrupted :: bool
  accepted_conns :: network
  udp_services :: "string \<Rightarrow> go_error + nat"
  time_text :: "int \<Rightarrow> string"
  numbers :: number_syntax

datatype client_goroutine =
    RunNoop session
  | RunClient tunnel_client session
  | CloseListener
  | AcceptLoop string

definition version_text :: string where
  "version_text = ''0.1.0''"

definition usage_text :: string where
  "usage_text = ''usage: slppc {connect|socks5|check|ping|stats|version}''"

definition transportTLSConfig :: "bool \<Rightarrow> tls_config" where
  "transportTLSConfig insecure =
     \<lparr>MinVersion = VersionTLS13, InsecureSkipVerify = insecure, NextProtos = [''h2'']\<rparr>"

section \<open>What the commands do\<close>

text \<open>
  The session that both tunnel commands set up: it holds the AUTH frame in its control queue, or
  the error that stopped them.
\<close>

definition new_client_session :: "client_env \<Rightarrow> string \<Rightarrow> client_tunnel \<Rightarrow> go_error + session" where
  "new_client_session env token tunnel =
     (let s = NewSession (of_int (unix_nanos env)) (ReadCloser tunnel) (WriteCloser tunnel)
            (NewStats (start_time env)) DefaultHeartbeat (start_time env)
      in case NewAuthFrame token (nonce_bytes env) of
           Inl e \<Rightarrow> Inl e
         | Inr f \<Rightarrow>
             (case QueueControl f s of
                (Some e, _) \<Rightarrow> Inl e
              | (None, s1) \<Rightarrow> Inr s1))"

text \<open>\<^verbatim>\<open>connectMain\<close> ends when its context is done, and returns the context's error.\<close>

definition connectMain :: "client_env \<Rightarrow> client_config \<Rightarrow> client_goroutine action list \<times> go_error option" where
  "connectMain env cfg =
     (case DialClientTunnel (http_env.truncate env) cfg of
        Inl e \<Rightarrow> ([], Some e)
      | Inr tunnel \<Rightarrow>
          (let deferred = [CloseStream ''request body'', CloseStream ''response body''] in
           case new_client_session env (cfg_Token cfg) tunnel of
             Inl e \<Rightarrow> (deferred, Some e)
           | Inr s \<Rightarrow> ([Spawn (RunNoop s), AwaitDone] @ deferred, Some Canceled)))"

record socks5_options =
  opt_ServerURL :: string
  opt_Token :: string
  opt_ListenAddr :: string
  opt_BrowserProfile :: string
  opt_InsecureSkipTLS :: bool

definition client_config_of :: "socks5_options \<Rightarrow> client_config" where
  "client_config_of opts =
     \<lparr>ServerURL = opt_ServerURL opts, cfg_Token = opt_Token opts, ListenSocks = [],
      UDPAssociate = [], BrowserProfile = opt_BrowserProfile opts,
      InsecureSkipTLS = opt_InsecureSkipTLS opts, cfg_Heartbeat = 0\<rparr>"

definition socks5Main ::
  "client_env \<Rightarrow> socks5_options \<Rightarrow> client_goroutine action list \<times> (output_envelope \<times> go_error option)" where
  "socks5Main env opts =
     (case DialClientTunnel (http_env.truncate env) (client_config_of opts) of
        Inl e \<Rightarrow> ([], no_envelope, Some e)
      | Inr tunnel \<Rightarrow>
          (let client = newTunnelClient (accepted_conns env) (udp_services env) in
           case new_client_session env (opt_Token opts) tunnel of
             Inl e \<Rightarrow> ([], no_envelope, Some e)
           | Inr s \<Rightarrow>
               (case listen_tcp env (opt_ListenAddr opts) of
                  Inl e \<Rightarrow> ([Spawn (RunClient client s)], no_envelope, Some e)
                | Inr addr \<Rightarrow>
                    ([Spawn (RunClient client s), Spawn CloseListener, Spawn (AcceptLoop addr)],
                     \<lparr>OK = True, out_message = ''SOCKS5 listening'', out_data = Settings [(''listen'', addr)]\<rparr>,
                     None))))"

definition checkClientMain :: "client_env \<Rightarrow> string \<Rightarrow> string \<Rightarrow> go_error + output_envelope" where
  "checkClientMain env url listen =
     (if url = [] then Inl (ErrorNew ''--server is required'')
      else case url_Parse env url of
          Some e \<Rightarrow> Inl e
        | None \<Rightarrow> Inr \<lparr>OK = True, out_message = ''configuration valid'',
            out_data = Settings [(''server'', url), (''listen'', listen)]\<rparr>)"

definition pingMain :: "client_env \<Rightarrow> string \<Rightarrow> string \<Rightarrow> bool \<Rightarrow> go_error + output_envelope" where
  "pingMain env url fingerprint insecure =
     (if url = [] then Inl (ErrorNew ''--server is required'')
      else case ResolveBrowserProfile (quoted env) fingerprint of
          Inl e \<Rightarrow> Inl e
        | Inr profile \<Rightarrow>
            (case NewRequest_err env (url @ ''/healthz'') of
               Some e \<Rightarrow> Inl e
             | None \<Rightarrow>
                 (case http_Do env (transportTLSConfig insecure)
                     (ApplyBrowserProfile (header_order env (Headers profile)) profile
                       \<lparr>req_method = ''GET'', req_url = url @ ''/healthz'', req_header = Map.empty\<rparr>) of
                    Inl e \<Rightarrow> Inl e
                  | Inr resp \<Rightarrow> Inr \<lparr>OK = True, out_message = Status resp, out_data = NoData\<rparr>)))"

section \<open>The commands\<close>

definition finish_command ::
  "client_env \<Rightarrow> bool \<Rightarrow> go_error + output_envelope \<Rightarrow> client_goroutine action list" where
  "finish_command env json r =
     (case r of Inl e \<Rightarrow> exitErr (time_text env) e json
      | Inr out \<Rightarrow> printEnvelope (time_text env) out json)"

text \<open>
  The check at the end of the tunnel commands: an error counts unless the context is done, as it is
  after \<open>AwaitDone\<close>.
\<close>

definition finish_tunnel ::
  "client_env \<Rightarrow> bool \<Rightarrow> client_goroutine action list \<Rightarrow> go_error option \<Rightarrow> output_envelope
     \<Rightarrow> client_goroutine action list" where
  "finish_tunnel env json acts err out =
     (case err of
        Some e \<Rightarrow> if interrupted env \<or> awaits acts then acts @ printEnvelope (time_text env) out json
                   else acts @ exitErr (time_text env) e json
      | None \<Rightarrow> acts @ printEnvelope (time_text env) out json)"

definition connect_flags :: flag_set where
  "connect_flags =
     [(''server'', StringFlag []), (''token'', StringFlag []), (''fingerprint'', StringFlag ''chrome''),
      (''json'', BoolFlag False), (''insecure'', BoolFlag False)]"

definition connectCmd :: "client_env \<Rightarrow> string list \<Rightarrow> client_goroutine action list" where
  "connectCmd env args = with_flags (numbers env) connect_flags args (\<lambda>fs.
     let json = bool_flag ''json'' fs in
     if string_flag ''server'' fs = [] \<or> string_flag ''token'' fs = []
     then exitErr (time_text env) (ErrorNew ''--server and --token are required'') json
     else
       let (acts, err) = connectMain env
             \<lparr>ServerURL = string_flag ''server'' fs, cfg_Token = string_flag ''token'' fs,
              ListenSocks = [], UDPAssociate = [], BrowserProfile = string_flag ''fingerprint'' fs,
              InsecureSkipTLS = bool_flag ''insecure'' fs, cfg_Heartbeat = 0\<rparr>
       in finish_tunnel env json acts err
            \<lparr>OK = True, out_message = ''tunnel connected'', out_data = NoData\<rparr>)"

definition socks5_flags :: flag_set where
  "socks5_flags =
     [(''server'', StringFlag []), (''token'', StringFlag []),
      (''listen'', StringFlag ''127.0.0.1:1080''), (''fingerprint'', StringFlag ''chrome''),
      (''json'', BoolFlag False), (''insecure'', BoolFlag False)]"

definition socks5Cmd :: "client_env \<Rightarrow> string list \<Rightarrow> client_goroutine action list" where
  "socks5Cmd env args = with_flags (numbers env) socks5_flags args (\<lambda>fs.
     let json = bool_flag ''json'' fs in
     if string_flag ''server'' fs = [] \<or> string_flag ''token'' fs = []
     then exitErr (time_text env) (ErrorNew ''--server and --token are required'') json
     else
       let (acts, out, err) = socks5Main env
             \<lparr>opt_ServerURL = string_flag ''server'' fs, opt_Token = string_flag ''token'' fs,
              opt_ListenAddr = string_flag ''listen'' fs,
              opt_BrowserProfile = string_flag ''fingerprint'' fs,
              opt_InsecureSkipTLS = bool_flag ''insecure'' fs\<rparr>
       in finish_tunnel env json acts err out)"

definition checkCmd :: "client_env \<Rightarrow> string list \<Rightarrow> client_goroutine action list" where
  "checkCmd env args = with_flags (numbers env)
     [(''server'', StringFlag []), (''listen'', StringFlag ''127.0.0.1:1080''), (''json'', BoolFlag False)]
     args (\<lambda>fs. finish_command env (bool_flag ''json'' fs)
       (checkClientMain env (string_flag ''server'' fs) (string_flag ''listen'' fs)))"

definition pingCmd :: "client_env \<Rightarrow> string list \<Rightarrow> client_goroutine action list" where
  "pingCmd env args = with_flags (numbers env)
     [(''server'', StringFlag []), (''fingerprint'', StringFlag ''chrome''),
      (''json'', BoolFlag False), (''insecure'', BoolFlag False)]
     args (\<lambda>fs. finish_command env (bool_flag ''json'' fs)
       (pingMain env (string_flag ''server'' fs) (string_flag ''fingerprint'' fs) (bool_flag ''insecure'' fs)))"

definition statsCmd :: "client_env \<Rightarrow> string list \<Rightarrow> client_goroutine action list" where
  "statsCmd env args = with_flags (numbers env) [(''json'', BoolFlag False)] args
     (\<lambda>fs. printEnvelope (time_text env) \<lparr>OK = True, out_message = [],
        out_data = Statistics (Snapshot (NewStats (start_time env)))\<rparr> (bool_flag ''json'' fs))"

text \<open>\<^verbatim>\<open>main\<close>, with the arguments after the program's name.\<close>

definition client_main :: "client_env \<Rightarrow> string list \<Rightarrow> client_goroutine action list" where
  "client_main env args = main_returns
     (case args of
        [] \<Rightarrow> [PrintErr usage_text, Exit 2]
      | cmd # rest \<Rightarrow>
          if cmd = ''connect'' then connectCmd env rest
          else if cmd = ''socks5'' then socks5Cmd env rest
          else if cmd = ''check'' then checkCmd env rest
          else if cmd = ''ping'' then pingCmd env rest
          else if cmd = ''stats'' then statsCmd env rest
          else if cmd = ''version'' then [Print (Line version_text)]
          else [PrintErr usage_text, Exit 2])"

section \<open>How a run ends\<close>

lemma connectMain_no_exit: "\<not> list_ex is_exit (fst (connectMain env cfg))"
  by (simp add: connectMain_def Let_def split: sum.split)

lemma socks5Main_no_exit: "\<not> list_ex is_exit (fst (socks5Main env opts))"
  by (simp add: socks5Main_def Let_def split: sum.split)

lemma finish_tunnel_proper:
  "\<not> list_ex is_exit acts \<Longrightarrow> proper_run (finish_tunnel env json acts err out)"
  by (auto simp: finish_tunnel_def proper_run_def split: option.splits)

lemma finish_command_proper: "proper_run (finish_command env json r)"
  by (simp add: finish_command_def split: sum.split)

lemma connectCmd_proper: "proper_run (connectCmd env args)"
  unfolding connectCmd_def Let_def
proof (rule proper_with_flags)
  fix fs
  let ?r = "connectMain env \<lparr>ServerURL = string_flag ''server'' fs, cfg_Token = string_flag ''token'' fs,
     ListenSocks = [], UDPAssociate = [], BrowserProfile = string_flag ''fingerprint'' fs,
     InsecureSkipTLS = bool_flag ''insecure'' fs, cfg_Heartbeat = 0\<rparr>"
  show "proper_run (if string_flag ''server'' fs = [] \<or> string_flag ''token'' fs = []
     then exitErr (time_text env) (ErrorNew ''--server and --token are required'') (bool_flag ''json'' fs)
     else case ?r of (acts, err) \<Rightarrow> finish_tunnel env (bool_flag ''json'' fs) acts err
       \<lparr>OK = True, out_message = ''tunnel connected'', out_data = NoData\<rparr>)"
    using finish_tunnel_proper [OF connectMain_no_exit] by (simp add: split_beta)
qed

lemma socks5Cmd_proper: "proper_run (socks5Cmd env args)"
  unfolding socks5Cmd_def Let_def
proof (rule proper_with_flags)
  fix fs
  let ?r = "socks5Main env \<lparr>opt_ServerURL = string_flag ''server'' fs, opt_Token = string_flag ''token'' fs,
     opt_ListenAddr = string_flag ''listen'' fs, opt_BrowserProfile = string_flag ''fingerprint'' fs,
     opt_InsecureSkipTLS = bool_flag ''insecure'' fs\<rparr>"
  show "proper_run (if string_flag ''server'' fs = [] \<or> string_flag ''token'' fs = []
     then exitErr (time_text env) (ErrorNew ''--server and --token are required'') (bool_flag ''json'' fs)
     else case ?r of (acts, out, err) \<Rightarrow> finish_tunnel env (bool_flag ''json'' fs) acts err out)"
    using finish_tunnel_proper [OF socks5Main_no_exit] by (simp add: split_beta)
qed

lemma other_commands_proper:
  "proper_run (checkCmd env args)" "proper_run (pingCmd env args)" "proper_run (statsCmd env args)"
  unfolding checkCmd_def pingCmd_def statsCmd_def
  by (rule proper_with_flags, simp add: finish_command_proper)+


section \<open>The tunnel commands\<close>

text \<open>The session a tunnel command starts with: new, with the AUTH frame in its control queue.\<close>

definition auth_frame :: "string \<Rightarrow> byte list \<Rightarrow> frame" where
  "auth_frame token nonce =
     data_frame FrameAUTH 0 (EncodeAuthPayload \<lparr>Token = token, Nonce = nonce\<rparr>)"

lemma new_client_session_auth:
  assumes "nonce_bytes env = Inr nonce" and "length nonce = 12" and "length token \<le> 16370"
  obtains s where "new_client_session env token tunnel = Inr s"
    and "q_list (controlQ s) = [auth_frame token nonce]" and "q_list (dataQ s) = []"
    and "session_wf s" and "s_reader s = ReadCloser tunnel" and "s_writer s = WriteCloser tunnel"
    and "\<not> closed s" and "transmittable (auth_frame token nonce)"
proof -
  let ?s = "NewSession (of_int (unix_nanos env)) (ReadCloser tunnel) (WriteCloser tunnel)
      (NewStats (start_time env)) DefaultHeartbeat (start_time env)"
  let ?f = "auth_frame token nonce"
  have len: "length (payload ?f) \<le> 16384"
    using assms(2,3) by (simp add: auth_frame_def data_frame_def zero_frame_def EncodeAuthPayload_def)
  have q: "q_list (controlQ ?s) = []" "q_list (dataQ ?s) = []"
    by (simp_all add: NewSession_def)
  have room: "control_room ?s ?f" using len by (simp add: control_room_def q payload_bytes_def)
  note ql = QueueControl_list [OF session_wf_New, of ?f "of_int (unix_nanos env)" "ReadCloser tunnel"
      "WriteCloser tunnel" "NewStats (start_time env)" DefaultHeartbeat "start_time env"]
  obtain t where ok: "QueueControl ?f ?s = (None, t)" using ql(1) room by (metis prod.collapse)
  have "transmittable ?f"
    using len by (simp add: auth_frame_def transmittable_def encodable_def data_frame_def
        zero_frame_def KnownFrameType_def)
  moreover have "new_client_session env token tunnel = Inr t"
    unfolding new_client_session_def NewAuthFrame_def Let_def assms(1) sum.case
      auth_frame_def [symmetric] ok by simp
  moreover have "q_list (controlQ t) = [?f]" "dataQ t = dataQ ?s" "session_wf t"
    using ql room q by (simp_all add: ok)
  moreover have "queues_only ?s t" using ok by (rule data_frame_reply)
  moreover have "s_reader ?s = ReadCloser tunnel" "s_writer ?s = WriteCloser tunnel" "\<not> closed ?s"
    by (simp_all add: NewSession_def)
  ultimately show ?thesis using q by (intro that [of t]) (simp_all add: queues_only_def)
qed

text \<open>C29. \<^verbatim>\<open>connect\<close>, with its options written as in the manual: when the server answers
  (whatever the status of the answer), the command starts a session whose first frame carries the
  token, waits for an interrupt, and only then prints \<^verbatim>\<open>tunnel connected\<close> and ends with exit
  code 0; what becomes of the session, a refused token included, does not matter.\<close>

theorem connect_run:
  assumes "\<forall>opt \<in> set opts. option_fits (numbers env) connect_flags opt"
    and "fs = fold (apply_option (numbers env)) opts connect_flags"
    and "string_flag ''server'' fs \<noteq> []" and "string_flag ''token'' fs = token" and "token \<noteq> []"
    and "length token \<le> 16370" and "nonce_bytes env = Inr nonce" and "length nonce = 12"
    and "DialClientTunnel (http_env.truncate env)
      \<lparr>ServerURL = string_flag ''server'' fs, cfg_Token = token, ListenSocks = [], UDPAssociate = [],
       BrowserProfile = string_flag ''fingerprint'' fs, InsecureSkipTLS = bool_flag ''insecure'' fs,
       cfg_Heartbeat = 0\<rparr> = Inr tunnel"
  shows "\<exists>s. client_main env (''connect'' # concat (map option_args opts)) =
      [Spawn (RunNoop s), AwaitDone, CloseStream ''request body'', CloseStream ''response body'']
        @ printEnvelope (time_text env)
            \<lparr>OK = True, out_message = ''tunnel connected'', out_data = NoData\<rparr> (bool_flag ''json'' fs)
        @ [Exit 0]
    \<and> q_list (controlQ s) = [auth_frame token nonce] \<and> q_list (dataQ s) = []
    \<and> s_writer s = WriteCloser tunnel
    \<and> DecodeAuthPayload (payload (auth_frame token nonce)) = Inr \<lparr>Token = token, Nonce = nonce\<rparr>"
proof -
  obtain s where s: "new_client_session env token tunnel = Inr s"
    "q_list (controlQ s) = [auth_frame token nonce]" "q_list (dataQ s) = []" "s_writer s = WriteCloser tunnel"
    using new_client_session_auth [OF assms(7,8,6), of tunnel] by metis
  have dec: "DecodeAuthPayload (payload (auth_frame token nonce)) = Inr \<lparr>Token = token, Nonce = nonce\<rparr>"
    using DecodeAuth_Encode [of "\<lparr>Token = token, Nonce = nonce\<rparr>" "[]"] assms(6,8)
    by (simp add: auth_frame_def data_frame_def)
  have "connectMain env \<lparr>ServerURL = string_flag ''server'' fs, cfg_Token = token,
       ListenSocks = [], UDPAssociate = [], BrowserProfile = string_flag ''fingerprint'' fs,
       InsecureSkipTLS = bool_flag ''insecure'' fs, cfg_Heartbeat = 0\<rparr>
      = ([Spawn (RunNoop s), AwaitDone, CloseStream ''request body'', CloseStream ''response body''],
         Some Canceled)"
    using s(1) assms(9) by (simp add: connectMain_def Let_def)
  then have "connectCmd env (concat (map option_args opts)) =
      [Spawn (RunNoop s), AwaitDone, CloseStream ''request body'', CloseStream ''response body'']
        @ printEnvelope (time_text env)
            \<lparr>OK = True, out_message = ''tunnel connected'', out_data = NoData\<rparr> (bool_flag ''json'' fs)"
    using assms(3-5)
    unfolding connectCmd_def with_flags_options [OF assms(1)] assms(2) [symmetric]
    by (simp add: finish_tunnel_def)
  then have "client_main env (''connect'' # concat (map option_args opts)) =
      [Spawn (RunNoop s), AwaitDone, CloseStream ''request body'', CloseStream ''response body'']
        @ printEnvelope (time_text env)
            \<lparr>OK = True, out_message = ''tunnel connected'', out_data = NoData\<rparr> (bool_flag ''json'' fs)
        @ [Exit 0]"
    by (simp add: client_main_def main_returns_def)
  with s dec show ?thesis by blast
qed

definition demo_client_env :: client_env where
  "demo_client_env =
     \<lparr>NewRequest_err = \<lambda>_. None,
      http_Do = \<lambda>_ _. Inr \<lparr>Status = ''404 Not Found'', StatusCode = 404,
        resp_body = \<lparr>avail = [], end_err = EOF\<rparr>\<rparr>,
      http_Pipe = \<lparr>written = [], room = None, write_err = EOF\<rparr>,
      header_order = \<lambda>_. [], quoted = \<lambda>s. s, url_Parse = \<lambda>_. None,
      nonce_bytes = Inr (replicate 12 7), unix_nanos = 5, start_time = 5,
      listen_tcp = \<lambda>a. Inr a, interrupted = False, accepted_conns = new_network (\<lambda>_ _. None),
      udp_services = \<lambda>_. Inl EOF, time_text = \<lambda>_. [],
      numbers = \<lparr>int_syntax = \<lambda>_. None, duration_syntax = \<lambda>_. None\<rparr>\<rparr>"

lemma demo_dial:
  "BrowserProfile cfg = ''chrome'' \<Longrightarrow>
     \<exists>tunnel. DialClientTunnel (http_env.truncate demo_client_env) cfg = Inr tunnel"
proof -
  have "ToLower (TrimSpace ''chrome'') = ''chrome''" by code_simp
  then show "BrowserProfile cfg = ''chrome'' \<Longrightarrow> ?thesis"
    by (simp add: DialClientTunnel_def demo_client_env_def http_env.defs ResolveBrowserProfile_def Let_def)
qed

theorem connect_run_witness:
  "\<exists>s. client_main demo_client_env [''connect'', ''--server'', ''https://h'', ''--token=tok'', ''--json''] =
      [Spawn (RunNoop s), AwaitDone, CloseStream ''request body'', CloseStream ''response body'',
       Print (JSONLine (JObject [(''ok'', JBool True), (''message'', JString ''tunnel connected'')])), Exit 0]
    \<and> q_list (controlQ s) = [auth_frame ''tok'' (replicate 12 7)]"
proof -
  let ?opts = "[(''server'', Separate ''https://h''), (''token'', Joined ''tok''), (''json'', Bare)]"
  let ?ns = "numbers demo_client_env" and ?n = "replicate 12 7"
  define fs where "fs = fold (apply_option ?ns) ?opts connect_flags"
  have fs: "fs = [(''server'', StringFlag ''https://h''), (''token'', StringFlag ''tok''),
      (''fingerprint'', StringFlag ''chrome''), (''json'', BoolFlag True), (''insecure'', BoolFlag False)]"
    by (simp add: fs_def apply_option_def connect_flags_def assign_flag_def ParseBool_def)
  have fits: "\<forall>opt \<in> set ?opts. option_fits ?ns connect_flags opt"
    by (simp add: option_fits_def connect_flags_def plain_name_def is_bool_flag_def ParseBool_def)
  have flag: "string_flag ''server'' fs \<noteq> []" "string_flag ''token'' fs = ''tok''"
    "string_flag ''fingerprint'' fs = ''chrome''" "bool_flag ''json'' fs"
    by (simp_all add: fs string_flag_def bool_flag_def)
  have tok: "''tok'' \<noteq> []" "length ''tok'' \<le> 16370" "length ?n = 12" by simp_all
  have nonce: "nonce_bytes demo_client_env = Inr ?n" by (simp add: demo_client_env_def)
  obtain tunnel where dial: "DialClientTunnel (http_env.truncate demo_client_env)
      \<lparr>ServerURL = string_flag ''server'' fs, cfg_Token = ''tok'', ListenSocks = [], UDPAssociate = [],
       BrowserProfile = string_flag ''fingerprint'' fs, InsecureSkipTLS = bool_flag ''insecure'' fs,
       cfg_Heartbeat = 0\<rparr> = Inr tunnel"
    using demo_dial flag(3) by fastforce
  show ?thesis
    using connect_run [OF fits fs_def flag(1,2) tok(1,2) nonce tok(3) dial] flag(4)
    by (auto simp: printEnvelope_def envelope_json_def)
qed

text \<open>Runs that neither wait nor start the goroutine that accepts connections.\<close>

definition plain_run :: "client_goroutine action list \<Rightarrow> bool" where
  "plain_run acts = list_all (\<lambda>a. case a of AwaitDone \<Rightarrow> False
     | Spawn g \<Rightarrow> (case g of AcceptLoop _ \<Rightarrow> False | _ \<Rightarrow> True) | _ \<Rightarrow> True) acts"

lemma plain_run_simps [simp]:
  "plain_run []" "plain_run (printEnvelope tm out json)" "plain_run (exitErr tm e json)"
  "plain_run (as @ bs) \<longleftrightarrow> plain_run as \<and> plain_run bs" "plain_run [FlagUsage fe, Exit c]"
  "plain_run [Exit c]" "plain_run [Spawn (RunClient h s)]"
  by (simp_all add: plain_run_def printEnvelope_def exitErr_def)

lemma plain_run_no_wait: "plain_run acts \<Longrightarrow> \<not> awaits acts"
  by (auto simp: plain_run_def awaits_def list_ex_iff list_all_iff split: action.splits)

lemma plain_run_no_accept: "plain_run acts \<Longrightarrow> Spawn (AcceptLoop addr) \<notin> set acts"
  by (auto simp: plain_run_def list_all_iff split: action.splits)

definition proxy_run :: "client_env \<Rightarrow> client_goroutine action list \<Rightarrow> bool" where
  "proxy_run env acts \<longleftrightarrow> (\<exists>h s addr json. acts =
     [Spawn (RunClient h s), Spawn CloseListener, Spawn (AcceptLoop addr)]
       @ printEnvelope (time_text env) \<lparr>OK = True, out_message = ''SOCKS5 listening'',
           out_data = Settings [(''listen'', addr)]\<rparr> json)"

lemma socks5Main_cases:
  obtains (plain) acts out err where "socks5Main env opts = (acts, out, err)" "plain_run acts"
  | (proxy) h s addr where "socks5Main env opts =
      ([Spawn (RunClient h s), Spawn CloseListener, Spawn (AcceptLoop addr)],
       \<lparr>OK = True, out_message = ''SOCKS5 listening'', out_data = Settings [(''listen'', addr)]\<rparr>, None)"
proof (cases "DialClientTunnel (http_env.truncate env) (client_config_of opts)")
  case (Inr tunnel)
  show ?thesis
  proof (cases "new_client_session env (opt_Token opts) tunnel")
    case s: (Inr s)
    show ?thesis
      by (cases "listen_tcp env (opt_ListenAddr opts)")
        (use Inr s that in \<open>simp_all add: socks5Main_def Let_def\<close>)
  qed (use Inr that in \<open>simp add: socks5Main_def Let_def\<close>)
qed (use that in \<open>simp add: socks5Main_def\<close>)

lemma socks5Cmd_cases: "plain_run (socks5Cmd env args) \<or> proxy_run env (socks5Cmd env args)"
proof -
  have fin: "plain_run (finish_tunnel env json acts err out)" if "plain_run acts" for json acts err out
    using that by (simp add: finish_tunnel_def split: option.split)
  have "plain_run (case socks5Main env opts of (acts, out, err) \<Rightarrow> finish_tunnel env json acts err out)
      \<or> proxy_run env (case socks5Main env opts of (acts, out, err) \<Rightarrow> finish_tunnel env json acts err out)"
    for opts json
  proof (cases rule: socks5Main_cases [of env opts])
    case proxy
    then show ?thesis by (auto simp: finish_tunnel_def proxy_run_def)
  qed (simp add: fin)
  then show ?thesis
    unfolding socks5Cmd_def with_flags_def Let_def
    by (cases "Parse (numbers env) socks5_flags args") auto
qed

text \<open>C30. \<^verbatim>\<open>socks5\<close> does not wait for anything: once the goroutine that accepts
  connections has been started, the command prints its message and the process ends, so the proxy
  is gone when it is announced.\<close>

theorem socks5_ends_at_once:
  "\<not> awaits (client_main env (''socks5'' # args))
   \<and> (\<forall>pre addr rest. client_main env (''socks5'' # args) = pre @ Spawn (AcceptLoop addr) # rest \<longrightarrow>
        (\<exists>json. rest = printEnvelope (time_text env) \<lparr>OK = True, out_message = ''SOCKS5 listening'',
           out_data = Settings [(''listen'', addr)]\<rparr> json @ [Exit 0]))"
proof -
  let ?cmd = "socks5Cmd env args"
  have run: "client_main env (''socks5'' # args) = ?cmd @ (if list_ex is_exit ?cmd then [] else [Exit 0])"
    by (simp add: client_main_def main_returns_def)
  show ?thesis
  proof (cases "plain_run ?cmd")
    case True
    then have "plain_run (client_main env (''socks5'' # args))" unfolding run by simp
    then show ?thesis using plain_run_no_wait plain_run_no_accept by fastforce
  next
    case False
    then obtain h s addr0 json where c: "?cmd =
       [Spawn (RunClient h s), Spawn CloseListener, Spawn (AcceptLoop addr0)]
         @ printEnvelope (time_text env) \<lparr>OK = True, out_message = ''SOCKS5 listening'',
             out_data = Settings [(''listen'', addr0)]\<rparr> json" (is "_ = _ @ ?print")
      using False socks5Cmd_cases [of env args] unfolding proxy_run_def by blast
    have "Spawn (AcceptLoop addr) \<notin> set (?print @ [Exit 0])" for addr
      by (rule plain_run_no_accept) simp
    then have "?print @ [Exit 0] \<noteq> more @ Spawn (AcceptLoop addr) # rest" for more addr rest
      by (metis in_set_conv_decomp)
    then show ?thesis unfolding run
      by (auto simp: c Cons_eq_append_conv)
  qed
qed

theorem socks5_ends_at_once_witness:
  "\<exists>s json. client_main demo_client_env [''socks5'', ''--server=https://h'', ''--token=tok''] =
     [Spawn (RunClient (newTunnelClient (new_network (\<lambda>_ _. None)) (\<lambda>_. Inl EOF)) s), Spawn CloseListener,
      Spawn (AcceptLoop ''127.0.0.1:1080'')]
     @ printEnvelope (\<lambda>_. []) \<lparr>OK = True, out_message = ''SOCKS5 listening'',
         out_data = Settings [(''listen'', ''127.0.0.1:1080'')]\<rparr> json @ [Exit 0]"
proof -
  let ?opts = "[(''server'', Joined ''https://h''), (''token'', Joined ''tok'')]" and ?e = demo_client_env
  let ?args = "concat (map option_args ?opts)"
  define fs where "fs = fold (apply_option (numbers ?e)) ?opts socks5_flags"
  have flag: "string_flag ''server'' fs = ''https://h''" "string_flag ''token'' fs = ''tok''"
    "string_flag ''fingerprint'' fs = ''chrome''" "string_flag ''listen'' fs = ''127.0.0.1:1080''"
    by (simp_all add: fs_def apply_option_def socks5_flags_def assign_flag_def string_flag_def)
  have fits: "\<forall>opt \<in> set ?opts. option_fits (numbers ?e) socks5_flags opt"
    by (simp add: option_fits_def socks5_flags_def plain_name_def is_bool_flag_def)
  let ?o = "\<lparr>opt_ServerURL = ''https://h'', opt_Token = ''tok'', opt_ListenAddr = ''127.0.0.1:1080'',
      opt_BrowserProfile = ''chrome'', opt_InsecureSkipTLS = bool_flag ''insecure'' fs\<rparr>"
  obtain tunnel where dial: "DialClientTunnel (http_env.truncate ?e) (client_config_of ?o) = Inr tunnel"
    using demo_dial by (fastforce simp: client_config_of_def)
  have nonce: "nonce_bytes ?e = Inr (replicate 12 7)" "length (replicate 12 7 :: byte list) = 12"
    "length ''tok'' \<le> 16370" by (simp_all add: demo_client_env_def)
  obtain s where s: "new_client_session ?e ''tok'' tunnel = Inr s"
    using new_client_session_auth [OF nonce] by metis
  let ?c = "newTunnelClient (new_network (\<lambda>_ _. None)) (\<lambda>_. Inl EOF)"
  let ?out = "\<lparr>OK = True, out_message = ''SOCKS5 listening'', out_data = Settings [(''listen'', ''127.0.0.1:1080'')]\<rparr>"
  have env: "accepted_conns ?e = new_network (\<lambda>_ _. None)" "udp_services ?e = (\<lambda>_. Inl EOF)"
    "listen_tcp ?e a = Inr a" "time_text ?e = (\<lambda>_. [])" for a by (simp_all add: demo_client_env_def)
  have "socks5Main ?e ?o = ([Spawn (RunClient ?c s), Spawn CloseListener, Spawn (AcceptLoop ''127.0.0.1:1080'')], ?out, None)"
    using dial s by (simp add: socks5Main_def env Let_def)
  then have "socks5Cmd ?e ?args = [Spawn (RunClient ?c s), Spawn CloseListener,
      Spawn (AcceptLoop ''127.0.0.1:1080'')] @ printEnvelope (\<lambda>_. []) ?out (bool_flag ''json'' fs)"
    unfolding socks5Cmd_def with_flags_options [OF fits] fs_def [symmetric] Let_def flag env(4) [symmetric]
    by (simp add: finish_tunnel_def)
  then have "client_main ?e (''socks5'' # ?args) = [Spawn (RunClient ?c s), Spawn CloseListener]
      @ Spawn (AcceptLoop ''127.0.0.1:1080'') # printEnvelope (\<lambda>_. []) ?out (bool_flag ''json'' fs) @ [Exit 0]"
    by (simp add: client_main_def main_returns_def)
  moreover note conjunct2 [OF socks5_ends_at_once, rule_format, OF this]
  then obtain json where "printEnvelope (\<lambda>_. []) ?out (bool_flag ''json'' fs) @ [Exit 0 :: client_goroutine action]
      = printEnvelope (time_text ?e) ?out json @ [Exit 0]" by blast
  ultimately show ?thesis by (auto simp: env)
qed

end
