(* ===== verification/SLPP_ServerMain.thy ===== *)
theory SLPP_ServerMain
  imports SLPP_Server SLPP_Admin SLPP_Http SLPP_Process
begin

text \<open>
  The server program, \<^verbatim>\<open>cmd/slppd/main.go\<close>: \<^verbatim>\<open>main\<close> and its commands, and the routes
  of the HTTP server that \<^verbatim>\<open>run\<close> starts.  A command is the sequence of its actions together
  with the files it leaves; the \<^verbatim>\<open>Main\<close> functions of the token commands are in
  \<open>SLPP_Admin\<close>.
\<close>

section \<open>Environment\<close>

text \<open>
  \<open>serve_err\<close> is the error with which \<^verbatim>\<open>ListenAndServeTLS\<close> returns (it never returns
  without one); \<open>main_stopped\<close> and \<open>cmd_stopped\<close> tell whether the context was done when
  \<^verbatim>\<open>runServerMain\<close> and then \<^verbatim>\<open>runServer\<close> looked at it.  \<open>control_get\<close> is the
  outcome of a GET on a control socket: no connection, or a body that is not JSON, or its value.
\<close>

record server_env =
  files :: disk
  clock :: int
  clock2 :: int
  random_token :: "go_error + byte list"
  random_id :: "go_error + byte list"
  file_order :: "string list"
  file_write :: write_outcome
  serve_err :: go_error
  main_stopped :: bool
  cmd_stopped :: bool
  control_get :: "string \<Rightarrow> go_error + (go_error + json)"
  float_round :: "int \<Rightarrow> int"
  time_format :: "int \<Rightarrow> string"
  number_formats :: number_syntax

text \<open>\<^verbatim>\<open>TunnelHandler\<close>, and the goroutines and the blocking call of a server.\<close>

record tunnel_handler =
  Validator :: store
  Stats :: stats

datatype server_goroutine =
    RunControl control_server stats
  | ShutdownWhenDone
  | ListenAndServeTLS "tunnel_route http_server" tunnel_handler string string

definition server_version :: string where
  "server_version = ''0.1.0''"

definition server_usage :: string where
  "server_usage = ''usage: slppd {run|service|check|gen-token|revoke-token|stats|bench|version}''"

section \<open>What the commands do\<close>

record server_run_options =
  run_ListenAddr :: string
  run_CertFile :: string
  run_KeyFile :: string
  run_TokenFile :: string
  run_ControlSocket :: string

definition runServerMain ::
  "server_env \<Rightarrow> server_run_options \<Rightarrow> server_goroutine action list \<times> (output_envelope \<times> go_error option)" where
  "runServerMain env opts =
     (if run_CertFile opts = [] \<or> run_KeyFile opts = [] then
        ([], no_envelope, Some (ErrorNew ''both --cert and --key are required''))
      else
        let stats = NewStats (clock env) in
        case NewStore (files env) (run_TokenFile opts) of
          Inl e \<Rightarrow> ([], no_envelope, Some e)
        | Inr store \<Rightarrow>
            let handler = \<lparr>Validator = store, Stats = stats\<rparr>;
                server = NewHTTPServer \<lparr>ListenAddr = run_ListenAddr opts, CertFile = run_CertFile opts,
                  KeyFile = run_KeyFile opts, TokenFile_path = [], ControlSocket = run_ControlSocket opts,
                  cfg_ServerHeartbeat = 0, IdleTimeout = 0, cfg_TLSConfig = None\<rparr>;
                acts = [Spawn (RunControl (NewServer (run_ControlSocket opts)) stats), Spawn ShutdownWhenDone,
                  Call (ListenAndServeTLS server handler (run_CertFile opts) (run_KeyFile opts))];
                out = \<lparr>OK = True, out_message = ''slppd listening on '' @ run_ListenAddr opts,
                  out_data = Settings [(''listen'', run_ListenAddr opts)]\<rparr>
            in if \<not> errors_is (serve_err env) ErrServerClosed \<and> \<not> main_stopped env
               then (acts, out, Some (serve_err env)) else (acts, out, None))"

definition statsMain :: "server_env \<Rightarrow> string \<Rightarrow> go_error + output_envelope" where
  "statsMain env sock =
     (case control_get env sock of
        Inl _ \<Rightarrow> Inr \<lparr>OK = True, out_message = ''control socket unavailable, showing empty snapshot'',
          out_data = Statistics (Snapshot (NewStats (clock env)))\<rparr>
      | Inr (Inl e) \<Rightarrow> Inl e
      | Inr (Inr body) \<Rightarrow> decode_envelope (float_round env) body)"

section \<open>The commands\<close>

definition report ::
  "server_env \<Rightarrow> bool \<Rightarrow> go_error + output_envelope \<Rightarrow> server_goroutine action list" where
  "report env json r =
     (case r of Inl e \<Rightarrow> exitErr (time_format env) e json
      | Inr out \<Rightarrow> printEnvelope (time_format env) out json)"

definition run_flags :: flag_set where
  "run_flags =
     [(''listen'', StringFlag '':8443''), (''cert'', StringFlag []), (''key'', StringFlag []),
      (''token-file'', StringFlag ''tokens.json''), (''control-socket'', StringFlag ''/tmp/slppd.sock''),
      (''json'', BoolFlag False)]"

definition run_options :: "flag_set \<Rightarrow> server_run_options" where
  "run_options fs =
     \<lparr>run_ListenAddr = string_flag ''listen'' fs, run_CertFile = string_flag ''cert'' fs,
      run_KeyFile = string_flag ''key'' fs, run_TokenFile = string_flag ''token-file'' fs,
      run_ControlSocket = string_flag ''control-socket'' fs\<rparr>"

definition runServer :: "server_env \<Rightarrow> string list \<Rightarrow> server_goroutine action list" where
  "runServer env args = with_flags (number_formats env) run_flags args (\<lambda>fs.
     let json = bool_flag ''json'' fs;
         (acts, out, err) = runServerMain env (run_options fs);
         shown = (if json then [Print (JSONLine (envelope_json (time_format env) out))]
                  else if out_message out \<noteq> [] then [Print (Line (out_message out))] else [])
     in case err of
          Some e \<Rightarrow> if cmd_stopped env then acts @ shown
                     else acts @ shown @ exitErr (time_format env) e json
        | None \<Rightarrow> acts @ shown)"

definition checkServer :: "server_env \<Rightarrow> string list \<Rightarrow> server_goroutine action list" where
  "checkServer env args = with_flags (number_formats env)
     [(''listen'', StringFlag '':8443''), (''token-file'', StringFlag ''tokens.json''), (''json'', BoolFlag False)]
     args (\<lambda>fs. report env (bool_flag ''json'' fs)
       (checkServerMain (string_flag ''listen'' fs) (string_flag ''token-file'' fs) (files env)))"

text \<open>The commands that write the token file return the files as well.\<close>

definition genToken :: "server_env \<Rightarrow> string list \<Rightarrow> server_goroutine action list \<times> disk" where
  "genToken env args =
     (case Parse (number_formats env)
         [(''token-file'', StringFlag ''tokens.json''), (''ttl'', DurationFlag (24 * 3600 * 1000000000)),
          (''json'', BoolFlag False)] args of
        Inl e \<Rightarrow> ([FlagUsage e, Exit (flag_exit_code e)], files env)
      | Inr fs \<Rightarrow>
          (let (r, dk) = genTokenMain (string_flag ''token-file'' fs) (int_flag ''ttl'' fs) (clock env)
                 (random_token env) (random_id env) (file_order env) (file_write env) (files env)
           in (report env (bool_flag ''json'' fs) r, dk)))"

definition revokeToken :: "server_env \<Rightarrow> string list \<Rightarrow> server_goroutine action list \<times> disk" where
  "revokeToken env args =
     (case Parse (number_formats env)
         [(''token-file'', StringFlag ''tokens.json''), (''id'', StringFlag []), (''json'', BoolFlag False)] args of
        Inl e \<Rightarrow> ([FlagUsage e, Exit (flag_exit_code e)], files env)
      | Inr fs \<Rightarrow>
          if string_flag ''id'' fs = []
          then (exitErr (time_format env) (ErrorNew ''--id is required'') (bool_flag ''json'' fs), files env)
          else let (r, dk) = revokeTokenMain (string_flag ''token-file'' fs) (string_flag ''id'' fs)
                 (file_order env) (file_write env) (files env)
               in (report env (bool_flag ''json'' fs) r, dk))"

definition printStats :: "server_env \<Rightarrow> string list \<Rightarrow> server_goroutine action list" where
  "printStats env args = with_flags (number_formats env)
     [(''control-socket'', StringFlag ''/tmp/slppd.sock''), (''json'', BoolFlag False)] args
     (\<lambda>fs. report env (bool_flag ''json'' fs) (statsMain env (string_flag ''control-socket'' fs)))"

definition runBench :: "server_env \<Rightarrow> string list \<Rightarrow> server_goroutine action list" where
  "runBench env args = with_flags (number_formats env)
     [(''n'', IntFlag 1000), (''json'', BoolFlag False)] args
     (\<lambda>fs. printEnvelope (time_format env) \<lparr>OK = True, out_message = [],
        out_data = Bench (fst (CodecEncode (int_flag ''n'' fs) (clock env) (clock2 env)))\<rparr>
        (bool_flag ''json'' fs))"

definition server_main :: "server_env \<Rightarrow> string list \<Rightarrow> server_goroutine action list \<times> disk" where
  "server_main env args =
     (let (acts, dk) =
        (case args of
           [] \<Rightarrow> ([PrintErr server_usage, Exit 2], files env)
         | cmd # rest \<Rightarrow>
             if cmd = ''run'' \<or> cmd = ''service'' then (runServer env rest, files env)
             else if cmd = ''check'' then (checkServer env rest, files env)
             else if cmd = ''gen-token'' then genToken env rest
             else if cmd = ''revoke-token'' then revokeToken env rest
             else if cmd = ''stats'' then (printStats env rest, files env)
             else if cmd = ''bench'' then (runBench env rest, files env)
             else if cmd = ''version'' then ([Print (Line server_version)], files env)
             else ([PrintErr server_usage, Exit 2], files env))
      in (main_returns acts, dk))"

section \<open>The routes of the server\<close>

datatype tunnel_reply =
    NotFound
  | HealthReply json
  | TunnelReply nat "(session \<times> server) option"

definition tunnel_ServeHTTP ::
  "string \<Rightarrow> string \<Rightarrow> bool \<Rightarrow> reader \<Rightarrow> writer \<Rightarrow> stats \<Rightarrow> server
     \<Rightarrow> tunnel_route http_server \<Rightarrow> tunnel_reply" where
  "tunnel_ServeHTTP path httpMethod can_flush body wr st h srv =
     (case map_of (Handler srv) path of
        None \<Rightarrow> NotFound
      | Some TunnelHealth \<Rightarrow> HealthReply health_json
      | Some HandleTunnel \<Rightarrow>
          (case handleTunnel httpMethod can_flush body wr st h of (code, r) \<Rightarrow> TunnelReply code r))"

section \<open>How a run ends\<close>

lemma report_proper: "proper_run (report env json r)"
  by (simp add: report_def split: sum.split)

lemma runServerMain_no_exit: "\<not> list_ex is_exit (fst (runServerMain env opts))"
  by (simp add: runServerMain_def Let_def split: sum.split)

lemma runServer_proper: "proper_run (runServer env args)"
  unfolding runServer_def
proof (rule proper_with_flags)
  fix fs
  obtain acts out err where r: "runServerMain env (run_options fs) = (acts, out, err)"
    by (metis prod.exhaust)
  then have "\<not> list_ex is_exit acts" using runServerMain_no_exit by (metis fst_conv)
  then show "proper_run
     (let json = bool_flag ''json'' fs;
         (acts, out, err) = runServerMain env (run_options fs);
         shown = (if json then [Print (JSONLine (envelope_json (time_format env) out))]
                  else if out_message out \<noteq> [] then [Print (Line (out_message out))] else [])
     in case err of
          Some e \<Rightarrow> if cmd_stopped env then acts @ shown
                     else acts @ shown @ exitErr (time_format env) e json
        | None \<Rightarrow> acts @ shown)"
    using complete_exitErr [of "acts @ [Print _]"] complete_exitErr [of acts]
    by (simp add: r proper_run_def Let_def split: option.split)
qed

lemma genToken_proper: "proper_run (fst (genToken env args))"
  by (auto simp: genToken_def split_beta report_proper proper_flag_usage split: sum.split)

lemma revokeToken_proper: "proper_run (fst (revokeToken env args))"
  by (auto simp: revokeToken_def split_beta report_proper proper_flag_usage split: sum.split)

lemma server_commands_proper:
  "proper_run (checkServer env args)" "proper_run (printStats env args)" "proper_run (runBench env args)"
  unfolding checkServer_def printStats_def runBench_def
  by (rule proper_with_flags, simp add: report_proper)+

text \<open>Every run of the server program ends, once and as its last action, with exit code 0, 1
  or 2, and with 1 only after it has reported an error; only \<^verbatim>\<open>gen-token\<close> and
  \<^verbatim>\<open>revoke-token\<close> change the token files.\<close>

theorem server_run_complete:
  "complete_run (fst (server_main env args))
   \<and> (snd (server_main env args) = files env \<or> hd args = ''gen-token'' \<or> hd args = ''revoke-token'')"
proof -
  have "complete_run (fst (server_main env args))"
    unfolding server_main_def split_beta Let_def fst_conv
    by (rule complete_main_returns)
      (simp add: runServer_proper genToken_proper revokeToken_proper server_commands_proper split: list.split)
  then show ?thesis by (simp add: server_main_def split_beta Let_def split: list.split)
qed

definition demo_server_env :: server_env where
  "demo_server_env =
     \<lparr>files = (\<lambda>_. NoFile)(''tokens.json'' := TokenFile [demo_record]), clock = 10, clock2 = 20,
      random_token = Inr [1, 2, 3], random_id = Inr [4, 5, 6], file_order = [], file_write = WriteOK,
      serve_err = ErrServerClosed, main_stopped = True, cmd_stopped = True,
      control_get = \<lambda>_. Inl EOF, float_round = \<lambda>n. n, time_format = \<lambda>_. ''now'',
      number_formats = \<lparr>int_syntax = \<lambda>_. None, duration_syntax = \<lambda>_. None\<rparr>\<rparr>"



section \<open>Statistics across the control socket\<close>

lemma fold_names: "fold_name ''ok'' = ''ok''" "fold_name ''message'' = ''message''"
  "fold_name ''data'' = ''data''"
  by code_simp+

lemma snapshot_keys_distinct: "distinct (map fst (snapshot_fields time sn))"
  by (simp add: snapshot_fields_def)

lemma any_json_snapshot:
  assumes "\<forall>k n. (k, JInt n) \<in> set (snapshot_fields time sn) \<longrightarrow> flt n = n"
  shows "any_fields flt (snapshot_fields time sn) = snapshot_fields time sn"
  using assms by (simp add: snapshot_fields_def)

lemma decode_statistics:
  assumes "\<forall>k n. (k, JInt n) \<in> set (snapshot_fields time sn) \<longrightarrow> flt n = n"
  shows "decode_envelope flt (envelope_json time \<lparr>OK = True, out_message = [], out_data = Statistics sn\<rparr>)
    = Inr \<lparr>OK = True, out_message = [], out_data = Any (JObject (map_object (snapshot_fields time sn)))\<rparr>"
  using any_json_snapshot [OF assms]
  by (simp add: envelope_json_def decode_envelope_def decode_field_def fold_names no_envelope_def Let_def
      del: fold_name.simps)

text \<open>\<^verbatim>\<open>slppd stats\<close> shows the counters of the server that answers on the control
  socket: every field of its snapshot under its own name, once, in alphabetical order, provided that
  no counter is beyond the 53 bits that survive a \<^verbatim>\<open>float64\<close>.\<close>

theorem stats_command_shows_server:
  assumes "control_reply (time_format env) st ''/stats'' (NewServer sock) = Some body"
    and "control_get env sock = Inr (Inr body)"
    and "\<forall>n. \<bar>n\<bar> \<le> 2 ^ 53 \<longrightarrow> float_round env n = n"
    and "\<forall>k n. (k, JInt n) \<in> set (snapshot_fields (time_format env) (Snapshot st)) \<longrightarrow> \<bar>n\<bar> \<le> 2 ^ 53"
  shows "\<exists>fields. fst (server_main env [''stats'', ''--control-socket'', sock, ''--json'']) =
      [Print (JSONLine (JObject [(''ok'', JBool True), (''data'', JObject fields)])), Exit 0]
    \<and> map fst fields = sort (map fst (snapshot_fields (time_format env) (Snapshot st)))
    \<and> (\<forall>k. map_of fields k = map_of (snapshot_fields (time_format env) (Snapshot st)) k)"
proof -
  let ?sf = "snapshot_fields (time_format env) (Snapshot st)" and ?ns = "number_formats env"
  let ?decls = "[(''control-socket'', StringFlag ''/tmp/slppd.sock''), (''json'', BoolFlag False)]"
  let ?opts = "[(''control-socket'', Separate sock), (''json'', Bare)]"
  have "body = envelope_json (time_format env)
      \<lparr>OK = True, out_message = [], out_data = Statistics (Snapshot st)\<rparr>"
    using assms(1) by (simp add: control_reply_def NewServer_def HandleFunc_def)
  then have main: "statsMain env sock
      = Inr \<lparr>OK = True, out_message = [], out_data = Any (JObject (map_object ?sf))\<rparr>"
    using assms(2-4) decode_statistics [of "time_format env" "Snapshot st" "float_round env"]
    by (simp add: statsMain_def)
  have fits: "\<forall>opt \<in> set ?opts. option_fits ?ns ?decls opt"
    by (simp add: option_fits_def plain_name_def is_bool_flag_def ParseBool_def)
  have fs: "fold (apply_option ?ns) ?opts ?decls
      = [(''control-socket'', StringFlag sock), (''json'', BoolFlag True)]"
    by (simp add: apply_option_def assign_flag_def ParseBool_def)
  have "printStats env (concat (map option_args ?opts)) =
      [Print (JSONLine (JObject [(''ok'', JBool True), (''data'', JObject (map_object ?sf))]))]"
    unfolding printStats_def with_flags_options [OF fits] fs
    by (simp add: string_flag_def bool_flag_def main report_def printEnvelope_def envelope_json_def)
  then have "fst (server_main env [''stats'', ''--control-socket'', sock, ''--json'']) =
      [Print (JSONLine (JObject [(''ok'', JBool True), (''data'', JObject (map_object ?sf))])), Exit 0]"
    by (simp add: server_main_def main_returns_def)
  moreover have "map fst (map_object ?sf) = sort (map fst ?sf)"
    unfolding map_object_keys by (simp add: distinct_remdups_id snapshot_keys_distinct)
  moreover have "map_of (map_object ?sf) k = map_of ?sf k" for k
    by (simp add: map_of_map_object map_of_rev_distinct snapshot_keys_distinct)
  ultimately show ?thesis by blast
qed

theorem stats_command_shows_server_witness:
  "\<exists>fields. fst (server_main (demo_server_env\<lparr>control_get := \<lambda>_. Inr (Inr
        (the (control_reply (\<lambda>_. ''now'') ((NewStats 1)\<lparr>framesIn := 77\<rparr>) ''/stats'' (NewServer ''s''))))\<rparr>)
        [''stats'', ''--control-socket'', ''s'', ''--json'']) =
      [Print (JSONLine (JObject [(''ok'', JBool True), (''data'', JObject fields)])), Exit 0]
    \<and> map_of fields ''frames_in'' = Some (JInt 77)"
proof -
  let ?st = "(NewStats 1)\<lparr>framesIn := 77\<rparr>"
  define body where "body = the (control_reply (\<lambda>_. ''now'') ?st ''/stats'' (NewServer ''s''))"
  let ?e = "demo_server_env\<lparr>control_get := \<lambda>_. Inr (Inr body)\<rparr>"
  have t: "time_format ?e = (\<lambda>_. ''now'')" by (simp add: demo_server_env_def)
  have h: "control_reply (time_format ?e) ?st ''/stats'' (NewServer ''s'') = Some body"
    "control_get ?e ''s'' = Inr (Inr body)" "\<forall>n. \<bar>n\<bar> \<le> 2 ^ 53 \<longrightarrow> float_round ?e n = n"
    by (simp_all add: body_def control_reply_def NewServer_def HandleFunc_def demo_server_env_def)
  have "\<forall>k n. (k, JInt n) \<in> set (snapshot_fields (time_format ?e) (Snapshot ?st)) \<longrightarrow> \<bar>n\<bar> \<le> 2 ^ 53"
    by (simp add: snapshot_fields_def Snapshot_def NewStats_def)
  note r = stats_command_shows_server [OF h this]
  moreover have "map_of (snapshot_fields (time_format ?e) (Snapshot ?st)) ''frames_in'' = Some (JInt 77)"
    by (simp add: snapshot_fields_def Snapshot_def)
  ultimately show ?thesis unfolding body_def by metis
qed

end
