(* ===== verification/SLPP_ClientRun.thy ===== *)
theory SLPP_ClientRun
  imports SLPP_Duplex SLPP_ClientMain
begin

text \<open>
  The client program at work, as a sequence of actions on its tunnel and its session
  (\<open>client_acts\<close>), and what each action does to the session (\<open>act_events\<close>).  The
  targets that SOCKS clients name are short, so that every frame the client queues fits.
\<close>

section \<open>The length of an address\<close>

lemma decimal_length: "n < 10 ^ k \<Longrightarrow> 0 < k \<Longrightarrow> length (decimal n) \<le> k"
proof (induction n arbitrary: k rule: decimal.induct)
  case (1 n)
  show ?case
  proof (cases "n < 10")
    case True
    then show ?thesis using 1(3) by (simp add: decimal.simps [of n])
  next
    case False
    then obtain k2 where k: "k = Suc k2" "0 < k2"
      using 1(2,3) by (cases k; cases "k - 1") auto
    moreover have "n div 10 < 10 ^ k2" using 1(2) k(1) by (simp add: less_mult_imp_div_less mult.commute)
    ultimately show ?thesis using 1(1) [OF False] False by (simp add: decimal.simps [of n])
  qed
qed

lemma length_port: "length (decimal (unat (p :: u16))) \<le> 5"
  using unat_u16_le [of p] by (intro decimal_length) simp_all

lemma length_octet: "length (decimal (unat (b :: byte))) \<le> 3"
  using unsigned_less [of b, where ?'a = nat] by (intro decimal_length) simp_all

lemma length_join_with:
  "\<forall>f \<in> set fs. length f \<le> n \<Longrightarrow> length (join_with sep fs) \<le> (n + 1) * length fs"
proof (induction fs)
  case (Cons f fs)
  have "length (concat (map (\<lambda>g. sep # g) fs)) \<le> (n + 1) * length fs"
    using Cons.prems by (induction fs) (auto simp: algebra_simps)
  then show ?case using Cons.prems by (simp add: join_with_def)
qed (simp add: join_with_def)

lemma length_ip4_string: "length ip = 4 \<Longrightarrow> length (ip4_string ip) \<le> 16"
  using length_join_with [of "map (\<lambda>b. decimal (unat b)) ip" 3 "CHR ''.''"] length_octet
  by (simp add: ip4_string_def)

lemma length_hex_text: "length (hex_text gs) \<le> 5 * length gs"
  using length_join_with [of "group_texts gs" 4 "CHR '':''"] length_group
  by (auto simp: hex_text_def)

lemma length_ip6_string: "length ip = 16 \<Longrightarrow> length (ip6_string ip) \<le> 82"
proof -
  assume "length ip = 16"
  then have gs: "length (groups_of ip) = 8" using length_groups_of [of ip] by simp
  have "length (hex_text (take i (groups_of ip))) \<le> 40" "length (hex_text (drop i (groups_of ip))) \<le> 40"
    "length (hex_text (groups_of ip)) \<le> 40" for i
    using gs length_hex_text [of "take i (groups_of ip)"] length_hex_text [of "drop i (groups_of ip)"]
      length_hex_text [of "groups_of ip"] by simp_all
  note h = this
  have "length (hex_text (take i (groups_of ip)) @ ''::'' @ hex_text (drop j (groups_of ip))) \<le> 82" for i j
    using h(1) [of i] h(2) [of j] by simp
  then show ?thesis using h(3) by (auto simp: ip6_string_text split: option.split intro: order_trans)
qed

lemma length_IP_String: "length ip = 4 \<or> length ip = 16 \<Longrightarrow> length (IP_String ip) \<le> 82"
  using length_ip4_string [of ip] length_ip4_string [of "drop 12 ip"] length_ip6_string [of ip]
  by (auto simp: IP_String_def To4_def)

lemma length_host_port: "length host \<le> 255 \<Longrightarrow> length (host_port host p) \<le> 263"
  using length_port [of p] by (simp add: host_port_def JoinHostPort_def)

lemma readSocksAddr_length:
  assumes "readSocksAddr r atyp = (Inr (addr, raw), r2)"
  shows "length addr \<le> 263"
proof -
  have len: "read_full n q = (Inr buf, q2) \<Longrightarrow> length buf = n" for n q buf q2
    by (auto simp: read_full_def split: if_splits)
  have ip: "length ip = 4 \<or> length ip = 16 \<Longrightarrow> length (host_port (IP_String ip) p) \<le> 263" for ip p
    using length_IP_String [of ip] length_host_port [of "IP_String ip" p] by linarith
  have nm: "length buf = unat (b :: byte) + 2 \<Longrightarrow> length (host_port (string_of_bytes (take (length buf - 2) buf)) p) \<le> 263"
    for buf b p
    using unsigned_less [of b, where ?'a = nat] by (intro length_host_port) simp
  show ?thesis
    using assms ip nm by (auto simp: readSocksAddr_def go_slice_def dest!: len split: if_splits sum.splits prod.splits)
qed

lemma readPacketAddr_length:
  assumes "readPacketAddr p = Inr (addr, n)"
  shows "length addr \<le> 263"
proof -
  have ip: "length ip = 4 \<or> length ip = 16 \<Longrightarrow> length (host_port (IP_String ip) p) \<le> 263" for ip p
    using length_IP_String [of ip] length_host_port [of "IP_String ip" p] by linarith
  have nm: "length (host_port (string_of_bytes (go_slice 2 (2 + unat (b :: byte)) buf)) p) \<le> 263"
    for buf b p
    using unsigned_less [of b, where ?'a = nat] by (intro length_host_port) (simp add: go_slice_def)
  show ?thesis
    using assms ip nm
    by (auto simp: readPacketAddr_def Let_def go_slice_def split: if_splits)
qed


section \<open>The client's steps as session events\<close>

text \<open>\<^verbatim>\<open>ln.Accept\<close> makes a new connection.\<close>

definition accept_conn :: "tunnel_client \<Rightarrow> nat \<times> tunnel_client" where
  "accept_conn c =
     (let w = net c; k = next_sock w
      in (k, c\<lparr>net := w\<lparr>sockets := (sockets w)(k \<mapsto> \<lparr>sent = [], conn_open = True, broken = None\<rparr>),
                       next_sock := k + 1\<rparr>\<rparr>))"

text \<open>
  What the client program does with its session: frames and opens as in \<open>client_event\<close>, the
  start of a SOCKS connection, a packet from the socket of an association and the datagram sent for
  it, and iterations of the write loop and the heartbeat; and what happens to its connections: one is
  accepted, closed by the deferred call, or broken by the environment.
\<close>

datatype client_action =
    Client client_event
  | SocksConn nat reader "go_error + nat \<times> byte list \<times> u16"
  | SocksOpened nat u32 nat "byte list" bool
  | UDPRecv nat "byte list" string "string \<rightharpoonup> u32"
  | UDPSend int int u32 "byte list"
  | ClientWrite
  | ClientBeat
  | ClientAccept
  | ClientCloses nat
  | ClientBreaks nat nat go_error

primrec client_act :: "client_action \<Rightarrow> tunnel_client \<times> session \<Rightarrow> tunnel_client \<times> session" where
  "client_act (Client ev) cs = client_step ev cs"
| "client_act (SocksConn conn rd listen) cs = snd (snd (handleSocksConn_begin conn rd listen cs))"
| "client_act (SocksOpened conn ch k raw timed_out) cs =
     (snd (handleSocksConn_opened conn ch k raw timed_out (fst cs)), snd cs)"
| "client_act (UDPRecv usock buf peer m) cs = snd (udp_associate_recv usock buf peer m cs)"
| "client_act (UDPSend nano milli ch data) cs = (fst cs, udp_associate_send nano milli ch data (snd cs))"
| "client_act ClientWrite cs = (fst cs, snd (writeLoop_iter SelDefault (snd cs)))"
| "client_act ClientBeat cs = (fst cs, snd (heartbeatLoop_iter SelDefault (snd cs)))"
| "client_act ClientAccept cs = (snd (accept_conn (fst cs)), snd cs)"
| "client_act (ClientCloses conn) cs = (finish_socks conn (fst cs), snd cs)"
| "client_act (ClientBreaks conn n e) cs = ((fst cs)\<lparr>net := break_conn conn n e (net (fst cs))\<rparr>, snd cs)"

primrec client_acts :: "client_action list \<Rightarrow> tunnel_client \<times> session \<Rightarrow> tunnel_client \<times> session" where
  "client_acts [] cs = cs"
| "client_acts (a # as) cs = client_acts as (client_act a cs)"

definition open_frame :: "byte \<Rightarrow> tunnel_client \<Rightarrow> string \<Rightarrow> frame" where
  "open_frame ty c address = data_frame ty (nextID c + 1) (EncodeAddress address)"

definition udp_frame :: "int \<Rightarrow> int \<Rightarrow> u32 \<Rightarrow> byte list \<Rightarrow> frame" where
  "udp_frame nano milli ch data = data_frame FrameUDPDATA ch (EncodeUDPDatagram
     \<lparr>dgID = of_int nano, SentMS = of_int milli, DeadlineMS = 1000, FragIndex = 0, FragCount = 1,
      TotalLen = of_nat (length data), udp_datagram.Data = data\<rparr>)"

text \<open>The address that a packet of an association asks to open, if any.\<close>

definition packet_open :: "byte list \<Rightarrow> string \<Rightarrow> (string \<rightharpoonup> u32) \<Rightarrow> string option" where
  "packet_open buf peer m =
     (if length buf < 10 then None
      else case readPacketAddr (drop 3 buf) of
          Inl _ \<Rightarrow> None
        | Inr (addr, n) \<Rightarrow>
            if 3 + n > length buf then None
            else if m (peer @ ''|'' @ addr) = None then Some addr else None)"

definition act_events :: "client_action \<Rightarrow> tunnel_client \<Rightarrow> session_event list" where
  "act_events a c =
     (case a of
        Client (CFrame f) \<Rightarrow>
          if ftype f = FramePING then [EvQueue Control (data_frame FramePONG 0 [])] else []
      | Client (COpenTCP address conn) \<Rightarrow> [EvQueue Control (open_frame FrameOPENTCP c address)]
      | Client (COpenUDP address conn peer) \<Rightarrow> [EvQueue Control (open_frame FrameOPENUDP c address)]
      | Client (CCopy ch rd ctx_done) \<Rightarrow> copy_events ch rd
      | SocksConn conn rd listen \<Rightarrow>
          (case fst (socks_request conn rd (net c)) of
             Some (cmd, addr, raw) \<Rightarrow>
               if cmd = 0x01 then [EvQueue Control (open_frame FrameOPENTCP c addr)] else []
           | None \<Rightarrow> [])
      | SocksOpened conn ch k raw timed_out \<Rightarrow> []
      | UDPRecv usock buf peer m \<Rightarrow>
          (case packet_open buf peer m of
             Some addr \<Rightarrow> [EvQueue Control (open_frame FrameOPENUDP c addr)]
           | None \<Rightarrow> [])
      | UDPSend nano milli ch data \<Rightarrow> [EvQueue frame_class.Data (udp_frame nano milli ch data)]
      | ClientWrite \<Rightarrow> [EvWrite]
      | ClientBeat \<Rightarrow> [EvBeat]
      | _ \<Rightarrow> [])"

primrec client_trace :: "client_action list \<Rightarrow> tunnel_client \<times> session \<Rightarrow> session_event list" where
  "client_trace [] cs = []"
| "client_trace (a # as) cs = act_events a (fst cs) @ client_trace as (client_act a cs)"

lemma open_events:
  "snd (snd (openTCPChannel_start address conn cs)) =
     apply_events [EvQueue Control (open_frame FrameOPENTCP (fst cs) address)] (snd cs)"
  "snd (snd (openUDPChannel_start address conn peer cs)) =
     apply_events [EvQueue Control (open_frame FrameOPENUDP (fst cs) address)] (snd cs)"
  by (simp_all add: openTCPChannel_start_def openUDPChannel_start_def nextChannel_def open_frame_def
      split_beta Let_def)

lemma socks_events:
  "snd (snd (snd (handleSocksConn_begin conn rd listen cs)))
     = apply_events (act_events (SocksConn conn rd listen) (fst cs)) (snd cs)"
proof -
  obtain req rd1 w where r: "socks_request conn rd (net (fst cs)) = (req, rd1, w)" by (metis prod_cases3)
  show ?thesis
  proof (cases req)
    case (Some x)
    obtain cmd addr raw where x: "x = (cmd, addr, raw)" by (metis prod_cases3)
    have "snd (snd (openTCPChannel_start addr conn ((fst cs)\<lparr>net := w\<rparr>, snd cs)))
        = apply_events [EvQueue Control (open_frame FrameOPENTCP (fst cs) addr)] (snd cs)"
      by (simp add: open_events open_frame_def)
    then show ?thesis
      using Some x r
      by (auto simp: handleSocksConn_begin_def act_events_def split_beta Let_def
          split: sum.split option.split prod.split)
  qed (use r in \<open>simp add: handleSocksConn_begin_def act_events_def split_beta Let_def\<close>)
qed

lemma recv_events:
  "snd (snd (udp_associate_recv usock buf peer m cs))
     = apply_events (act_events (UDPRecv usock buf peer m) (fst cs)) (snd cs)"
proof (cases "length buf < 10 \<or> (\<exists>e. readPacketAddr (drop 3 buf) = Inl e)")
  case True
  then show ?thesis
    by (auto simp: udp_associate_recv_def act_events_def packet_open_def Let_def split: sum.split)
next
  case False
  then obtain addr n where a: "readPacketAddr (drop 3 buf) = Inr (addr, n)" "\<not> length buf < 10"
    by (metis obj_sumE surj_pair)
  then have "packetAddrLen (drop 3 buf) at = 3 + n" for at by (simp add: packetAddrLen_def)
  then show ?thesis
    using a open_events(2) [of addr usock peer cs]
    by (auto simp: udp_associate_recv_def act_events_def packet_open_def split_beta Let_def
        split: option.split sum.split)
qed

lemma client_act_events:
  "snd (client_act a cs) = apply_events (act_events a (fst cs)) (snd cs)"
proof (cases a)
  case (Client ev)
  then show ?thesis
  proof (cases ev)
    case (CFrame f)
    then show ?thesis
      by (simp add: Client act_events_def client_HandleFrame_def split_beta Let_def)
  next
    case (CCopy ch rd ctx_done)
    then show ?thesis
      by (cases rd) (simp add: Client act_events_def copy_events_def copyTCPToTunnel_iter_def split_beta Let_def)
  qed (simp_all add: Client act_events_def open_events)
qed (simp_all add: socks_events recv_events udp_associate_send_def udp_frame_def act_events_def)

lemma client_acts_trace:
  "snd (client_acts as cs) = apply_events (client_trace as cs) (snd cs)"
  by (induction as arbitrary: cs) (simp_all add: client_act_events)

section \<open>The success reply and the first data\<close>

lemma opened_reply:
  assumes "chans c k = Some None" and "healthy conn (net c)"
  shows "net (snd (handleSocksConn_opened conn ch k raw False c)) = snd (sock_write conn ([0x05, 0x00, 0x00] @ raw) (net c))"
    and "tcpConns (snd (handleSocksConn_opened conn ch k raw False c)) = tcpConns c"
  using assms by (simp_all add: handleSocksConn_opened_def open_result_def client_write_def split_beta Let_def)

text \<open>C40. The first data can overtake the SOCKS reply: once a channel is open, the goroutine of the
  connection writes the success reply and the read loop writes the data that arrives, each as it is
  scheduled.  If a data frame is handled first, the SOCKS client receives the remote end's data before
  the reply it is waiting for, and takes one for the other; in the other order all is well.\<close>

theorem data_overtakes_reply:
  assumes "openTCPChannel_start addr conn (c0, s0) = (Inr (ch, k), c1, s1)" and "healthy conn (net c0)"
    and "ftype f = FrameOPENOK" and "channelID f = ch" and "ftype g = FrameTCPDATA" and "channelID g = ch"
    and "late = client_acts [Client (CFrame f), Client (CFrame g), SocksOpened conn ch k raw False] (c1, s1)"
    and "early = client_acts [Client (CFrame f), SocksOpened conn ch k raw False, Client (CFrame g)] (c1, s1)"
  shows "delivered conn (net (fst late)) = delivered conn (net c0) @ [payload g, [0x05, 0x00, 0x00] @ raw]
    \<and> delivered conn (net (fst early)) = delivered conn (net c0) @ [[0x05, 0x00, 0x00] @ raw, payload g]"
proof -
  have c1: "c1 = fst (snd (openTCPChannel_start addr conn (c0, s0)))" using assms(1) by simp
  have ch: "ch = nextID c0 + 1" "k = next_chan c0"
    using assms(1) by (auto simp: openTCPChannel_start_def nextChannel_def split_beta Let_def split: option.splits)
  have c: "net c1 = net c0" "tcpConns c1 ch = Some conn" "openResults c1 ch = Some k"
    unfolding c1 start_TCP_simps by (simp_all add: ch)
  let ?c2 = "signalOpen ch None c1"
  have f: "client_act (Client (CFrame f)) (c1, s1) = (?c2, s1)"
    using assms(3,4) by (simp add: client_HandleFrame_def)
  have c2: "net ?c2 = net c0" "tcpConns ?c2 ch = Some conn" "chans ?c2 k = Some None"
    using c by (simp_all add: signalOpen_def Let_def)
  have g: "net (fst (client_act (Client (CFrame g)) (c, s))) = snd (sock_write conn (payload g) (net c))
      \<and> chans (fst (client_act (Client (CFrame g)) (c, s))) = chans c"
    if "tcpConns c ch = Some conn" for c s
    using assms(5,6) that by (simp add: client_HandleFrame_def client_TCPDATA_def split_beta Let_def)
  have h: "healthy conn (snd (sock_write conn x (net c0)))"
    "delivered conn (snd (sock_write conn x (net c0))) = delivered conn (net c0) @ [x]" for x
    using sock_write_healthy [OF assms(2), of x] by simp_all
  have h2: "delivered conn (snd (sock_write conn y (snd (sock_write conn x (net c0))))) = delivered conn (net c0) @ [x, y]" for x y
    using sock_write_healthy [OF h(1) [of x], of y] h(2) by simp
  let ?c3 = "fst (client_act (Client (CFrame g)) (?c2, s1))"
  have c3: "net ?c3 = snd (sock_write conn (payload g) (net c0))" "chans ?c3 k = Some None"
    using g [OF c2(2), of s1] c2 by simp_all
  have l: "net (fst late) = snd (sock_write conn ([0x05, 0x00, 0x00] @ raw) (net ?c3))"
    using opened_reply(1) [of ?c3 k conn ch raw] c3 h(1) by (simp add: assms(7) f del: client_act.simps(1))
  let ?c4 = "snd (handleSocksConn_opened conn ch k raw False ?c2)"
  have c4: "net ?c4 = snd (sock_write conn ([0x05, 0x00, 0x00] @ raw) (net c0))" "tcpConns ?c4 ch = Some conn"
    using opened_reply [of ?c2 k conn ch raw] c2 assms(2) by simp_all
  have e: "net (fst early) = snd (sock_write conn (payload g) (net ?c4))"
    using g [OF c4(2)] by (simp add: assms(8) f del: client_act.simps(1))
  show ?thesis unfolding l e c3(1) c4(1) using h2 by simp
qed

theorem data_overtakes_reply_witness:
  "\<exists>c1 s1. openTCPChannel_start [] 0 (demo_client, demo_session) = (Inr (2, 0), c1, s1)
    \<and> delivered 0 (net (fst (client_acts [Client (CFrame (data_frame FrameOPENOK 2 [])),
        Client (CFrame (data_frame FrameTCPDATA 2 [72, 105])), SocksOpened 0 2 0 [1, 10, 0, 0, 1, 0, 80] False] (c1, s1))))
      = [[72, 105], [5, 0, 0, 1, 10, 0, 0, 1, 0, 80]]"
proof -
  obtain c1 s1 where s: "openTCPChannel_start [] 0 (demo_client, demo_session) = (Inr (2, 0), c1, s1)"
    using demo_start by auto
  have h: "healthy 0 (net demo_client)" "delivered 0 (net demo_client) = []"
    by (simp_all add: demo_client_def newTunnelClient_def healthy_def delivered_def)
  have f: "ftype (data_frame FrameOPENOK 2 []) = FrameOPENOK" "channelID (data_frame FrameOPENOK 2 []) = 2"
    "ftype (data_frame FrameTCPDATA 2 [72, 105]) = FrameTCPDATA" "channelID (data_frame FrameTCPDATA 2 [72, 105]) = 2"
    by (simp_all add: new_frame_simps)
  from conjunct1 [OF data_overtakes_reply [OF s h(1) f refl refl, of "[1, 10, 0, 0, 1, 0, 80]"]] s h(2)
  show ?thesis by (simp add: new_frame_simps del: client_acts.simps)
qed

end
