(* ===== verification/SLPP_Protocol.thy ===== *)
theory SLPP_Protocol
  imports SLPP_ClientRun
begin

text \<open>
  The traffic between the two programs: what each end writes is well formed for the other
  (\<open>request_ok\<close>, \<open>response_ok\<close>), a well-formed frame is never refused for its form, and
  the data the client copies into a channel reaches the server's connection.
\<close>

section \<open>Well-formed frames\<close>

text \<open>
  The frames that the server understands and the frames that the client understands, by type and
  payload.  Neither depends on the session and sequence numbers that the write loop fills in.
\<close>

definition request_ok :: "frame \<Rightarrow> bool" where
  "request_ok f \<longleftrightarrow>
     (if ftype f = FrameAUTH then \<not> isl (DecodeAuthPayload (payload f))
      else if ftype f = FrameOPENTCP \<or> ftype f = FrameOPENUDP then \<not> isl (DecodeAddress (payload f))
      else if ftype f = FrameUDPDATA then \<not> isl (DecodeUDPDatagram (payload f))
      else ftype f \<in> {FramePING, FramePONG, FrameTCPDATA, FrameTCPCLOSE})"

definition response_ok :: "frame \<Rightarrow> bool" where
  "response_ok f \<longleftrightarrow>
     (if ftype f = FrameUDPDATA then \<not> isl (DecodeUDPDatagram (payload f))
      else ftype f \<in> {FrameAUTHOK, FrameAUTHERR, FramePING, FramePONG, FrameOPENOK, FrameOPENERR,
        FrameTCPDATA, FrameTCPCLOSE, FrameUDPCLOSE})"

lemma ok_body:
  "body f = body g \<Longrightarrow> request_ok f = request_ok g" "body f = body g \<Longrightarrow> response_ok f = response_ok g"
  by (simp_all add: body_def request_ok_def response_ok_def)

lemma ok_ping: "ftype f = FramePING \<Longrightarrow> request_ok f" "ftype f = FramePING \<Longrightarrow> response_ok f"
  by (simp_all add: request_ok_def response_ok_def)

lemma pushed_frames:
  "x \<in> set (event_log pushed evs s) \<Longrightarrow> snd x \<in> set (queued_frames evs) \<or> ftype (snd x) = FramePING"
proof (induction evs arbitrary: s rule: queued_frames.induct)
  case (2 k f evs)
  then show ?case by (cases k) (auto simp: pushed_def split: if_splits)
qed (auto simp: pushed_def beat_frame_def split: if_splits)

text \<open>What holds of everything that is queued holds of everything that is written.\<close>

lemma events_keep:
  assumes "ready s" and "\<forall>ev \<in> set evs. event_ok ev"
    and "\<forall>k. \<forall>f \<in> set (q_list (queue_of k s)). P f" and "\<forall>f \<in> set (queued_frames evs). P f"
    and "\<And>f g. body f = body g \<Longrightarrow> P f = P g" and "\<And>f. ftype f = FramePING \<Longrightarrow> P f"
  shows "(\<forall>f \<in> set (q_list (queue_of k (apply_events evs s))). P f)
    \<and> (\<forall>x \<in> set (event_log wrote evs s). P (snd x))"
proof -
  let ?log = "event_log wrote evs s"
  note eff = events_effect [OF assms(1,2)]
  have pushed: "P (snd x)" if "x \<in> set (event_log pushed evs s)" for x
    using pushed_frames [OF that] assms(4,6) by blast
  have both: "(\<forall>f \<in> set (q_list (queue_of k (apply_events evs s))). P f) \<and> (\<forall>f \<in> set (of_class k ?log). P f)" for k
  proof -
    obtain fs where fs: "q_list (queue_of k s) @ of_class k (event_log pushed evs s)
        = fs @ q_list (queue_of k (apply_events evs s))"
      and st: "list_all2 (stamped (s_id s)) fs (of_class k ?log)"
      using eff by blast
    have "\<forall>f \<in> set (of_class k (event_log pushed evs s)). P f" using pushed by (auto simp: of_class_def)
    then have all: "\<forall>f \<in> set (fs @ q_list (queue_of k (apply_events evs s))). P f"
      using assms(3) unfolding fs [symmetric] by auto
    have "P g" if "g \<in> set (of_class k ?log)" for g
    proof -
      have "body g \<in> set (map body fs)" using that unfolding body_stamped [OF st, symmetric] by simp
      then obtain f where "f \<in> set fs" "body f = body g" by auto
      then show ?thesis using all assms(5) [of f g] by simp
    qed
    with all show ?thesis by auto
  qed
  have "P (snd x)" if "x \<in> set ?log" for x
    using both [of "fst x"] that by (auto simp: of_class_def)
  with both show ?thesis by blast
qed

lemma written_ok:
  assumes "ready s" and "\<forall>ev \<in> set evs. event_ok ev"
    and "\<forall>k. \<forall>f \<in> set (q_list (queue_of k s)). P f" and "\<forall>f \<in> set (queued_frames evs). P f"
    and "\<And>f g. body f = body g \<Longrightarrow> P f = P g" and "\<And>f. ftype f = FramePING \<Longrightarrow> P f"
    and "written (s_writer (apply_events evs s)) = written (s_writer s) @ avail r"
  shows "\<exists>n fs. read_all Decode n r = (Inr fs, r\<lparr>avail := []\<rparr>) \<and> (\<forall>f \<in> set fs. P f)"
proof -
  have "\<forall>x \<in> set (event_log wrote evs s). P (snd x)"
    using events_keep [of s evs P, OF assms(1-6)] by blast
  then have "\<forall>f \<in> set (map frame_defaults (map snd (event_log wrote evs s))). P f"
    using assms(5) [OF body_defaults] by auto
  with read_written [OF assms(1,2) refl assms(7)] show ?thesis by blast
qed

text \<open>The client queues requests.\<close>

fun action_fine :: "client_action \<Rightarrow> bool" where
  "action_fine (Client (COpenTCP address conn)) = (length address \<le> 16382)"
| "action_fine (Client (COpenUDP address conn peer)) = (length address \<le> 16382)"
| "action_fine (Client (CCopy ch rd ctx_done)) = read_ok 16384 rd"
| "action_fine (UDPSend nano milli ch data) = (length data \<le> MaxLocalUDPDatagram)"
| "action_fine _ = True"

lemma open_frame_ok:
  assumes "length address \<le> 16382" and "ty = FrameOPENTCP \<or> ty = FrameOPENUDP"
  shows "transmittable (open_frame ty c address)" and "request_ok (open_frame ty c address)"
    and "ftype (open_frame ty c address) \<noteq> FrameTCPDATA"
  using assms DecodeAddress_Encode [of address "[]"]
  by (auto simp: open_frame_def request_ok_def new_frame_simps KnownFrameType_def intro!: transmittable_data_frame)
    (simp_all add: EncodeAddress_def)

lemma socks_request_length:
  assumes "fst (socks_request conn rd w) = Some (cmd, addr, raw)"
  shows "length addr \<le> 263"
  using assms readSocksAddr_length
  by (auto simp: socks_request_def split: sum.splits prod.splits option.splits) 

lemma packet_open_length: "packet_open buf peer m = Some addr \<Longrightarrow> length addr \<le> 263"
  using readPacketAddr_length by (auto simp: packet_open_def split: if_splits sum.splits prod.splits)

lemma udp_frame_ok:
  assumes "length data \<le> MaxLocalUDPDatagram"
  shows "transmittable (udp_frame nano milli ch data)" and "request_ok (udp_frame nano milli ch data)"
  using assms by (auto simp: udp_frame_def request_ok_def new_frame_simps intro!: transmittable_data_frame)

lemma act_events_ok:
  assumes "action_fine a"
  shows "good_events (act_events a c) \<and> (\<forall>f \<in> set (queued_frames (act_events a c)). request_ok f)"
proof (cases a)
  case (Client ev)
  show ?thesis
  proof (cases ev)
    case (CFrame f)
    then show ?thesis
      by (simp add: Client act_events_def transmittable_data_frame new_frame_simps request_ok_def)
  next
    case (CCopy ch rd ctx_done)
    have "\<forall>f \<in> set (queued_frames (copy_events ch rd)). request_ok f"
      by (auto simp: copy_events_def request_ok_def new_frame_simps)
    then show ?thesis using assms copy_events_ok by (simp add: Client CCopy act_events_def)
  qed (use assms Client open_frame_ok in \<open>simp_all add: act_events_def\<close>)
next
  case (SocksConn conn rd listen)
  have "good_events [EvQueue Control (open_frame FrameOPENTCP c addr)]
      \<and> request_ok (open_frame FrameOPENTCP c addr)"
    if "fst (socks_request conn rd (net c)) = Some (cmd, addr, raw)" for cmd addr raw
    using socks_request_length [OF that] open_frame_ok [of addr FrameOPENTCP c] by simp
  then show ?thesis by (auto simp: SocksConn act_events_def split: option.split prod.split)
next
  case (UDPRecv usock buf peer m)
  have "good_events [EvQueue Control (open_frame FrameOPENUDP c addr)]
      \<and> request_ok (open_frame FrameOPENUDP c addr)"
    if "packet_open buf peer m = Some addr" for addr
    using packet_open_length [OF that] open_frame_ok [of addr FrameOPENUDP c] by simp
  then show ?thesis by (auto simp: UDPRecv act_events_def split: option.split)
qed (use assms udp_frame_ok in \<open>simp_all add: act_events_def\<close>)

lemma client_trace_ok:
  "\<forall>a \<in> set as. action_fine a \<Longrightarrow> good_events (client_trace as cs)
     \<and> (\<forall>f \<in> set (queued_frames (client_trace as cs)). request_ok f)"
proof (induction as arbitrary: cs)
  case (Cons a as)
  show ?case using act_events_ok [of a "fst cs"] Cons.IH [of "client_act a cs"] Cons.prems by auto
qed simp

text \<open>The server queues responses.\<close>

lemma server_events_response: "\<forall>f \<in> set (queued_frames (server_events ev h)). response_ok f"
proof (cases ev)
  case (FrameIn f)
  then show ?thesis
    by (simp add: server_events_def reply_events_def response_ok_def new_frame_simps
        split: sum.split option.split)
next
  case (CopyTCP ch c rd)
  then show ?thesis by (auto simp: server_events_def copy_events_def response_ok_def new_frame_simps)
next
  case (ReadUDP nano ch c rd)
  have "\<forall>f \<in> set (queued_frames (map (\<lambda>d. EvQueue frame_class.Data
      (data_frame FrameUDPDATA ch (EncodeUDPDatagram d))) ds)). response_ok f" for ds
    by (induction ds) (simp_all add: response_ok_def new_frame_simps)
  moreover have "response_ok (data_frame FrameUDPCLOSE ch [])" by (simp add: response_ok_def new_frame_simps)
  ultimately show ?thesis
    by (auto simp: ReadUDP server_events_def udp_read_events_def split: sum.split)
qed (simp_all add: server_events_def)

lemma server_trace_response: "\<forall>f \<in> set (queued_frames (server_trace evs hs)). response_ok f"
proof (induction evs arbitrary: hs)
  case (Cons ev evs)
  show ?case using server_events_response [of ev "fst hs"] Cons.IH [of "serve_event ev hs"] by auto
qed simp

section \<open>Well-formed traffic\<close>

lemma client_session_start:
  assumes "new_client_session env token tunnel = Inr s0" and "nonce_bytes env = Inr nonce"
    and "length nonce = 12" and "length token \<le> 16370" and "room (WriteCloser tunnel) = None"
  shows "ready s0" and "s_writer s0 = WriteCloser tunnel" and "s_reader s0 = ReadCloser tunnel"
    and "q_list (controlQ s0) = [auth_frame token nonce]" and "q_list (dataQ s0) = []"
    and "DecodeAuthPayload (payload (auth_frame token nonce)) = Inr \<lparr>Token = token, Nonce = nonce\<rparr>"
proof -
  obtain s where s: "new_client_session env token tunnel = Inr s"
    "q_list (controlQ s) = [auth_frame token nonce]" "q_list (dataQ s) = []"
    "session_wf s" "s_reader s = ReadCloser tunnel" "s_writer s = WriteCloser tunnel"
    "transmittable (auth_frame token nonce)"
    using new_client_session_auth [OF assms(2-4), of tunnel] by metis
  with assms(1,5) show "ready s0" "s_writer s0 = WriteCloser tunnel" "s_reader s0 = ReadCloser tunnel"
    "q_list (controlQ s0) = [auth_frame token nonce]" "q_list (dataQ s0) = []"
    by (simp_all add: ready_def all_class)
  show "DecodeAuthPayload (payload (auth_frame token nonce)) = Inr \<lparr>Token = token, Nonce = nonce\<rparr>"
    using DecodeAuth_Encode [of "\<lparr>Token = token, Nonce = nonce\<rparr>" "[]"] assms(3,4)
    by (simp add: auth_frame_def new_frame_simps)
qed

lemma request_ok_start:
  "DecodeAuthPayload (payload (auth_frame token nonce)) = Inr p \<Longrightarrow> request_ok (auth_frame token nonce)"
  by (simp add: request_ok_def auth_frame_def new_frame_simps)

lemma good_eventsD: "good_events evs \<Longrightarrow> \<forall>ev \<in> set evs. event_ok ev"
  by (simp add: good_events_def)

text \<open>Well-formed traffic: in any run of the client program from the start of its session, whatever
  SOCKS clients send, what it writes can be read whole by the frame decoder, and every frame read is
  one the server understands: of a type that a client may send, with a payload that its decoder
  accepts; neither UDPCLOSE nor SESSIONCLOSE is ever among them.  Likewise what a server session
  writes, in any run, is read whole as frames that the client understands.\<close>

theorem protocol_typing:
  assumes "new_client_session env token tunnel = Inr s0" and "nonce_bytes env = Inr nonce"
    and "length nonce = 12" and "length token \<le> 16370" and "room (WriteCloser tunnel) = None"
    and "\<forall>a \<in> set as. action_fine a" and "(c, s) = client_acts as (c0, s0)"
    and "written (s_writer s) = written (WriteCloser tunnel) @ avail r"
    and "hs0 = (new_handler v (new_network d) (new_network d2) t0 t1 ord,
      NewSession ident rd wr st hb now)"
    and "room wr = None" and "short_errors d" and "short_errors d2"
    and "\<forall>ev \<in> set evs. event_fine ev" and "(h, t) = serve evs hs0"
    and "written (s_writer t) = written wr @ avail q"
  shows "(\<exists>n fs. read_all Decode n r = (Inr fs, r\<lparr>avail := []\<rparr>) \<and> (\<forall>f \<in> set fs. request_ok f))
    \<and> (\<exists>n fs. read_all Decode n q = (Inr fs, q\<lparr>avail := []\<rparr>) \<and> (\<forall>f \<in> set fs. response_ok f))"
proof
  note st = client_session_start [OF assms(1-5)]
  note tr = client_trace_ok [OF assms(6), of "(c0, s0)"]
  have q0: "\<forall>k. \<forall>f \<in> set (q_list (queue_of k s0)). request_ok f"
    using st(4,5) request_ok_start [OF st(6)] by (simp add: all_class)
  have "s = apply_events (client_trace as (c0, s0)) s0"
    using client_acts_trace [of as "(c0, s0)"] assms(7) by (metis snd_conv)
  then have w: "written (s_writer (apply_events (client_trace as (c0, s0)) s0)) = written (s_writer s0) @ avail r"
    using assms(8) st(2) by simp
  have tr2: "good_events (client_trace as (c0, s0))" 
    "\<forall>f \<in> set (queued_frames (client_trace as (c0, s0))). request_ok f"
    using tr by simp_all
  show "\<exists>n fs. read_all Decode n r = (Inr fs, r\<lparr>avail := []\<rparr>) \<and> (\<forall>f \<in> set fs. request_ok f)"
    using written_ok [of s0, OF st(1) good_eventsD [OF tr2(1)] q0 tr2(2) ok_body(1) ok_ping(1) w]
    by blast
next
  let ?tr = "server_trace evs hs0" and ?t0 = "NewSession ident rd wr st hb now"
  have "dials_short (fst hs0)"
    using assms(9,11,12) by (simp add: dials_short_def new_handler_def new_network_def)
  from good_eventsD [OF server_trace_ok [of hs0 evs, OF this assms(13)]]
  have ev: "\<forall>ev \<in> set ?tr. event_ok ev" .
  have "nostats t = nostats (apply_events ?tr ?t0)"
    using serve_trace [of evs hs0] assms(9,14) by (metis snd_conv)
  from nostats_eqD(3) [OF this]
  have w: "written (s_writer (apply_events ?tr ?t0)) = written (s_writer ?t0) @ avail q"
    using assms(15) by simp
  have q0: "\<forall>k. \<forall>f \<in> set (q_list (queue_of k ?t0)). response_ok f" by simp
  show "\<exists>n fs. read_all Decode n q = (Inr fs, q\<lparr>avail := []\<rparr>) \<and> (\<forall>f \<in> set fs. response_ok f)"
    using written_ok [of ?t0, OF ready_New [OF assms(10)] ev q0 server_trace_response ok_body(2) ok_ping(2) w]
    by blast
qed

definition demo_writer :: writer where
  "demo_writer = \<lparr>written = [], room = None, write_err = EOF\<rparr>"

definition demo_tunnel :: client_tunnel where
  "demo_tunnel = \<lparr>WriteCloser = demo_writer, ReadCloser = \<lparr>avail = [], end_err = EOF\<rparr>,
     Response = \<lparr>Status = ''200 OK'', StatusCode = 200, resp_body = \<lparr>avail = [], end_err = EOF\<rparr>\<rparr>\<rparr>"

definition demo_client0 :: tunnel_client where
  "demo_client0 = newTunnelClient (new_network (\<lambda>_ _. None)) (\<lambda>_. Inl EOF)"

text \<open>The demonstration's client at its start.\<close>

lemma demo_client_start:
  assumes "length token \<le> 100"
  obtains s0 c1 s1 where "new_client_session demo_client_env token demo_tunnel = Inr s0"
    and "nonce_bytes demo_client_env = Inr (replicate 12 7)" and "length (replicate 12 (7 :: byte)) = 12"
    and "length token \<le> 16370" and "room (WriteCloser demo_tunnel) = None"
    and "openTCPChannel_start ''a:1'' 0 (demo_client0, s0) = (Inr (2, 0), c1, s1)"
proof -
  have n: "nonce_bytes demo_client_env = Inr (replicate 12 7)" "length (replicate 12 (7 :: byte)) = 12"
    "length token \<le> 16370" using assms by (simp_all add: demo_client_env_def)
  obtain s0 where s0: "new_client_session demo_client_env token demo_tunnel = Inr s0"
    and q: "q_list (controlQ s0) = [auth_frame token (replicate 12 7)]" "session_wf s0"
    using new_client_session_auth [OF n, of demo_tunnel] by metis
  let ?f = "data_frame FrameOPENTCP 2 (EncodeAddress ''a:1'')"
  have "control_room s0 ?f"
    using assms by (simp add: control_room_def q(1) payload_bytes_def new_frame_simps auth_frame_def
        EncodeAddress_def EncodeAuthPayload_def del: length_q_list)
  then have "fst (QueueControl ?f s0) = None" using QueueControl_list(1) [OF q(2)] by simp
  then have "fst (openTCPChannel_start ''a:1'' 0 (demo_client0, s0)) = Inr (2, 0)"
    by (simp add: openTCPChannel_start_def nextChannel_def demo_client0_def newTunnelClient_def split_beta Let_def)
  then obtain c1 s1 where "openTCPChannel_start ''a:1'' 0 (demo_client0, s0) = (Inr (2, 0), c1, s1)"
    by (metis prod.collapse)
  with s0 n show thesis by (intro that) (simp_all add: demo_tunnel_def demo_writer_def)
qed

theorem protocol_typing_witness:
  "\<exists>s0 r q fs gs. new_client_session demo_client_env ''tok'' demo_tunnel = Inr s0
    \<and> avail r = written (s_writer (snd (client_acts [Client (COpenTCP ''a:1'' 0), ClientWrite] (demo_client0, s0))))
    \<and> avail q = written (s_writer (snd (serve demo_run (demo_server, demo_session))))
    \<and> (\<exists>n. read_all Decode n r = (Inr fs, r\<lparr>avail := []\<rparr>)) \<and> (\<forall>f \<in> set fs. request_ok f)
    \<and> (\<exists>n. read_all Decode n q = (Inr gs, q\<lparr>avail := []\<rparr>)) \<and> (\<forall>f \<in> set gs. response_ok f)"
proof -
  obtain s0 where s0: "new_client_session demo_client_env ''tok'' demo_tunnel = Inr s0"
    "nonce_bytes demo_client_env = Inr (replicate 12 7)" "length (replicate 12 (7 :: byte)) = 12"
    "length ''tok'' \<le> 16370" "room (WriteCloser demo_tunnel) = None"
    using demo_client_start [of "''tok''"] by auto
  let ?as = "[Client (COpenTCP ''a:1'' 0), ClientWrite]"
  obtain c s where cs: "(c, s) = client_acts ?as (demo_client0, s0)" by (metis prod.collapse)
  obtain h t where ht: "(h, t) = serve demo_run (demo_server, demo_session)" by (metis prod.collapse)
  let ?r = "\<lparr>avail = written (s_writer s), end_err = EOF\<rparr>" and ?q = "\<lparr>avail = written (s_writer t), end_err = EOF\<rparr>"
  have new: "(demo_server, demo_session) = (new_handler demo_store (new_network (\<lambda>_ _. None)) (new_network (\<lambda>_ _. None)) 10 10
      (\<lambda>_. [''id1'']), NewSession 7 \<lparr>avail = [], end_err = EOF\<rparr> demo_writer (NewStats 0) 0 0)"
    by (simp add: demo_server_def demo_session_def demo_writer_def)
  have fine: "\<forall>a \<in> set ?as. action_fine a" "\<forall>ev \<in> set demo_run. event_fine ev"
    by (simp_all add: demo_run_def read_ok_def)
  have sh: "short_errors (\<lambda>_ _. None)" by (simp add: short_errors_def)
  have w: "written (s_writer s) = written (WriteCloser demo_tunnel) @ avail ?r"
    "written (s_writer t) = written demo_writer @ avail ?q" "room demo_writer = None"
    by (simp_all add: demo_tunnel_def demo_writer_def)
  from protocol_typing [OF s0 fine(1) cs w(1) new w(3) sh sh fine(2) ht w(2)]
  obtain n fs m gs where "read_all Decode n ?r = (Inr fs, ?r\<lparr>avail := []\<rparr>)" "\<forall>f \<in> set fs. request_ok f"
    "read_all Decode m ?q = (Inr gs, ?q\<lparr>avail := []\<rparr>)" "\<forall>f \<in> set gs. response_ok f" by blast
  moreover have "snd (client_acts ?as (demo_client0, s0)) = s" "snd (serve demo_run (demo_server, demo_session)) = t"
    using cs ht by (metis snd_conv)+
  ultimately show ?thesis using s0(1)
    by (intro exI [of _ s0] exI [of _ ?r] exI [of _ ?q] exI [of _ fs] exI [of _ gs]) auto
qed

lemma QueueControl_errors: "fst (QueueControl f s) = Some e \<Longrightarrow> e = ErrQueueFull"
  by (auto simp: QueueControl_def Push_def Let_def split_beta split: if_splits)

text \<open>C18. A well-formed frame is never refused for its form: the server's handler fails on a request
  only for the authentication gate, the token store, a full control queue or the relay's connection,
  and the client's handler fails on a response only when the server refused the token, the control
  queue is full, a SOCKS client's socket fails or a datagram cannot be put in a SOCKS packet.\<close>

theorem wellformed_frames_handled:
  assumes "request_ok f" and "HandleFrame f h s = (Some e, h2, s2)"
    and "response_ok g" and "client_HandleFrame g c t = (Some e2, c2, t2)"
  shows "(\<not> authOK h \<and> ftype f \<noteq> FrameAUTH \<and> e = ErrorNew ''auth required''
      \<or> ftype f = FrameAUTH \<and> (\<exists>p. DecodeAuthPayload (payload f) = Inr p
          \<and> fst (Validate (map_order h (tokens (validator h))) (now_ns h) (later_ns h)
                (Token p) (Nonce p) (validator h)) = Some e)
      \<or> ftype f \<in> {FrameAUTH, FramePING, FrameOPENTCP, FrameOPENUDP} \<and> e = ErrQueueFull
      \<or> ftype f = FrameTCPDATA \<and> fst (TCP_Write (channelID f) (payload f) (tcp h)) = Some e
      \<or> ftype f = FrameUDPDATA \<and> (\<exists>dg. DecodeUDPDatagram (payload f) = Inr dg
          \<and> fst (UDP_Write (channelID f) dg (udp h)) = Some e))
    \<and> (ftype g = FrameAUTHERR \<and> e2 = ErrorNew (string_of_bytes (payload g))
      \<or> ftype g = FramePING \<and> e2 = ErrQueueFull
      \<or> ftype g = FrameTCPDATA \<and> (\<exists>k. tcpConns c (channelID g) = Some k
          \<and> fst (sock_write k (payload g) (net c)) = Some e2)
      \<or> ftype g = FrameUDPDATA \<and> (\<exists>dg rt. DecodeUDPDatagram (payload g) = Inr dg
          \<and> udpRoutes c (channelID g) = Some rt
          \<and> (encodeSocksUDPDatagram (services c) (r_target rt) (udp_datagram.Data dg) = Inl e2
             \<or> udp_write_err c = Some e2)))"
proof
  have op: "fst (opened ch err s1) = Some e \<Longrightarrow> e = ErrQueueFull" for ch err s1
    using QueueControl_errors by (auto simp: opened_def split: option.splits)
  have qc: "fst (QueueControl fr s1) = Some e \<Longrightarrow> e = ErrQueueFull" for fr s1
    by (rule QueueControl_errors)
  have e: "fst (HandleFrame f h s) = Some e" using assms(2) by simp
  show "\<not> authOK h \<and> ftype f \<noteq> FrameAUTH \<and> e = ErrorNew ''auth required''
      \<or> ftype f = FrameAUTH \<and> (\<exists>p. DecodeAuthPayload (payload f) = Inr p
          \<and> fst (Validate (map_order h (tokens (validator h))) (now_ns h) (later_ns h)
                (Token p) (Nonce p) (validator h)) = Some e)
      \<or> ftype f \<in> {FrameAUTH, FramePING, FrameOPENTCP, FrameOPENUDP} \<and> e = ErrQueueFull
      \<or> ftype f = FrameTCPDATA \<and> fst (TCP_Write (channelID f) (payload f) (tcp h)) = Some e
      \<or> ftype f = FrameUDPDATA \<and> (\<exists>dg. DecodeUDPDatagram (payload f) = Inr dg
          \<and> fst (UDP_Write (channelID f) dg (udp h)) = Some e)"
    using e assms(1) op qc
    by (auto simp: HandleFrame_def handler_defs request_ok_def split_beta Let_def
        split: if_splits sum.splits prod.splits option.splits)
next
  have e: "fst (client_HandleFrame g c t) = Some e2" using assms(4) by simp
  have qc: "fst (QueueControl fr s1) = Some e2 \<Longrightarrow> e2 = ErrQueueFull" for fr s1
    by (rule QueueControl_errors)
  show "ftype g = FrameAUTHERR \<and> e2 = ErrorNew (string_of_bytes (payload g))
      \<or> ftype g = FramePING \<and> e2 = ErrQueueFull
      \<or> ftype g = FrameTCPDATA \<and> (\<exists>k. tcpConns c (channelID g) = Some k
          \<and> fst (sock_write k (payload g) (net c)) = Some e2)
      \<or> ftype g = FrameUDPDATA \<and> (\<exists>dg rt. DecodeUDPDatagram (payload g) = Inr dg
          \<and> udpRoutes c (channelID g) = Some rt
          \<and> (encodeSocksUDPDatagram (services c) (r_target rt) (udp_datagram.Data dg) = Inl e2
             \<or> udp_write_err c = Some e2))"
    using e assms(3) qc
    by (auto simp: client_HandleFrame_def response_ok_def client_TCPDATA_def client_UDPDATA_def WriteToUDP_def
        split_beta Let_def split: if_splits sum.splits option.splits)
qed

theorem wellformed_frames_handled_witness:
  "\<exists>h2 s2 c2 t2. HandleFrame (data_frame FrameTCPDATA 9 [1]) (demo_server\<lparr>authOK := True\<rparr>) demo_session = (Some EOF, h2, s2)
    \<and> client_HandleFrame (data_frame FrameAUTHERR 0 []) demo_client demo_session = (Some (ErrorNew []), c2, t2)
    \<and> fst (TCP_Write 9 [1] (tcp demo_server)) = Some EOF"
proof -
  let ?f = "data_frame FrameTCPDATA 9 [1]" and ?g = "data_frame FrameAUTHERR 0 []"
  let ?h = "demo_server\<lparr>authOK := True\<rparr>"
  have ok: "request_ok ?f" "response_ok ?g" by (simp_all add: request_ok_def response_ok_def new_frame_simps)
  obtain h2 s2 where h: "HandleFrame ?f ?h demo_session = (Some EOF, h2, s2)"
    by (simp add: HandleFrame_def new_frame_simps demo_server_def new_handler_def NewTCPRelay_def TCP_Write_def)
  have c: "client_HandleFrame ?g demo_client demo_session = (Some (ErrorNew []), demo_client, demo_session)"
    by (simp add: client_HandleFrame_def new_frame_simps string_of_bytes_def)
  from conjunct1 [OF wellformed_frames_handled [OF ok(1) h ok(2) c]] h c show ?thesis
    by (auto simp: new_frame_simps)
qed

section \<open>From the client to the server\<close>

definition client_copied :: "u32 \<Rightarrow> client_action \<Rightarrow> byte list list" where
  "client_copied ch a =
     (case a of
        Client ev \<Rightarrow>
          (case ev of CCopy ch2 rd _ \<Rightarrow> if ch2 = ch \<and> fst rd \<noteq> [] then [fst rd] else [] | _ \<Rightarrow> [])
      | _ \<Rightarrow> [])"

definition client_reads :: "u32 \<Rightarrow> client_action list \<Rightarrow> byte list list" where
  "client_reads ch as = concat (map (client_copied ch) as)"

lemma act_events_data: "tcp_payloads ch (queued_frames (act_events a c)) = client_copied ch a"
proof (cases a)
  case (Client ev)
  then show ?thesis
    by (cases ev) (auto simp: act_events_def client_copied_def copy_events_def open_frame_def new_frame_simps)
qed (auto simp: act_events_def client_copied_def open_frame_def udp_frame_def new_frame_simps
  split: option.split prod.split)

lemma client_trace_data: "tcp_payloads ch (queued_frames (client_trace as cs)) = client_reads ch as"
  by (induction as arbitrary: cs) (simp_all add: act_events_data client_reads_def)

lemma tcp_payloads_empty:
  "tcp_payloads ch fs = [] \<longleftrightarrow> (\<forall>f \<in> set fs. \<not> (ftype f = FrameTCPDATA \<and> channelID f = ch))"
  by (induction fs) auto



end
