(* ===== verification/SLPP_Handshake.thy ===== *)
theory SLPP_Handshake
  imports SLPP_Protocol
begin

text \<open>
  Setting a tunnel up, over the bytes of both directions: authentication and the first open, with
  the server's answers, and what a refused token does.
\<close>

section \<open>Setting a tunnel up\<close>

text \<open>The session that the handler of a frame is given, and what the read loop does with one frame.\<close>

definition received :: "int \<Rightarrow> frame \<Rightarrow> reader \<Rightarrow> session \<Rightarrow> session" where
  "received now f r s = s\<lparr>s_reader := r, lastActive := now, s_stats := (s_stats s)
     \<lparr>framesIn := framesIn (s_stats s) + 1,
      bytesIn := bytesIn (s_stats s) + of_nat (length (payload f))\<rparr>\<rparr>"

lemma received_simps [simp]:
  "controlQ (received now f r s) = controlQ s" "dataQ (received now f r s) = dataQ s"
  "s_writer (received now f r s) = s_writer s" "s_reader (received now f r s) = r"
  "ready (received now f r s) = ready s" "session_wf (received now f r s) = session_wf s"
  by (simp_all add: received_def ready_def session_wf_def all_class)

lemma read_iters_step:
  assumes "read_all Decode (Suc n) (s_reader s) = (Inr fs, r)"
    and "\<And>f r1. body f = body (hd fs) \<Longrightarrow> handle f h (received now f r1 s) = (e f r1, h2 f r1, s2 f r1)"
  obtains f r1 where "fs = f # tl fs" and "read_all Decode n r1 = (Inr (tl fs), r)"
    and "read_iters handle now (Suc n) h s = (case e f r1 of
       Some err \<Rightarrow> (Return (Some err), h2 f r1, s2 f r1)
     | None \<Rightarrow> read_iters handle now n (h2 f r1) (s2 f r1))"
proof -
  obtain f r1 gs where f: "Decode (s_reader s) = (Inr f, r1)" "fs = f # gs" "read_all Decode n r1 = (Inr gs, r)"
    using assms(1) by (auto split: prod.splits sum.splits)
  have "handle f h (received now f r1 s) = (e f r1, h2 f r1, s2 f r1)" using assms(2) [of f] f(2) by simp
  then have "readLoop_iter handle SelDefault now h s = (case e f r1 of
       Some err \<Rightarrow> (Return (Some err), h2 f r1, s2 f r1) | None \<Rightarrow> (Continue, h2 f r1, s2 f r1))"
    using f(1) by (simp add: readLoop_iter_def Let_def split: option.split flip: received_def)
  then show thesis using f by (intro that [of f r1]) (simp_all split: option.split)
qed

lemma bodyD: "body f = body g \<Longrightarrow> ftype f = ftype g \<and> channelID f = channelID g \<and> payload f = payload g"
  by (simp add: body_def)

lemma HandleFrame_body:
  assumes "body f = body g"
  shows "HandleFrame f h s = HandleFrame g h s"
proof -
  have "ftype f = ftype g" "channelID f = channelID g" "payload f = payload g"
    using bodyD [OF assms] by simp_all
  then show ?thesis by (simp only: HandleFrame_def handler_defs)
qed

lemma client_HandleFrame_body:
  assumes "body f = body g"
  shows "client_HandleFrame f c s = client_HandleFrame g c s"
proof -
  have "ftype f = ftype g" "channelID f = channelID g" "payload f = payload g"
    using bodyD [OF assms] by simp_all
  then show ?thesis by (simp only: client_HandleFrame_def client_TCPDATA_def client_UDPDATA_def)
qed

text \<open>What a drained session has written, as the other end reads it.\<close>

lemma drained_read:
  assumes "ready s" and "queued s \<le> n" and "t = apply_events (replicate n EvWrite) s"
    and "written (s_writer t) = written (s_writer s) @ avail r"
  obtains fs where "read_all Decode (length fs) r = (Inr fs, r\<lparr>avail := []\<rparr>)"
    and "map body fs = map body (q_list (controlQ s) @ q_list (dataQ s))"
proof -
  let ?evs = "replicate n EvWrite"
  let ?fs = "map frame_defaults (map snd (event_log wrote ?evs s))"
  have "\<forall>ev \<in> set ?evs. event_ok ev" by simp
  from read_written [OF assms(1) this refl] assms(3,4)
  have "read_all Decode (length ?fs) r = (Inr ?fs, r\<lparr>avail := []\<rparr>)" by simp
  moreover have "map body ?fs = map body (q_list (controlQ s) @ q_list (dataQ s))"
    using written_bodies [OF assms(1,2)] by (simp add: comp_def)
  ultimately show thesis by (rule that)
qed

text \<open>The first two frames of a client at the server.\<close>

lemma auth_accepted:
  assumes "DecodeAuthPayload (payload f) = Inr p" and "ftype f = FrameAUTH"
    and "fst (Validate (map_order h (tokens (validator h))) (now_ns h) (later_ns h)
      (Token p) (Nonce p) (validator h)) = None"
    and "session_wf s" and "q_list (controlQ s) = []"
  shows "\<exists>v s2. HandleFrame f h s = (None, h\<lparr>validator := v, authOK := True\<rparr>, s2)
    \<and> s2 = snd (QueueControl (reply FrameAUTHOK 0 []) s)
    \<and> q_list (controlQ s2) = [reply FrameAUTHOK 0 []] \<and> dataQ s2 = dataQ s \<and> session_wf s2"
proof -
  note q = QueueControl_list [OF assms(4), of "reply FrameAUTHOK 0 []"]
  have "control_room s (reply FrameAUTHOK 0 [])"
    using assms(5) by (simp add: control_room_def new_frame_simps payload_bytes_def del: length_q_list)
  then show ?thesis
    using assms q
    by (auto simp: HandleFrame_def handle_AUTH_def split_beta Let_def split: prod.split option.split)
qed

definition open_reply :: "u32 \<Rightarrow> go_error option \<Rightarrow> frame" where
  "open_reply ch err = (case err of None \<Rightarrow> reply FrameOPENOK ch [] | Some e \<Rightarrow> reply FrameOPENERR ch (error_text e))"

lemma open_answered:
  assumes "authOK h" and "ftype f = FrameOPENTCP" and "DecodeAddress (payload f) = Inr addr"
    and "dial_error (snd (tcp h)) ''tcp'' addr = err" and "channelID f = ch"
    and "session_wf s" and "q_list (controlQ s) = [g]" and "payload g = []"
    and "length (payload (open_reply ch err)) \<le> 16384"
  shows "\<exists>h2 s2. HandleFrame f h s = (None, h2, s2) \<and> authOK h2
    \<and> snd (tcp h2) = snd (dial ''tcp'' addr (snd (tcp h)))
    \<and> (err = None \<longrightarrow> tcp_conn ch (fst (tcp h2)) = Some (next_sock (snd (tcp h))))
    \<and> (\<exists>st. s2 = snd (QueueControl (open_reply ch err) (s\<lparr>s_stats := st\<rparr>)))
    \<and> q_list (controlQ s2) = [g, open_reply ch err] \<and> dataQ s2 = dataQ s"
proof -
  obtain e r2 w2 where o: "TCP_Open ch addr (tcp h) = (e, r2, w2)" by (metis prod_cases3)
  have e: "e = err" using TCP_Open_error [of ch addr "tcp h"] o assms(4) by simp
  define st where "st = (if err = None then AddActiveChannel 1 (s_stats s) else s_stats s)"
  let ?s = "s\<lparr>s_stats := st\<rparr>"
  have wf: "session_wf ?s" using assms(6) by (simp add: session_wf_def)
  have "control_room ?s (open_reply ch err)"
    using assms(7-9) by (simp add: control_room_def payload_bytes_def del: length_q_list)
  note q = QueueControl_list [OF wf, of "open_reply ch err"] this
  have "opened ch err s = QueueControl (open_reply ch err) ?s"
    by (cases err) (simp_all add: opened_def open_reply_def st_def)
  then have run: "HandleFrame f h s = (None, h\<lparr>tcp := (r2, w2)\<rparr>, snd (QueueControl (open_reply ch err) ?s))"
    using assms(1-3,5) o e q
    by (simp add: HandleFrame_def handle_OPENTCP_def split_beta Let_def prod_eq_iff)
  have "w2 = snd (dial ''tcp'' addr (snd (tcp h)))"
    using o by (auto simp: TCP_Open_def dial_def Let_def split_beta split: option.splits)
  moreover have "err = None \<longrightarrow> tcp_conn ch r2 = Some (next_sock (snd (tcp h)))"
    using tr.open_law [of ch addr "fst (tcp h)" "snd (tcp h)" e r2 w2 ch] o e assms(4)
    by (auto simp: eq_commute)
  ultimately show ?thesis using run q assms(1,7) by auto
qed
text \<open>The client sends its token and an open; the server reads both.\<close>

lemma client_asks:
  assumes "new_client_session env token tunnel = Inr s0" and "nonce_bytes env = Inr nonce"
    and "length nonce = 12" and "length token \<le> 16370" and "room (WriteCloser tunnel) = None"
    and "openTCPChannel_start addr conn (newTunnelClient w sv, s0) = (Inr (ch, k), c1, s1)"
    and "length addr \<le> 16382" and "2 \<le> n" and "s2 = apply_events (replicate n EvWrite) s1"
    and "written (s_writer s2) = written (WriteCloser tunnel) @ avail r"
  shows "ch = 2 \<and> k = 0 \<and> openResults c1 = [2 \<mapsto> 0] \<and> chans c1 = Map.empty \<and> session_wf s2
    \<and> (\<exists>fs. read_all Decode 2 r = (Inr fs, r\<lparr>avail := []\<rparr>) \<and> map body fs =
        [body (auth_frame token nonce), (FrameOPENTCP, 2, EncodeAddress addr)])"
proof -
  note st = client_session_start [OF assms(1-5)]
  have wf: "session_wf s0" using st(1) by (simp add: ready_def)
  let ?f = "data_frame FrameOPENTCP 2 (EncodeAddress addr)"
  have s1: "s1 = snd (QueueControl ?f s0)" "fst (QueueControl ?f s0) = None" "ch = 2" "k = 0"
    using assms(6)
    by (auto simp: openTCPChannel_start_def nextChannel_def newTunnelClient_def split_beta Let_def
        split: option.splits)
  have c1: "c1 = fst (snd (openTCPChannel_start addr conn (newTunnelClient w sv, s0)))"
    using assms(6) by simp
  have "openResults c1 = [2 \<mapsto> 0]" "chans c1 = Map.empty"
    unfolding c1 start_TCP_simps by (simp_all add: newTunnelClient_def)
  moreover have tr: "transmittable ?f"
    using open_frame_ok(1) [of addr FrameOPENTCP "newTunnelClient w sv"] assms(7)
    by (simp add: open_frame_def newTunnelClient_def)
  then have r1: "ready s1" using st(1) s1(1) ready_control by simp
  have "\<forall>ev \<in> set (replicate n EvWrite). event_ok ev" by simp
  from events_effect [OF r1 this] have "session_wf s2" by (simp add: assms(9) ready_def)
  moreover
  note ql = QueueControl_list [OF wf, of ?f]
  have "control_room s0 ?f" using ql(1) s1(2) by (simp split: if_splits)
  then have q: "q_list (controlQ s1) @ q_list (dataQ s1) = [auth_frame token nonce, ?f]"
    using ql st(4,5) s1(1) by simp
  have len: "queued s1 \<le> n" unfolding queued_length q using assms(8) by simp
  have "s_writer s1 = s_writer s0"
    using QueueControl_queues_only [of s0 ?f] s1(1) by (simp add: queues_only_def)
  then have "written (s_writer s2) = written (s_writer s1) @ avail r" using assms(10) st(2) by simp
  from drained_read [OF r1 len assms(9) this]
  obtain fs where fs: "read_all Decode (length fs) r = (Inr fs, r\<lparr>avail := []\<rparr>)"
    "map body fs = map body [auth_frame token nonce, ?f]" unfolding q by blast
  moreover have "length fs = 2" using arg_cong [OF fs(2), of length] by simp
  ultimately show ?thesis using s1(3,4) by (auto simp: body_def new_frame_simps)
qed

lemma dial_dial_error [simp]: "dial_error (snd (dial p a w)) = dial_error w"
  by (simp add: dial_def Let_def split: option.split)

lemma server_answers:
  assumes "read_all Decode 2 (s_reader s) = (Inr fs, r)" and "map body fs = [body f, body g]"
    and "DecodeAuthPayload (payload f) = Inr p" and "ftype f = FrameAUTH"
    and "fst (Validate (map_order h (tokens (validator h))) (now_ns h) (later_ns h)
      (Token p) (Nonce p) (validator h)) = None"
    and "ftype g = FrameOPENTCP" and "DecodeAddress (payload g) = Inr addr" and "channelID g = ch"
    and "dial_error (snd (tcp h)) ''tcp'' addr = err" and "length (payload (open_reply ch err)) \<le> 16384"
    and "ready s" and "q_list (controlQ s) = []"
  shows "\<exists>h2 t. read_iters HandleFrame now 2 h s = (Continue, h2, t) \<and> authOK h2
    \<and> snd (tcp h2) = snd (dial ''tcp'' addr (snd (tcp h)))
    \<and> (err = None \<longrightarrow> tcp_conn ch (fst (tcp h2)) = Some (next_sock (snd (tcp h))))
    \<and> ready t \<and> s_writer t = s_writer s \<and> s_reader t = r \<and> dataQ t = dataQ s
    \<and> q_list (controlQ t) = [reply FrameAUTHOK 0 [], open_reply ch err]"
proof -
  let ?a = "reply FrameAUTHOK 0 []" and ?o = "open_reply ch err"
  obtain x y where xy: "fs = [x, y]" "body x = body f" "body y = body g"
    using assms(2) by (auto simp: map_eq_Cons_conv)
  obtain r1 where x: "Decode (s_reader s) = (Inr x, r1)" and y: "Decode r1 = (Inr y, r)"
    using assms(1) unfolding xy(1) numeral_2_eq_2 by (auto split: prod.splits sum.splits)
  let ?s = "received now x r1 s"
  have wf: "session_wf ?s" "q_list (controlQ ?s) = []" using assms(11,12) by (simp_all add: ready_def)
  obtain v s2 where h1: "HandleFrame x h ?s = (None, h\<lparr>validator := v, authOK := True\<rparr>, s2)"
    and s2: "s2 = snd (QueueControl ?a ?s)" "q_list (controlQ s2) = [?a]" "dataQ s2 = dataQ ?s" "session_wf s2"
    using auth_accepted [OF assms(3-5) wf] HandleFrame_body [OF xy(2)] by metis
  let ?h = "h\<lparr>validator := v, authOK := True\<rparr>" and ?s2 = "received now y r s2"
  have wf2: "authOK ?h" "dial_error (snd (tcp ?h)) ''tcp'' addr = err" "session_wf ?s2"
    "q_list (controlQ ?s2) = [?a]" "payload ?a = []"
    using s2 assms(9) by (simp_all add: new_frame_simps)
  obtain h2 t st where h2: "HandleFrame y ?h ?s2 = (None, h2, t)" "authOK h2"
    "snd (tcp h2) = snd (dial ''tcp'' addr (snd (tcp h)))"
    "err = None \<longrightarrow> tcp_conn ch (fst (tcp h2)) = Some (next_sock (snd (tcp h)))"
    and t: "t = snd (QueueControl ?o (?s2\<lparr>s_stats := st\<rparr>))" "q_list (controlQ t) = [?a, ?o]" "dataQ t = dataQ ?s2"
    using open_answered [OF wf2(1) assms(6,7) wf2(2) assms(8) wf2(3-5) assms(10)]
      HandleFrame_body [OF xy(3)] by (auto simp: eq_commute)
  have rd: "s_reader s2 = r1" "s_writer s2 = s_writer s"
    using QueueControl_queues_only [of ?s ?a] s2(1) by (simp_all add: queues_only_def)
  have "s_writer t = s_writer s2" "s_reader t = r"
    using QueueControl_queues_only [of "?s2\<lparr>s_stats := st\<rparr>" ?o] t(1) by (simp_all add: queues_only_def)
  moreover have "transmittable ?a" "transmittable ?o"
    using assms(10) by (auto simp: open_reply_def transmittable_reply new_frame_simps split: option.split)
  then have "ready t" unfolding t(1) using assms(11) s2(1) by (simp add: ready_control)
  moreover have "readLoop_iter HandleFrame SelDefault now h s = (Continue, ?h, s2)"
    "readLoop_iter HandleFrame SelDefault now ?h s2 = (Continue, h2, t)"
    using x y h1 h2(1) rd(1) by (simp_all add: readLoop_iter_def Let_def flip: received_def)
  ultimately show ?thesis using h2 t s2 rd(2) by (simp add: numeral_2_eq_2)
qed

lemma client_hears:
  assumes "read_all Decode 2 (s_reader s) = (Inr fs, r)"
    and "map body fs = [body (reply FrameAUTHOK 0 []), body (open_reply ch err)]"
    and "openResults c ch = Some k"
  shows "\<exists>t. read_iters client_HandleFrame now 2 c s
      = (Continue, signalOpen ch (map_option (\<lambda>e. ErrorNew (error_text e)) err) c, t)
      \<and> s_reader t = r \<and> controlQ t = controlQ s \<and> dataQ t = dataQ s"
    and "chans (signalOpen ch e c) k = Some e"
proof -
  let ?a = "reply FrameAUTHOK 0 []" and ?o = "open_reply ch err"
  obtain x y where xy: "fs = [x, y]" "body x = body ?a" "body y = body ?o"
    using assms(2) by (auto simp: map_eq_Cons_conv)
  obtain r1 where x: "Decode (s_reader s) = (Inr x, r1)" and y: "Decode r1 = (Inr y, r)"
    using assms(1) unfolding xy(1) numeral_2_eq_2 by (auto split: prod.splits sum.splits)
  let ?s = "received now x r1 s" and ?s2 = "received now y r (received now x r1 s)"
  let ?c2 = "signalOpen ch (map_option (\<lambda>e. ErrorNew (error_text e)) err) c"
  have "client_HandleFrame x c ?s = (None, c, ?s)"
    unfolding client_HandleFrame_body [OF xy(2)] by (simp add: client_HandleFrame_def new_frame_simps)
  moreover have "client_HandleFrame y c ?s2 = (None, ?c2, ?s2)"
    unfolding client_HandleFrame_body [OF xy(3)]
    by (cases err) (simp_all add: client_HandleFrame_def new_frame_simps open_reply_def)
  ultimately have "readLoop_iter client_HandleFrame SelDefault now c s = (Continue, c, ?s)"
    "readLoop_iter client_HandleFrame SelDefault now c ?s = (Continue, ?c2, ?s2)"
    using x y by (simp_all add: readLoop_iter_def Let_def flip: received_def)
  then show "\<exists>t. read_iters client_HandleFrame now 2 c s
      = (Continue, signalOpen ch (map_option (\<lambda>e. ErrorNew (error_text e)) err) c, t)
      \<and> s_reader t = r \<and> controlQ t = controlQ s \<and> dataQ t = dataQ s" by (simp add: numeral_2_eq_2)
  show "chans (signalOpen ch e c) k = Some e" using assms(3) by simp
qed

text \<open>C11. Setting a tunnel up: a client whose token the server's store accepts starts a session and asks
  for a TCP channel; once its write loop has run, the server has read both frames, the session is
  authenticated and the connection dialled; once the server's write loop has run, the client has read
  both answers, and the waiting open gets its channel, or the error of the dial when it failed.\<close>

theorem handshake:
  assumes "new_client_session env token tunnel = Inr s0" and "nonce_bytes env = Inr nonce"
    and "length nonce = 12" and "length token \<le> 16370" and "room (WriteCloser tunnel) = None"
    and "openTCPChannel_start addr conn (newTunnelClient w sv, s0) = (Inr (ch, k), c1, s1)"
    and "length addr \<le> 16382" and "2 \<le> n" and "s2 = apply_events (replicate n EvWrite) s1"
    and "written (s_writer s2) = written (WriteCloser tunnel) @ avail rd"
    and "h0 = new_handler v (new_network d) (new_network d2) t0 t1 ord" and "room wr = None"
    and "fst (Validate (ord (tokens v)) t0 t1 token nonce v) = None"
    and "d ''tcp'' addr = err" and "short_errors d"
    and "read_iters HandleFrame now2 2 h0 (NewSession ident rd wr st hb now) = (res, h, t)"
    and "2 \<le> m" and "t2 = apply_events (replicate m EvWrite) t"
    and "written (s_writer t2) = written wr @ avail q"
    and "read_iters client_HandleFrame now3 2 c1 (s2\<lparr>s_reader := q\<rparr>) = (res2, c2, s3)"
  shows "res = Continue \<and> authOK h
    \<and> (err = None \<longrightarrow> tcp_conn ch (fst (tcp h)) = Some 0 \<and> is_open 0 (snd (tcp h)))
    \<and> open_result late False ch k c1 = None \<and> res2 = Continue
    \<and> open_result late False ch k c2 = Some (ch, map_option (\<lambda>e. ErrorNew (error_text e)) err)"
proof -
  note st = client_session_start [OF assms(1-5)] and ask = client_asks [OF assms(1-10)]
  have ch: "ch = 2" "k = 0" and c1: "openResults c1 = [2 \<mapsto> 0]" "chans c1 = Map.empty"
    using ask by simp_all
  let ?g = "data_frame FrameOPENTCP 2 (EncodeAddress addr)"
  have g: "body ?g = (FrameOPENTCP, 2, EncodeAddress addr)" "ftype ?g = FrameOPENTCP" "channelID ?g = 2"
    "DecodeAddress (payload ?g) = Inr addr"
    using DecodeAddress_Encode [of addr "[]"] assms(7) by (simp_all add: body_def new_frame_simps)
  obtain fs where fs: "read_all Decode 2 rd = (Inr fs, rd\<lparr>avail := []\<rparr>)"
    "map body fs = [body (auth_frame token nonce), body ?g]"
    using ask g(1) by metis
  let ?t0 = "NewSession ident rd wr st hb now"
  have t0: "ready ?t0" "s_reader ?t0 = rd" "q_list (controlQ ?t0) = []" "q_list (dataQ ?t0) = []"
    "s_writer ?t0 = wr"
    using New_simps(1) [of Control] New_simps(1) [of frame_class.Data] ready_New [OF assms(12)]
    by (simp_all add: NewSession_def)
  have h0: "tcp h0 = (NewTCPRelay, new_network d)" "validator h0 = v" "map_order h0 = ord"
    "now_ns h0 = t0" "later_ns h0 = t1" by (simp_all add: assms(11) new_handler_def)
  have au: "ftype (auth_frame token nonce) = FrameAUTH" by (simp add: auth_frame_def new_frame_simps)
  have val: "fst (Validate (map_order h0 (tokens (validator h0))) (now_ns h0) (later_ns h0)
      (Token \<lparr>Token = token, Nonce = nonce\<rparr>) (Nonce \<lparr>Token = token, Nonce = nonce\<rparr>) (validator h0)) = None"
    using assms(13) by (simp add: h0)
  have dl: "dial_error (snd (tcp h0)) ''tcp'' addr = err" using assms(14) by (simp add: h0 new_network_def)
  have len: "length (payload (open_reply 2 err)) \<le> 16384"
    using assms(14,15) by (auto simp: open_reply_def short_errors_def new_frame_simps split: option.split)
  have fs0: "read_all Decode 2 (s_reader ?t0) = (Inr fs, rd\<lparr>avail := []\<rparr>)" using fs(1) t0(2) by simp
  from server_answers [OF fs0 fs(2) st(6) au val g(2,4,3) dl len t0(1,3), of now2] assms(16)
  have srv: "res = Continue" "authOK h" "snd (tcp h) = snd (dial ''tcp'' addr (new_network d))"
    "err = None \<longrightarrow> tcp_conn 2 (fst (tcp h)) = Some 0"
    and t: "ready t" "s_writer t = wr" "dataQ t = dataQ ?t0"
    "q_list (controlQ t) = [reply FrameAUTHOK 0 [], open_reply 2 err]"
    using h0(1) t0(5) by (auto simp: new_network_def)
  have op: "err = None \<longrightarrow> is_open 0 (snd (tcp h))"
    unfolding srv(3) using assms(14) by (auto simp: dial_def new_network_def is_open_def Let_def)
  have q: "q_list (controlQ t) @ q_list (dataQ t) = [reply FrameAUTHOK 0 [], open_reply 2 err]"
    using t(3,4) t0(4) by simp
  have len: "queued t \<le> m" unfolding queued_length q using assms(17) by simp
  have wr: "written (s_writer t2) = written (s_writer t) @ avail q" using assms(19) t(2) by simp
  from drained_read [OF t(1) len assms(18) wr]
  obtain gs where gs: "read_all Decode (length gs) q = (Inr gs, q\<lparr>avail := []\<rparr>)"
    "map body gs = [body (reply FrameAUTHOK 0 []), body (open_reply 2 err)]"
    unfolding q list.simps(8,9) by blast
  have "length gs = length (map body gs)" by simp
  also have "\<dots> = 2" unfolding gs(2) by simp
  finally have gs2: "read_all Decode 2 (s_reader (s2\<lparr>s_reader := q\<rparr>)) = (Inr gs, q\<lparr>avail := []\<rparr>)"
    using gs(1) by simp
  have "openResults c1 2 = Some 0" using c1 by simp
  from client_hears(1) [OF gs2 gs(2) this, where now = now3] client_hears(2) [OF gs2 gs(2) this] assms(20)
  have "res2 = Continue" "chans c2 0 = Some (map_option (\<lambda>e. ErrorNew (error_text e)) err)" by auto
  with srv op ch c1 show ?thesis by (simp add: open_result_def)
qed

theorem handshake_witness:
  "\<exists>s0 c1 s1 rd h t q c2 s3. new_client_session demo_client_env ''tok'' demo_tunnel = Inr s0
    \<and> openTCPChannel_start ''a:1'' 0 (demo_client0, s0) = (Inr (2, 0), c1, s1)
    \<and> avail rd = written (s_writer (apply_events (replicate 2 EvWrite) s1))
    \<and> read_iters HandleFrame 0 2 demo_server (NewSession 7 rd demo_writer (NewStats 0) 0 0) = (Continue, h, t)
    \<and> authOK h \<and> tcp_conn 2 (fst (tcp h)) = Some 0
    \<and> avail q = written (s_writer (apply_events (replicate 2 EvWrite) t))
    \<and> read_iters client_HandleFrame 0 2 c1 ((apply_events (replicate 2 EvWrite) s1)\<lparr>s_reader := q\<rparr>) = (Continue, c2, s3)
    \<and> open_result [] False 2 0 c1 = None \<and> open_result [] False 2 0 c2 = Some (2, None)"
proof -
  obtain s0 c1 s1 where s0: "new_client_session demo_client_env ''tok'' demo_tunnel = Inr s0"
    "nonce_bytes demo_client_env = Inr (replicate 12 7)" "length (replicate 12 (7 :: byte)) = 12"
    "length ''tok'' \<le> 16370" "room (WriteCloser demo_tunnel) = None"
    "openTCPChannel_start ''a:1'' 0 (demo_client0, s0) = (Inr (2, 0), c1, s1)"
    using demo_client_start [of "''tok''"] by auto
  let ?s2 = "apply_events (replicate 2 EvWrite) s1"
  let ?rd = "\<lparr>avail = written (s_writer ?s2), end_err = EOF\<rparr>"
  obtain res h t where srv: "read_iters HandleFrame 0 2 demo_server (NewSession 7 ?rd demo_writer (NewStats 0) 0 0) = (res, h, t)"
    by (metis prod_cases3)
  let ?t2 = "apply_events (replicate 2 EvWrite) t"
  let ?q = "\<lparr>avail = written (s_writer ?t2), end_err = EOF\<rparr>"
  obtain res2 c2 s3 where cl: "read_iters client_HandleFrame 0 2 c1 (?s2\<lparr>s_reader := ?q\<rparr>) = (res2, c2, s3)"
    by (metis prod_cases3)
  have w: "written (s_writer ?s2) = written (WriteCloser demo_tunnel) @ avail ?rd"
    "written (s_writer ?t2) = written demo_writer @ avail ?q" "room demo_writer = None"
    by (simp_all add: demo_tunnel_def demo_writer_def)
  have h: "demo_server = new_handler demo_store (new_network (\<lambda>_ _. None)) (new_network (\<lambda>_ _. None)) 10 10 (\<lambda>_. [''id1''])"
    by (rule demo_server_def)
  have sh: "short_errors (\<lambda>_ _. None)" by (simp add: short_errors_def)
  have val: "fst (Validate ((\<lambda>_. [''id1'']) (tokens demo_store)) 10 10 ''tok'' (replicate 12 7) demo_store) = None"
    by (simp add: demo_defs)
  have a: "length ''a:1'' \<le> 16382" by simp
  from handshake [OF s0(1-5) s0(6) [unfolded demo_client0_def] a le_refl refl w(1) h w(3) val refl sh srv le_refl refl w(2) cl]
  have r: "res = Continue" "authOK h" "tcp_conn 2 (fst (tcp h)) = Some 0"
    "open_result [] False 2 0 c1 = None" "res2 = Continue" "open_result [] False 2 0 c2 = Some (2, None)"
    by simp_all
  show ?thesis using s0(1,6) srv cl r
    by (intro exI [of _ s0] exI [of _ c1] exI [of _ s1] exI [of _ ?rd] exI [of _ h] exI [of _ t] exI [of _ ?q]
        exI [of _ c2] exI [of _ s3]) simp
qed

lemma server_refuses:
  assumes "read_all Decode 2 (s_reader s) = (Inr fs, r)" and "map body fs = [body f, g]"
    and "DecodeAuthPayload (payload f) = Inr p" and "ftype f = FrameAUTH"
    and "fst (Validate (map_order h (tokens (validator h))) (now_ns h) (later_ns h)
      (Token p) (Nonce p) (validator h)) = Some e"
    and "ready s" and "q_list (controlQ s) = []"
  shows "\<exists>t. read_iters HandleFrame now (Suc n) h s = (Return (Some e), h, t)
    \<and> ready t \<and> s_writer t = s_writer s \<and> dataQ t = dataQ s
    \<and> q_list (controlQ t) = [reply FrameAUTHERR 0 (error_text e)]"
proof -
  let ?a = "reply FrameAUTHERR 0 (error_text e)"
  obtain x y where xy: "fs = [x, y]" "body x = body f"
    using assms(2) by (auto simp: map_eq_Cons_conv)
  obtain r1 where x: "Decode (s_reader s) = (Inr x, r1)"
    using assms(1) unfolding xy(1) numeral_2_eq_2 by (auto split: prod.splits sum.splits)
  let ?s = "(received now x r1 s)\<lparr>s_stats := AddAuthFailure (s_stats (received now x r1 s))\<rparr>"
  let ?t = "snd (QueueControl ?a ?s)"
  obtain v where v: "Validate (map_order h (tokens (validator h))) (now_ns h) (later_ns h)
      (Token p) (Nonce p) (validator h) = (Some e, v)" using assms(5) by (metis prod.collapse)
  then have "v = validator h" using Validate_state by blast
  then have "HandleFrame x h (received now x r1 s) = (Some e, h, ?t)"
    unfolding HandleFrame_body [OF xy(2)]
    using assms(3,4) v by (simp add: HandleFrame_def handle_AUTH_def)
  then have run: "readLoop_iter HandleFrame SelDefault now h s = (Return (Some e), h, ?t)"
    using x by (simp add: readLoop_iter_def Let_def flip: received_def)
  have len: "length (error_text e) \<le> 16384" using Validate_short assms(5) by blast
  have wf: "ready ?s" "q_list (controlQ ?s) = []" using assms(6,7) by simp_all
  then have wf: "session_wf ?s" "q_list (controlQ ?s) = []" "ready ?s" by (simp_all add: ready_def)
  have "control_room ?s ?a"
    using wf(2) len by (simp add: control_room_def payload_bytes_def new_frame_simps del: length_q_list)
  note q = QueueControl_list [OF wf(1), of ?a] this
  moreover have "s_writer ?t = s_writer s"
    using QueueControl_queues_only [of ?s ?a] by (simp add: queues_only_def)
  moreover have "ready ?t" using wf(3) len by (intro ready_control transmittable_reply) simp_all
  ultimately show ?thesis using run wf(2) by simp
qed

lemma client_refused:
  assumes "read_all Decode 1 (s_reader s) = (Inr fs, r)"
    and "map body fs = [body (reply FrameAUTHERR 0 (error_text e))]"
  shows "\<exists>t. read_iters client_HandleFrame now (Suc n) c s = (Return (Some (ErrorNew (error_text e))), c, t)"
proof -
  obtain x where xy: "fs = [x]" "body x = body (reply FrameAUTHERR 0 (error_text e))"
    using assms(2) by (auto simp: map_eq_Cons_conv)
  obtain r1 where x: "Decode (s_reader s) = (Inr x, r1)"
    using assms(1) unfolding xy(1) One_nat_def by (auto split: prod.splits sum.splits)
  have "client_HandleFrame x c (received now x r1 s) = (Some (ErrorNew (error_text e)), c, received now x r1 s)"
    unfolding client_HandleFrame_body [OF xy(2)] by (simp add: client_HandleFrame_def new_frame_simps)
  then have "readLoop_iter client_HandleFrame SelDefault now c s
      = (Return (Some (ErrorNew (error_text e))), c, received now x r1 s)"
    using x by (simp add: readLoop_iter_def Let_def flip: received_def)
  then show ?thesis by simp
qed

text \<open>C17. A refused token: when the store does not accept the token, the server's read loop ends with the
  store's error before any connection is dialled, and the reason is queued for the client.  If the
  server's write loop still gets to run, the client's read loop ends with the same text as its error;
  a channel the client was opening hears nothing either way, and its caller waits until its timeout.\<close>

theorem handshake_refused:
  assumes "new_client_session env token tunnel = Inr s0" and "nonce_bytes env = Inr nonce"
    and "length nonce = 12" and "length token \<le> 16370" and "room (WriteCloser tunnel) = None"
    and "openTCPChannel_start addr conn (newTunnelClient w sv, s0) = (Inr (ch, k), c1, s1)"
    and "length addr \<le> 16382" and "2 \<le> n" and "s2 = apply_events (replicate n EvWrite) s1"
    and "written (s_writer s2) = written (WriteCloser tunnel) @ avail rd"
    and "h0 = new_handler v (new_network d) (new_network d2) t0 t1 ord" and "room wr = None"
    and "fst (Validate (ord (tokens v)) t0 t1 token nonce v) = Some e"
    and "read_iters HandleFrame now2 (Suc j) h0 (NewSession ident rd wr st hb now) = (res, h, t)"
    and "1 \<le> m" and "t2 = apply_events (replicate m EvWrite) t"
    and "written (s_writer t2) = written wr @ avail q"
    and "read_iters client_HandleFrame now3 (Suc i) c1 (s2\<lparr>s_reader := q\<rparr>) = (res2, c2, s3)"
  shows "res = Return (Some e) \<and> \<not> authOK h \<and> sockets (snd (tcp h)) = Map.empty
    \<and> q_list (controlQ t) = [reply FrameAUTHERR 0 (error_text e)]
    \<and> res2 = Return (Some (ErrorNew (error_text e))) \<and> open_result late False ch k c2 = None"
proof -
  note st = client_session_start [OF assms(1-5)] and ask = client_asks [OF assms(1-10)]
  have c1: "k = 0" "chans c1 = Map.empty" using ask by simp_all
  obtain fs where fs: "read_all Decode 2 rd = (Inr fs, rd\<lparr>avail := []\<rparr>)"
    "map body fs = [body (auth_frame token nonce), (FrameOPENTCP, 2, EncodeAddress addr)]"
    using ask by metis
  let ?t0 = "NewSession ident rd wr st hb now"
  have t0: "ready ?t0" "s_reader ?t0 = rd" "q_list (controlQ ?t0) = []" "q_list (dataQ ?t0) = []"
    "s_writer ?t0 = wr"
    using New_simps(1) [of Control] New_simps(1) [of frame_class.Data] ready_New [OF assms(12)]
    by (simp_all add: NewSession_def)
  have h0: "tcp h0 = (NewTCPRelay, new_network d)" "validator h0 = v" "map_order h0 = ord"
    "now_ns h0 = t0" "later_ns h0 = t1" "\<not> authOK h0" by (simp_all add: assms(11) new_handler_def)
  have au: "ftype (auth_frame token nonce) = FrameAUTH" by (simp add: auth_frame_def new_frame_simps)
  have val: "fst (Validate (map_order h0 (tokens (validator h0))) (now_ns h0) (later_ns h0)
      (Token \<lparr>Token = token, Nonce = nonce\<rparr>) (Nonce \<lparr>Token = token, Nonce = nonce\<rparr>) (validator h0)) = Some e"
    using assms(13) by (simp add: h0)
  have fs0: "read_all Decode 2 (s_reader ?t0) = (Inr fs, rd\<lparr>avail := []\<rparr>)" using fs(1) t0(2) by simp
  from server_refuses [OF fs0 fs(2) st(6) au val t0(1,3), of now2 j] assms(14)
  have srv: "res = Return (Some e)" "h = h0" and t: "ready t" "s_writer t = wr" "dataQ t = dataQ ?t0"
    "q_list (controlQ t) = [reply FrameAUTHERR 0 (error_text e)]"
    using t0(5) by auto
  have q: "q_list (controlQ t) @ q_list (dataQ t) = [reply FrameAUTHERR 0 (error_text e)]"
    using t(3,4) t0(4) by simp
  have len: "queued t \<le> m" unfolding queued_length q using assms(15) by simp
  have wr: "written (s_writer t2) = written (s_writer t) @ avail q" using assms(17) t(2) by simp
  from drained_read [OF t(1) len assms(16) wr]
  obtain gs where gs: "read_all Decode (length gs) q = (Inr gs, q\<lparr>avail := []\<rparr>)"
    "map body gs = [body (reply FrameAUTHERR 0 (error_text e))]"
    unfolding q list.simps(8,9) by blast
  have "length gs = length (map body gs)" by simp
  also have "\<dots> = 1" unfolding gs(2) by simp
  finally have gs2: "read_all Decode 1 (s_reader (s2\<lparr>s_reader := q\<rparr>)) = (Inr gs, q\<lparr>avail := []\<rparr>)"
    using gs(1) by simp
  from client_refused [OF gs2 gs(2), of now3 i c1] assms(18)
  have "res2 = Return (Some (ErrorNew (error_text e)))" "c2 = c1" by auto
  with srv t(4) h0 c1 show ?thesis by (simp add: open_result_def new_network_def)
qed

theorem handshake_refused_witness:
  "\<exists>s0 c1 s1 rd h t q c2 s3 e. new_client_session demo_client_env ''no'' demo_tunnel = Inr s0
    \<and> openTCPChannel_start ''a:1'' 0 (demo_client0, s0) = (Inr (2, 0), c1, s1)
    \<and> avail rd = written (s_writer (apply_events (replicate 2 EvWrite) s1))
    \<and> read_iters HandleFrame 0 1 demo_server (NewSession 7 rd demo_writer (NewStats 0) 0 0) = (Return (Some e), h, t)
    \<and> \<not> authOK h
    \<and> avail q = written (s_writer (apply_events (replicate 1 EvWrite) t))
    \<and> read_iters client_HandleFrame 0 1 c1 ((apply_events (replicate 2 EvWrite) s1)\<lparr>s_reader := q\<rparr>)
        = (Return (Some (ErrorNew (error_text e))), c2, s3)
    \<and> open_result [] False 2 0 c2 = None"
proof -
  obtain s0 c1 s1 where s0: "new_client_session demo_client_env ''no'' demo_tunnel = Inr s0"
    "nonce_bytes demo_client_env = Inr (replicate 12 7)" "length (replicate 12 (7 :: byte)) = 12"
    "length ''no'' \<le> 16370" "room (WriteCloser demo_tunnel) = None"
    "openTCPChannel_start ''a:1'' 0 (demo_client0, s0) = (Inr (2, 0), c1, s1)"
    using demo_client_start [of "''no''"] by auto
  let ?s2 = "apply_events (replicate 2 EvWrite) s1"
  let ?rd = "\<lparr>avail = written (s_writer ?s2), end_err = EOF\<rparr>"
  obtain res h t where srv: "read_iters HandleFrame 0 (Suc 0) demo_server (NewSession 7 ?rd demo_writer (NewStats 0) 0 0) = (res, h, t)"
    by (metis prod_cases3)
  let ?t2 = "apply_events (replicate 1 EvWrite) t"
  let ?q = "\<lparr>avail = written (s_writer ?t2), end_err = EOF\<rparr>"
  obtain res2 c2 s3 where cl: "read_iters client_HandleFrame 0 (Suc 0) c1 (?s2\<lparr>s_reader := ?q\<rparr>) = (res2, c2, s3)"
    by (metis prod_cases3)
  have w: "written (s_writer ?s2) = written (WriteCloser demo_tunnel) @ avail ?rd"
    "written (s_writer ?t2) = written demo_writer @ avail ?q" "room demo_writer = None"
    by (simp_all add: demo_tunnel_def demo_writer_def)
  have h: "demo_server = new_handler demo_store (new_network (\<lambda>_ _. None)) (new_network (\<lambda>_ _. None)) 10 10 (\<lambda>_. [''id1''])"
    by (rule demo_server_def)
  obtain e where val: "fst (Validate ((\<lambda>_. [''id1'']) (tokens demo_store)) 10 10 ''no'' (replicate 12 7) demo_store) = Some e"
    by (simp add: demo_defs)
  have a: "length ''a:1'' \<le> 16382" by simp
  from handshake_refused [OF s0(1-5) s0(6) [unfolded demo_client0_def] a le_refl refl w(1) h w(3) val srv le_refl refl w(2) cl]
  have r: "res = Return (Some e)" "\<not> authOK h" "res2 = Return (Some (ErrorNew (error_text e)))"
    "open_result [] False 2 0 c2 = None"
    by simp_all
  show ?thesis using s0(1,6) srv cl r
    by (intro exI [of _ s0] exI [of _ c1] exI [of _ s1] exI [of _ ?rd] exI [of _ h] exI [of _ t] exI [of _ ?q]
        exI [of _ c2] exI [of _ s3] exI [of _ e]) simp
qed

end
