(* ===== verification/SLPP_World.thy ===== *)
theory SLPP_World
  imports SLPP_Handshake
begin

text \<open>
  Client, server and the wire between them as one system (\<open>world\<close>), which moves by the steps
  of either program, arrivals of bytes and iterations of the read loops, in any order.  The locale
  \<open>endpoint\<close> is what both programs are for the wire; its laws give the invariant of the
  system: the frames on the wire are whole and well formed in both directions at every moment.
\<close>

section \<open>Frames in a byte stream\<close>

text \<open>The whole frames at the front of a stream.\<close>

function frames_in :: "byte list \<Rightarrow> frame list" where
  "frames_in bs =
     (case Decode \<lparr>avail = bs, end_err = EOF\<rparr> of
        (Inl _, _) \<Rightarrow> []
      | (Inr f, r) \<Rightarrow> f # frames_in (avail r))"
  by pat_completeness auto

termination
  by (relation "measure length") (auto dest!: Decode_Inr [OF sym] simp: length_frame_wire)

declare frames_in.simps [simp del]

lemma frames_in_wire:
  "transmittable f \<Longrightarrow> frames_in (frame_wire f @ rest) = frame_defaults f # frames_in rest"
  by (subst frames_in.simps) (simp add: codec.decode_wire_of)

lemma frames_in_Nil [simp]: "frames_in [] = []"
  by (subst frames_in.simps) (simp add: Decode_end)

lemma frames_in_frames:
  "\<forall>f \<in> set fs. transmittable f \<Longrightarrow>
     frames_in (concat (map frame_wire fs) @ rest) = map frame_defaults fs @ frames_in rest"
  by (induction fs) (simp_all add: frames_in_wire)

lemma frame_wire_defaults [simp]: "frame_wire (frame_defaults f) = frame_wire f"
  by (simp add: frame_wire_def)

text \<open>A stream that consists of whole frames with the property \<open>P\<close>.\<close>

definition stream_of :: "(frame \<Rightarrow> bool) \<Rightarrow> byte list \<Rightarrow> bool" where
  "stream_of P bs \<longleftrightarrow> bs = concat (map frame_wire (frames_in bs)) \<and> (\<forall>f \<in> set (frames_in bs). P f)"

lemma frames_in_transmittable: "f \<in> set (frames_in bs) \<Longrightarrow> transmittable f"
proof (induction bs rule: frames_in.induct)
  case (1 bs)
  show ?case
  proof (cases "Decode \<lparr>avail = bs, end_err = EOF\<rparr>")
    case (Pair d r)
    show ?thesis
    proof (cases d)
      case (Inl e)
      then show ?thesis using 1(2) Pair by (subst (asm) frames_in.simps) simp
    next
      case (Inr g)
      then have d: "Decode \<lparr>avail = bs, end_err = EOF\<rparr> = (Inr g, r)" using Pair by simp
      have "frames_in bs = g # frames_in (avail r)" by (subst frames_in.simps) (simp add: d)
      moreover have "transmittable g"
        using Decode_Inr [OF d] by (simp add: transmittable_def encodable_def)
      ultimately show ?thesis using 1(1) [OF d [symmetric] refl] 1(2) by auto
    qed
  qed
qed

lemma frames_in_append:
  assumes "stream_of P xs"
  shows "frames_in (xs @ ys) = frames_in xs @ frames_in ys"
proof -
  have "frames_in (concat (map frame_wire (frames_in xs)) @ ys)
      = map frame_defaults (frames_in xs) @ frames_in ys"
    using frames_in_transmittable by (intro frames_in_frames) blast
  moreover have "frames_in (concat (map frame_wire (frames_in xs)) @ [])
      = map frame_defaults (frames_in xs) @ frames_in []"
    using frames_in_transmittable by (intro frames_in_frames) blast
  moreover have "xs = concat (map frame_wire (frames_in xs))" using assms by (simp add: stream_of_def)
  ultimately show ?thesis by simp
qed

lemma stream_of_append: "stream_of P xs \<Longrightarrow> stream_of P ys \<Longrightarrow> stream_of P (xs @ ys)"
  using frames_in_append [of P xs ys] by (auto simp: stream_of_def)

lemma stream_of_Nil [simp]: "stream_of P []"
  by (simp add: stream_of_def)

lemma stream_of_frames:
  assumes "\<forall>f \<in> set fs. transmittable f \<and> P f" and "\<And>f g. body f = body g \<Longrightarrow> P f = P g"
  shows "stream_of P (concat (map frame_wire fs))"
    and "frames_in (concat (map frame_wire fs)) = map frame_defaults fs"
proof -
  show fr: "frames_in (concat (map frame_wire fs)) = map frame_defaults fs"
    using frames_in_frames [of fs "[]"] assms(1) by simp
  have "map (frame_wire \<circ> frame_defaults) fs = map frame_wire fs" by simp
  moreover have "P (frame_defaults f)" if "f \<in> set fs" for f
    using assms(1) that assms(2) [OF body_defaults, of f] by blast
  ultimately show "stream_of P (concat (map frame_wire fs))"
    unfolding stream_of_def fr by (simp add: comp_def)
qed

text \<open>What \<^verbatim>\<open>Decode\<close> reports when the stream ends inside or between frames.\<close>

definition cut_error :: "go_error \<Rightarrow> go_error \<Rightarrow> bool" where
  "cut_error ended e \<longleftrightarrow>
     e \<in> {ended, ErrUnexpectedEOF, Wrap ''read payload'' ended, Wrap ''read payload'' ErrUnexpectedEOF}"

lemma Decode_cut:
  assumes "transmittable f" and "k < length (frame_wire f)" and "avail r = take k (frame_wire f)"
  shows "\<exists>e. Decode r = (Inl e, r\<lparr>avail := []\<rparr>) \<and> cut_error (end_err r) e"
proof (cases "k < 20")
  case True
  then show ?thesis
    using assms by (auto simp: Decode_def read_full_def length_frame_wire cut_error_def)
next
  case False
  let ?d = "frame_defaults f"
  have av: "avail r = frame_header ?d @ take (k - 20) (payload f)"
    using assms(3) False by (simp add: frame_wire_def)
  have rd: "read_full HeaderLen r = (Inr (frame_header ?d), r\<lparr>avail := take (k - 20) (payload f)\<rparr>)"
    by (rule read_full_append) (simp_all add: av)
  have ok: "version ?d = of_nat Version" "\<not> headerLen ?d < of_nat HeaderLen"
    "KnownFrameType (ftype ?d)" "length (payload f) \<le> 16384" "k - 20 < length (payload f)"
    using assms(1,2) False by (auto simp: transmittable_def encodable_def length_frame_wire)
  have len: "unat (get_u32 (go_slice 16 20 (frame_header ?d))) = length (payload f)"
    using ok(4) by (simp add: header_fields unat_u32_of_len)
  show ?thesis
    unfolding Decode_def rd using ok False by (auto simp: len Let_def read_full_def cut_error_def)
qed

lemma Decode_stream:
  assumes "stream_of P (avail r @ flight)" and "Decode r = (d, q)"
  shows "case d of
     Inr f \<Rightarrow> P f \<and> stream_of P (avail q @ flight) \<and> frames_in (avail r @ flight) = f # frames_in (avail q @ flight)
   | Inl e \<Rightarrow> cut_error (end_err r) e"
proof (cases d)
  case (Inr f)
  note dc = Decode_Inr [OF assms(2) [unfolded Inr]]
  then have tr: "transmittable f" by (simp add: transmittable_def encodable_def)
  have "frame_defaults f = f" using dc by (intro frame.equality) auto
  then have fr: "frames_in (avail r @ flight) = f # frames_in (avail q @ flight)"
    using dc frames_in_wire [OF tr, of "avail q @ flight"] by simp
  then have "avail r @ flight = frame_wire f @ concat (map frame_wire (frames_in (avail q @ flight)))"
    "P f" "\<forall>g \<in> set (frames_in (avail q @ flight)). P g"
    using assms(1) by (simp_all add: stream_of_def)
  with dc fr Inr show ?thesis by (simp add: stream_of_def)
next
  case (Inl e)
  let ?fs = "frames_in (avail r @ flight)"
  have st: "avail r @ flight = concat (map frame_wire ?fs)" using assms(1) by (simp add: stream_of_def)
  show ?thesis
  proof (cases ?fs)
    case Nil
    then have "avail r = []" using st by simp
    then show ?thesis using assms(2) Inl Decode_end [of r] by (auto simp: cut_error_def)
  next
    case (Cons f gs)
    have tr: "transmittable f" using frames_in_transmittable [of f "avail r @ flight"] Cons by simp
    have st: "avail r @ flight = frame_wire f @ concat (map frame_wire gs)" using st Cons by simp
    have lt: "length (avail r) < length (frame_wire f)"
    proof (rule ccontr)
      assume "\<not> length (avail r) < length (frame_wire f)"
      then have "take (length (frame_wire f)) (avail r @ flight) = take (length (frame_wire f)) (avail r)" by simp
      then have "avail r = frame_wire f @ drop (length (frame_wire f)) (avail r)"
        unfolding st by (metis append_take_drop_id append_eq_conv_conj)
      from codec.decode_wire_of [OF tr this] show False using assms(2) Inl by simp
    qed
    have "avail r = take (length (avail r)) (avail r @ flight)" by simp
    also have "\<dots> = take (length (avail r)) (frame_wire f)" unfolding st using lt by simp
    finally have "avail r = take (length (avail r)) (frame_wire f)" .
    from Decode_cut [OF tr lt this] show ?thesis using assms(2) Inl by auto
  qed
qed

section \<open>Kinds of frames\<close>

text \<open>
  \<open>p\<close> selects frames by their type, channel and payload, from one of the two queues: data of a
  channel, or the frames that open or close it, which are never replies.  Their payloads are the
  \<open>items\<close>.
\<close>

definition is_data :: "frame \<Rightarrow> bool" where
  "is_data f \<longleftrightarrow> ftype f = FrameTCPDATA \<or> ftype f = FrameUDPDATA"

definition is_traffic :: "frame \<Rightarrow> bool" where
  "is_traffic f \<longleftrightarrow> is_data f \<or> ftype f = FrameOPENTCP \<or> ftype f = FrameTCPCLOSE"

fun class_of :: "frame_class \<Rightarrow> frame \<Rightarrow> bool" where
  "class_of frame_class.Data f = is_data f"
| "class_of Control f = (\<not> is_data f)"

definition frame_kind :: "(frame \<Rightarrow> bool) \<Rightarrow> bool" where
  "frame_kind p \<longleftrightarrow> (\<exists>k. \<forall>f. p f \<longrightarrow> class_of k f \<and> is_traffic f) \<and> (\<forall>f g. body f = body g \<longrightarrow> p f = p g)"

definition items :: "(frame \<Rightarrow> bool) \<Rightarrow> frame list \<Rightarrow> byte list list" where
  "items p fs = map payload (filter p fs)"

definition tcp_on :: "u32 \<Rightarrow> frame \<Rightarrow> bool" where
  "tcp_on ch f \<longleftrightarrow> ftype f = FrameTCPDATA \<and> channelID f = ch"

definition udp_on :: "u32 \<Rightarrow> frame \<Rightarrow> bool" where
  "udp_on ch f \<longleftrightarrow> ftype f = FrameUDPDATA \<and> channelID f = ch"

definition open_on :: "u32 \<Rightarrow> frame \<Rightarrow> bool" where
  "open_on ch f \<longleftrightarrow> ftype f = FrameOPENTCP \<and> channelID f = ch"

definition close_on :: "u32 \<Rightarrow> frame \<Rightarrow> bool" where
  "close_on ch f \<longleftrightarrow> ftype f = FrameTCPCLOSE \<and> channelID f = ch"

lemma items_simps [simp]:
  "items p [] = []" "items p (f # fs) = (if p f then [payload f] else []) @ items p fs"
  "items p (fs @ gs) = items p fs @ items p gs"
  by (simp_all add: items_def)

lemma items_tcp: "items (tcp_on ch) fs = tcp_payloads ch fs"
  by (induction fs) (simp_all add: tcp_on_def)

lemma frame_kindD:
  assumes "frame_kind p"
  shows "body f = body g \<Longrightarrow> p f = p g" and "p f \<Longrightarrow> is_traffic f"
  using assms unfolding frame_kind_def by blast+

lemma frame_kindE:
  assumes "frame_kind p"
  obtains k where "\<And>f. p f \<Longrightarrow> class_of k f"
  using assms unfolding frame_kind_def by blast

lemma frame_kinds [simp]: "frame_kind (tcp_on ch)" "frame_kind (udp_on ch)"
  "frame_kind (open_on ch)" "frame_kind (close_on ch)"
proof -
  show "frame_kind (tcp_on ch)" "frame_kind (udp_on ch)"
    by (auto simp: frame_kind_def is_traffic_def is_data_def tcp_on_def udp_on_def body_def intro!: exI [of _ frame_class.Data])
  show "frame_kind (open_on ch)" "frame_kind (close_on ch)"
    by (auto simp: frame_kind_def is_traffic_def is_data_def open_on_def close_on_def body_def intro!: exI [of _ Control])
qed

lemma items_none: "\<forall>f \<in> set fs. \<not> p f \<Longrightarrow> items p fs = []"
  by (simp add: items_def filter_empty_conv)

lemma items_body: "frame_kind p \<Longrightarrow> map body fs = map body gs \<Longrightarrow> items p fs = items p gs"
proof (induction fs arbitrary: gs)
  case (Cons f fs)
  then obtain g hs where g: "gs = g # hs" "body f = body g" "map body fs = map body hs" by auto
  have "p f = p g" by (rule frame_kindD(1) [OF Cons.prems(1) g(2)])
  moreover have "payload f = payload g" using g(2) by (simp add: body_def)
  moreover have "items p fs = items p hs" by (rule Cons.IH [OF Cons.prems(1) g(3)])
  ultimately show ?case unfolding g(1) items_simps by (simp only:)
qed simp

fun other_class :: "frame_class \<Rightarrow> frame_class" where
  "other_class frame_class.Data = Control"
| "other_class Control = frame_class.Data"

lemma items_classes:
  "items p (of_class (other_class k) log) = [] \<Longrightarrow> items p (map snd log) = items p (of_class k log)"
proof (induction log)
  case (Cons x log)
  then show ?case by (cases "fst x"; cases k) (auto split: if_splits)
qed simp

text \<open>A queue that is full drops frames; it neither adds nor reorders any.\<close>

lemma pushed_items:
  assumes "frame_kind p"
  shows "subseq (items p (map snd (event_log pushed evs s))) (items p (queued_frames evs))"
proof (induction evs arbitrary: s)
  case (Cons ev evs)
  have "subseq (items p (map snd (pushed ev s))) (items p (queued_frames [ev]))"
  proof (cases ev)
    case (EvQueue k f)
    then show ?thesis by (cases k) (simp_all add: pushed_def)
  next
    case EvBeat
    have "\<not> p (beat_frame s)"
      using frame_kindD(2) [OF assms, of "beat_frame s"] by (auto simp: is_traffic_def is_data_def beat_frame_def)
    then show ?thesis by (simp add: EvBeat pushed_def)
  qed (simp add: pushed_def)
  moreover have "queued_frames (ev # evs) = queued_frames [ev] @ queued_frames evs" by (cases ev) simp_all
  ultimately show ?case using list_emb_append_mono [OF _ Cons.IH [of "apply_event ev s"]] by fastforce
qed simp

section \<open>One end of a tunnel\<close>

text \<open>
  A session that can send and whose queues hold only frames with the property \<open>P\<close>, data in the
  data queue and nothing else there.
\<close>

definition sending :: "(frame \<Rightarrow> bool) \<Rightarrow> session \<Rightarrow> bool" where
  "sending P s \<longleftrightarrow> ready s \<and> (\<forall>k. \<forall>f \<in> set (q_list (queue_of k s)). P f \<and> class_of k f)"

text \<open>What a session has put on the wire since an earlier state.\<close>

definition sent_since :: "session \<Rightarrow> session \<Rightarrow> byte list" where
  "sent_since s t = drop (length (written (s_writer s))) (written (s_writer t))"

definition queued_items :: "(frame \<Rightarrow> bool) \<Rightarrow> session \<Rightarrow> byte list list" where
  "queued_items p s = items p (q_list (controlQ s)) @ items p (q_list (dataQ s))"

definition sound_events :: "(frame \<Rightarrow> bool) \<Rightarrow> session_event list \<Rightarrow> bool" where
  "sound_events P evs \<longleftrightarrow> good_events evs \<and> (\<forall>f \<in> set (queued_frames evs). P f)
     \<and> (\<forall>k f. EvQueue k f \<in> set evs \<longrightarrow> class_of k f)"

lemma apply_events_reader: "s_reader (apply_events evs s) = s_reader s"
proof (induction evs arbitrary: s)
  case (Cons ev evs)
  have "s_reader (apply_event ev s) = s_reader s"
  proof (cases ev)
    case (EvQueue k f)
    then show ?thesis
      using QueueControl_queues_only [of s f] QueueData_queues_only [of s f]
      by (cases k) (simp_all add: queues_only_def)
  next
    case EvWrite
    obtain res t where it: "writeLoop_iter SelDefault s = (res, t)" by (metis prod.exhaust)
    from it have "s_reader t = s_reader s" by (cases rule: writeLoop_iter_cases) simp_all
    then show ?thesis by (simp add: EvWrite it)
  next
    case EvBeat
    show ?thesis
      using QueueControl_queues_only [of "s\<lparr>nextSeq := nextSeq s + 1\<rparr>"]
      by (simp add: EvBeat heartbeatLoop_iter_def Let_def snd_case_option queues_only_def)
  qed
  with Cons.IH show ?case by simp
qed simp

lemma of_class_set: "f \<in> set (of_class k log) \<longleftrightarrow> (k, f) \<in> set log"
  by (force simp: of_class_def)

lemma pushed_class:
  "\<forall>k f. EvQueue k f \<in> set evs \<longrightarrow> class_of k f \<Longrightarrow> (k, f) \<in> set (event_log pushed evs s) \<Longrightarrow> class_of k f"
proof (induction evs arbitrary: s)
  case (Cons ev evs)
  have "(k, f) \<in> set (pushed ev s) \<Longrightarrow> class_of k f"
    using Cons.prems(1)
    by (cases ev rule: separated.cases) (auto simp: pushed_def beat_frame_def is_data_def split: if_splits)
  with Cons show ?case by auto
qed simp

text \<open>How session events move frames from the queues to the wire.\<close>

lemma sending_events:
  assumes "sending P s" and "sound_events P evs"
    and "\<And>f g. body f = body g \<Longrightarrow> P f = P g" and "\<And>f. ftype f = FramePING \<Longrightarrow> P f"
    and "t = apply_events evs s" and "frame_kind p"
  shows "sending P t \<and> s_reader t = s_reader s
    \<and> written (s_writer t) = written (s_writer s) @ sent_since s t \<and> stream_of P (sent_since s t)
    \<and> queued_items p s @ items p (map snd (event_log pushed evs s))
        = items p (frames_in (sent_since s t)) @ queued_items p t"
proof -
  let ?log = "event_log wrote evs s" and ?pushed = "event_log pushed evs s"
  have ok: "\<forall>ev \<in> set evs. event_ok ev"
    using assms(2) by (auto simp: sound_events_def good_events_def)
  have s: "ready s" "\<forall>k. \<forall>f \<in> set (q_list (queue_of k s)). P f"
    "\<forall>f \<in> set (q_list (queue_of k s)). class_of k f" for k
    using assms(1) unfolding sending_def by blast+
  note eff = events_effect [OF s(1) ok]
  have qf: "\<forall>f \<in> set (queued_frames evs). P f" using assms(2) by (simp add: sound_events_def)
  have keep: "(\<forall>f \<in> set (q_list (queue_of k t)). P f) \<and> (\<forall>x \<in> set ?log. P (snd x))" for k
    using events_keep [of s evs P k, OF s(1) ok s(2) qf assms(3,4)] assms(5) by blast
  have cls: "\<exists>fs. q_list (queue_of k s) @ of_class k ?pushed = fs @ q_list (queue_of k t)
      \<and> list_all2 (stamped (s_id s)) fs (of_class k ?log)" for k
    using eff assms(5) by blast
  have new: "\<forall>f \<in> set (of_class k ?pushed). class_of k f" for k
    using assms(2) pushed_class by (auto simp: of_class_set sound_events_def)
  have clean: "\<forall>f \<in> set (q_list (queue_of k t)). class_of k f" for k
    using cls [of k] s(3) [of k] new [of k] by (metis Un_iff set_append)
  have it: "items p (q_list (queue_of k s)) @ items p (of_class k ?pushed)
      = items p (of_class k ?log) @ items p (q_list (queue_of k t))" for k
  proof -
    obtain fs where fs: "q_list (queue_of k s) @ of_class k ?pushed = fs @ q_list (queue_of k t)"
      "list_all2 (stamped (s_id s)) fs (of_class k ?log)" using cls by blast
    from arg_cong [OF fs(1), of "items p"] items_body [OF assms(6) body_stamped [OF fs(2)]]
    show ?thesis by simp
  qed
  have sent: "sent_since s t = concat (map frame_wire (map snd ?log))"
    and wr: "written (s_writer t) = written (s_writer s) @ sent_since s t"
    using eff assms(5) by (simp_all add: sent_since_def)
  have tr: "\<forall>f \<in> set (map snd ?log). transmittable f \<and> P f" using eff keep [of Control] by auto
  have str: "stream_of P (sent_since s t)" "frames_in (sent_since s t) = map frame_defaults (map snd ?log)"
    unfolding sent by (rule stream_of_frames [of _ P, OF tr assms(3)], assumption)+
  obtain k where k: "\<And>f. p f \<Longrightarrow> class_of k f" using frame_kindE [OF assms(6)] by blast
  let ?o = "other_class k"
  have "\<not> p f" if "class_of ?o f" for f using k [of f] that by (cases k) auto
  then have none: "items p fs = []" if "\<forall>f \<in> set fs. class_of ?o f" for fs
    using that by (intro items_none) blast
  have o: "items p (q_list (queue_of ?o s)) = []" "items p (q_list (queue_of ?o t)) = []" "items p (of_class ?o ?pushed) = []"
    by (rule none; fact s(3) clean new)+
  with it [of ?o] have "items p (of_class ?o ?log) = []" by simp
  note logs = items_classes [OF this] items_classes [OF o(3)]
  have "queued_items p u = items p (q_list (queue_of k u))" if "items p (q_list (queue_of ?o u)) = []" for u
    using that by (cases k) (simp_all add: queued_items_def)
  then have "queued_items p s @ items p (map snd ?pushed) = items p (map snd ?log) @ queued_items p t"
    using o it [of k] logs by simp
  moreover have "items p (frames_in (sent_since s t)) = items p (map snd ?log)"
    unfolding str(2) by (rule items_body [OF assms(6)]) simp
  moreover have "sending P t" using eff keep clean assms(5) by (simp add: sending_def)
  ultimately show ?thesis using str(1) wr apply_events_reader [of evs s] assms(5) by simp
qed

lemma sending_nostats:
  assumes "nostats s = nostats t"
  shows "sending P s = sending P t" "sent_since u s = sent_since u t" "sent_since s u = sent_since t u"
    "queued_items p s = queued_items p t"
proof -
  obtain st where s: "s = t\<lparr>s_stats := st\<rparr>" using nostats_eqD(9) [OF assms] by blast
  show "sending P s = sending P t" by (simp add: sending_def s all_class)
  show "sent_since u s = sent_since u t" "sent_since s u = sent_since t u"
    "queued_items p s = queued_items p t" by (simp_all add: s sent_since_def queued_items_def)
qed

text \<open>
  What both programs are: steps of their own and a frame handler, each of which changes the session
  by session events that queue sound frames only.
\<close>

locale endpoint = session_handler handle for handle :: "'h handler" +
  fixes act :: "'a \<Rightarrow> 'h \<times> session \<Rightarrow> 'h \<times> session" and events :: "'a \<Rightarrow> 'h \<Rightarrow> session_event list"
    and fine :: "'a \<Rightarrow> bool" and replies :: "frame \<Rightarrow> 'h \<Rightarrow> session_event list"
    and sound :: "'h \<Rightarrow> bool" and sends :: "frame \<Rightarrow> bool"
  assumes act_session: "nostats (snd (act a hs)) = nostats (apply_events (events a (fst hs)) (snd hs))"
    and act_sends: "sound (fst hs) \<Longrightarrow> fine a \<Longrightarrow>
      sound_events sends (events a (fst hs)) \<and> sound (fst (act a hs))"
    and handle_session: "nostats (snd (snd (handle f h s))) = nostats (apply_events (replies f h) s)"
    and handle_sends: "sound h \<Longrightarrow> sound_events sends (replies f h) \<and> sound (fst (snd (handle f h s)))"
    and replies_plain: "g \<in> set (queued_frames (replies f h)) \<Longrightarrow> \<not> is_traffic g"
    and sends_body: "body f = body g \<Longrightarrow> sends f = sends g"
    and sends_ping: "ftype f = FramePING \<Longrightarrow> sends f"
begin

lemma act_end:
  assumes "sending sends s" and "sound h" and "fine a" and "act a (h, s) = (h2, t)" and "frame_kind p"
  shows "sound h2 \<and> sending sends t \<and> s_reader t = s_reader s \<and> stream_of sends (sent_since s t)
    \<and> (\<exists>xs. queued_items p s @ xs = items p (frames_in (sent_since s t)) @ queued_items p t
          \<and> subseq xs (items p (queued_frames (events a h))))"
proof -
  have ev: "sound_events sends (events a h)" and h2: "sound h2"
    using act_sends [of "(h, s)" a] assms(2-4) by simp_all
  have eq: "nostats t = nostats (apply_events (events a h) s)" using act_session [of a "(h, s)"] assms(4) by simp
  note se = sending_events [OF assms(1) ev sends_body sends_ping refl assms(5)]
  have r: "s_reader t = s_reader (apply_events (events a h) s)" by (rule nostats_eqD(4) [OF eq])
  have q: "queued_items p t = queued_items p (apply_events (events a h) s)" by (rule sending_nostats(4) [OF eq])
  show ?thesis
    unfolding sending_nostats(1,2) [OF eq] q r using se h2 pushed_items [OF assms(5), of "events a h" s] by blast
qed

lemma read_end:
  assumes "sending sends s" and "sound h" and "Decode (s_reader s) = (Inr f, r)"
    and "readLoop_iter handle SelDefault now h s = (res, h2, t)" and "frame_kind p"
  shows "sound h2 \<and> sending sends t \<and> s_reader t = r \<and> s_writer t = s_writer s
    \<and> queued_items p t = queued_items p s
    \<and> (\<exists>e. handle f h (received now f r s) = (e, h2, t))"
proof -
  let ?s = "received now f r s"
  obtain e where h: "handle f h ?s = (e, h2, t)"
    using assms(3,4) by (auto simp: readLoop_iter_def Let_def simp flip: received_def
        split: prod.splits option.splits)
  have s: "sending sends ?s" "queued_items p ?s = queued_items p s"
    using assms(1) by (simp_all add: sending_def all_class queued_items_def)
  have ev: "sound_events sends (replies f h)" and h2: "sound h2"
    using handle_sends [OF assms(2), of f ?s] h by simp_all
  have eq: "nostats t = nostats (apply_events (replies f h) ?s)" using handle_session [of f h ?s] h by simp
  note se = sending_events [OF s(1) ev sends_body sends_ping refl assms(5)]
  have w: "s_writer t = s_writer s" and r: "s_reader t = r"
    using handler_queues_only [OF h] by (simp_all add: queues_only_def)
  have "items p (queued_frames (replies f h)) = []"
    using replies_plain frame_kindD(2) [OF assms(5)] by (intro items_none) blast
  then have "items p (map snd (event_log pushed (replies f h) ?s)) = []"
    using pushed_items [OF assms(5), of "replies f h" ?s] by simp
  moreover have "sent_since ?s (apply_events (replies f h) ?s) = []"
    unfolding sending_nostats(2) [OF eq, symmetric] using w by (simp add: sent_since_def)
  ultimately have "queued_items p t = queued_items p s"
    unfolding sending_nostats(4) [OF eq] s(2) [symmetric] using se by simp
  then show ?thesis using h h2 w r se unfolding sending_nostats(1) [OF eq] by blast
qed

end

lemma reply_frames_plain: "\<forall>g \<in> set (queued_frames (reply_events f h)). \<not> is_traffic g"
  by (simp add: reply_events_def is_traffic_def is_data_def new_frame_simps split: sum.split option.split)

lemma queued_frames_set: "g \<in> set (queued_frames evs) \<longleftrightarrow> (\<exists>k. EvQueue k g \<in> set evs)"
  by (induction evs rule: queued_frames.induct) auto

lemma reply_class:
  assumes "EvQueue k g \<in> set (reply_events f h)"
  shows "k = Control" and "\<not> is_data g"
proof -
  have "list_all (\<lambda>ev. case ev of EvQueue k g \<Rightarrow> k = Control | _ \<Rightarrow> True) (reply_events f h)"
    by (simp add: reply_events_def split: sum.split option.split)
  with assms show "k = Control" by (auto simp: list_all_iff)
  have "g \<in> set (queued_frames (reply_events f h))" using assms queued_frames_set by blast
  then show "\<not> is_data g" using reply_frames_plain [of f h] by (auto simp: is_traffic_def)
qed

lemma server_class: "EvQueue k f \<in> set (server_events ev h) \<Longrightarrow> class_of k f"
proof (cases ev)
  case (FrameIn g)
  moreover assume "EvQueue k f \<in> set (server_events ev h)"
  ultimately show ?thesis using reply_class [of k f g h] by (auto simp: server_events_def)
next
  case (ReadUDP nano ch c rd)
  moreover assume "EvQueue k f \<in> set (server_events ev h)"
  ultimately show ?thesis
    by (cases "FragmentUDP (fst rd) (of_int nano) 1000"; cases "(ch, c) \<in> set (ureaders (fst (udp h)))";
        cases "fst rd = []"; cases "snd rd")
      (auto simp: server_events_def udp_read_events_def is_data_def new_frame_simps)
qed (auto simp: server_events_def copy_events_def is_data_def new_frame_simps split: if_splits)

lemma client_class: "EvQueue k f \<in> set (act_events a c) \<Longrightarrow> class_of k f"
proof (cases a)
  case (Client ev)
  moreover assume "EvQueue k f \<in> set (act_events a c)"
  ultimately show ?thesis
    by (cases ev) (auto simp: act_events_def copy_events_def open_frame_def is_data_def new_frame_simps split: if_splits)
qed (auto simp: act_events_def open_frame_def udp_frame_def is_data_def new_frame_simps split: if_splits option.splits prod.splits)

interpretation server_endpoint: endpoint HandleFrame serve_event server_events event_fine reply_events
  dials_short response_ok
proof unfold_locales
  fix ev hs
  show "nostats (snd (serve_event ev hs)) = nostats (apply_events (server_events ev (fst hs)) (snd hs))"
    by (rule serve_event_events)
next
  fix ev :: server_event and hs :: "server \<times> session"
  assume "dials_short (fst hs)" "event_fine ev"
  then show "sound_events response_ok (server_events ev (fst hs)) \<and> dials_short (fst (serve_event ev hs))"
    using server_events_ok [of "fst hs" ev] server_events_response [of ev "fst hs"] dials_short_event [of hs ev]
      server_class [of _ _ ev "fst hs"] by (auto simp: sound_events_def)
next
  fix f h s
  show "nostats (snd (snd (HandleFrame f h s))) = nostats (apply_events (reply_events f h) s)"
    by (rule HandleFrame_events)
next
  fix f h s
  assume "dials_short h"
  then show "sound_events response_ok (reply_events f h) \<and> dials_short (fst (snd (HandleFrame f h s)))"
    using reply_events_ok [of h f] server_events_response [of "FrameIn f" h]
      server_class [of _ _ "FrameIn f" h] by (auto simp: sound_events_def server_events_def)
next
  fix g f h
  assume "g \<in> set (queued_frames (reply_events f h))"
  then show "\<not> is_traffic g" using reply_frames_plain by blast
qed (fact ok_body(2) ok_ping(2))+

interpretation client_endpoint: endpoint client_HandleFrame client_act act_events action_fine
  "\<lambda>f. act_events (Client (CFrame f))" "\<lambda>_. True" request_ok
proof unfold_locales
  fix a cs
  show "nostats (snd (client_act a cs)) = nostats (apply_events (act_events a (fst cs)) (snd cs))"
    by (simp add: client_act_events)
next
  fix a :: client_action and cs :: "tunnel_client \<times> session"
  assume "action_fine a"
  then show "sound_events request_ok (act_events a (fst cs)) \<and> True"
    using act_events_ok [of a "fst cs"] client_class [of _ _ a "fst cs"] by (auto simp: sound_events_def)
next
  fix f c s
  show "nostats (snd (snd (client_HandleFrame f c s))) = nostats (apply_events (act_events (Client (CFrame f)) c) s)"
    using client_act_events [of "Client (CFrame f)" "(c, s)"] by simp
next
  fix f c s
  show "sound_events request_ok (act_events (Client (CFrame f)) c) \<and> True"
    using act_events_ok [of "Client (CFrame f)" c] client_class [of _ _ "Client (CFrame f)" c]
    by (auto simp: sound_events_def)
next
  fix g f c
  assume "g \<in> set (queued_frames (act_events (Client (CFrame f)) c))"
  then show "\<not> is_traffic g" by (auto simp: act_events_def is_traffic_def is_data_def new_frame_simps split: if_splits)
qed (fact ok_body(1) ok_ping(1))+

section \<open>Both programs and the wire between them\<close>

text \<open>
  The client and the server, each with its session and, once its read loop has stopped, the loop's
  result, and the bytes on their way in the request's body (\<open>w_up\<close>) and in the
  response's (\<open>w_down\<close>).
\<close>

record world =
  w_client :: tunnel_client
  w_csess :: session
  w_cread :: loop_result
  w_up :: "byte list"
  w_server :: server
  w_ssess :: session
  w_sread :: loop_result
  w_down :: "byte list"

definition world_start :: "tunnel_client \<Rightarrow> session \<Rightarrow> server \<Rightarrow> session \<Rightarrow> world" where
  "world_start c s h t = \<lparr>w_client = c, w_csess = s, w_cread = Continue, w_up = [],
     w_server = h, w_ssess = t, w_sread = Continue, w_down = []\<rparr>"

definition arrive :: "byte list \<Rightarrow> session \<Rightarrow> session" where
  "arrive bs s = s\<lparr>s_reader := (s_reader s)\<lparr>avail := avail (s_reader s) @ bs\<rparr>\<rparr>"

text \<open>Frames reach a program through its read loop only.\<close>

definition client_own :: "client_action \<Rightarrow> bool" where
  "client_own a = (case a of Client (CFrame f) \<Rightarrow> False | _ \<Rightarrow> True)"

definition server_own :: "server_event \<Rightarrow> bool" where
  "server_own ev = (case ev of FrameIn f \<Rightarrow> False | _ \<Rightarrow> True)"

text \<open>
  The steps: one of the client's or the server's own; some bytes arriving at the other end; and an
  iteration of a read loop, which waits until a whole frame is there.
\<close>

datatype world_event =
    ClientDoes client_action
  | ServerDoes server_event
  | UpArrives nat
  | DownArrives nat
  | ServerReads int
  | ClientReads int

inductive world_step :: "world \<Rightarrow> world_event \<Rightarrow> world \<Rightarrow> bool" where
  client_does: "client_own a \<Longrightarrow> action_fine a \<Longrightarrow>
     client_act a (w_client w, w_csess w) = (c, s) \<Longrightarrow>
     world_step w (ClientDoes a)
       (w\<lparr>w_client := c, w_csess := s, w_up := w_up w @ sent_since (w_csess w) s\<rparr>)"
| server_does: "server_own ev \<Longrightarrow> event_fine ev \<Longrightarrow>
     serve_event ev (w_server w, w_ssess w) = (h, t) \<Longrightarrow>
     world_step w (ServerDoes ev)
       (w\<lparr>w_server := h, w_ssess := t, w_down := w_down w @ sent_since (w_ssess w) t\<rparr>)"
| up_arrives: "n \<le> length (w_up w) \<Longrightarrow>
     world_step w (UpArrives n) (w\<lparr>w_up := drop n (w_up w), w_ssess := arrive (take n (w_up w)) (w_ssess w)\<rparr>)"
| down_arrives: "n \<le> length (w_down w) \<Longrightarrow>
     world_step w (DownArrives n) (w\<lparr>w_down := drop n (w_down w), w_csess := arrive (take n (w_down w)) (w_csess w)\<rparr>)"
| server_reads: "w_sread w = Continue \<Longrightarrow> Decode (s_reader (w_ssess w)) = (Inr f, r) \<Longrightarrow>
     readLoop_iter HandleFrame SelDefault now (w_server w) (w_ssess w) = (res, h, t) \<Longrightarrow>
     world_step w (ServerReads now) (w\<lparr>w_server := h, w_ssess := t, w_sread := res\<rparr>)"
| client_reads: "w_cread w = Continue \<Longrightarrow> Decode (s_reader (w_csess w)) = (Inr f, r) \<Longrightarrow>
     readLoop_iter client_HandleFrame SelDefault now (w_client w) (w_csess w) = (res, c, s) \<Longrightarrow>
     world_step w (ClientReads now) (w\<lparr>w_client := c, w_csess := s, w_cread := res\<rparr>)"

inductive_cases world_stepE: "world_step w ev v"

text \<open>A run, with the states it goes through.\<close>

inductive world_run :: "world \<Rightarrow> (world \<times> world_event) list \<Rightarrow> world \<Rightarrow> bool" where
  run_start: "world_run w [] w"
| run_on: "world_run w tr v \<Longrightarrow> world_step v ev u \<Longrightarrow> world_run w (tr @ [(v, ev)]) u"

section \<open>The invariant of a run\<close>

definition up_stream :: "world \<Rightarrow> byte list" where
  "up_stream w = avail (s_reader (w_ssess w)) @ w_up w"

definition down_stream :: "world \<Rightarrow> byte list" where
  "down_stream w = avail (s_reader (w_csess w)) @ w_down w"

definition world_ok :: "world \<Rightarrow> bool" where
  "world_ok w \<longleftrightarrow> sending request_ok (w_csess w) \<and> sending response_ok (w_ssess w)
     \<and> dials_short (w_server w) \<and> stream_of request_ok (up_stream w) \<and> stream_of response_ok (down_stream w)"

lemma arrive_simps [simp]:
  "sending P (arrive bs s) = sending P s" "queued_items p (arrive bs s) = queued_items p s"
  "s_writer (arrive bs s) = s_writer s" "avail (s_reader (arrive bs s)) = avail (s_reader s) @ bs"
  "end_err (s_reader (arrive bs s)) = end_err (s_reader s)"
  by (simp_all add: arrive_def sending_def ready_def session_wf_def all_class queued_items_def)

lemma world_ok_step: "world_step w ev v \<Longrightarrow> world_ok w \<Longrightarrow> world_ok v"
proof (induction rule: world_step.induct)
  case (client_does a w c s)
  have ok: "sending request_ok (w_csess w)" "stream_of request_ok (up_stream w)"
    using client_does(4) by (simp_all add: world_ok_def)
  from client_endpoint.act_end [OF ok(1) _ client_does(2,3) frame_kinds(1)] stream_of_append [OF ok(2)] client_does(4)
  show ?case by (simp add: world_ok_def up_stream_def down_stream_def)
next
  case (server_does ev w h t)
  have ok: "sending response_ok (w_ssess w)" "stream_of response_ok (down_stream w)" "dials_short (w_server w)"
    using server_does(4) by (simp_all add: world_ok_def)
  from server_endpoint.act_end [OF ok(1,3) server_does(2,3) frame_kinds(1)] stream_of_append [OF ok(2)] server_does(4)
  show ?case by (simp add: world_ok_def up_stream_def down_stream_def)
next
  case (server_reads w f r now res h t)
  have ok: "sending response_ok (w_ssess w)" "dials_short (w_server w)" "stream_of request_ok (up_stream w)"
    using server_reads(4) by (simp_all add: world_ok_def)
  from server_endpoint.read_end [OF ok(1,2) server_reads(2,3) frame_kinds(1)]
    Decode_stream [OF ok(3) [unfolded up_stream_def] server_reads(2)] server_reads(4)
  show ?case by (simp add: world_ok_def up_stream_def down_stream_def)
next
  case (client_reads w f r now res c s)
  have ok: "sending request_ok (w_csess w)" "stream_of response_ok (down_stream w)"
    using client_reads(4) by (simp_all add: world_ok_def)
  from client_endpoint.read_end [OF ok(1) _ client_reads(2,3) frame_kinds(1)]
    Decode_stream [OF ok(2) [unfolded down_stream_def] client_reads(2)] client_reads(4)
  show ?case by (simp add: world_ok_def up_stream_def down_stream_def)
qed (simp_all add: world_ok_def up_stream_def down_stream_def)

lemma world_ok_run: "world_run w tr v \<Longrightarrow> world_ok w \<Longrightarrow> world_ok v"
  by (induction rule: world_run.induct) (auto intro: world_ok_step)

text \<open>The start of a tunnel: the client's session with its AUTH frame queued, the server's as new.\<close>

definition tunnel_start ::
  "client_env \<Rightarrow> string \<Rightarrow> client_tunnel \<Rightarrow> byte list \<Rightarrow> tunnel_client \<Rightarrow> writer \<Rightarrow> stats \<Rightarrow> server \<Rightarrow> world \<Rightarrow> bool"
where
  "tunnel_start env token tunnel nonce c wr st h w \<longleftrightarrow>
     nonce_bytes env = Inr nonce \<and> length nonce = 12 \<and> length token \<le> 16370
     \<and> room (WriteCloser tunnel) = None \<and> avail (ReadCloser tunnel) = []
     \<and> room wr = None \<and> dials_short h
     \<and> (\<exists>s t e. new_client_session env token tunnel = Inr s
          \<and> handleTunnel ''POST'' True \<lparr>avail = [], end_err = e\<rparr> wr st h = (200, Some (t, h))
          \<and> w = world_start c s h t)"

lemma tunnel_start_ok:
  assumes "tunnel_start env token tunnel nonce c wr st h w"
  shows "world_ok w"
proof -
  obtain s t e where a: "nonce_bytes env = Inr nonce" "length nonce = 12" "length token \<le> 16370"
      "room (WriteCloser tunnel) = None" "avail (ReadCloser tunnel) = []" "room wr = None" "dials_short h"
    and s: "new_client_session env token tunnel = Inr s" "w = world_start c s h t"
    and t: "handleTunnel ''POST'' True \<lparr>avail = [], end_err = e\<rparr> wr st h = (200, Some (t, h))"
    using assms unfolding tunnel_start_def by blast
  note cs = client_session_start [OF s(1) a(1-4)]
  have "sending request_ok s"
    using cs(1,4,5) request_ok_start [OF cs(6)]
    by (simp add: sending_def all_class auth_frame_def new_frame_simps is_data_def)
  moreover have ts: "t = (NewSession (of_int (now_ns h)) \<lparr>avail = [], end_err = e\<rparr> wr st DefaultHeartbeat (now_ns h))
      \<lparr>s_stats := AddActiveSession 1 st\<rparr>" using t by (simp add: handleTunnel_def)
  have "sending response_ok t"
    using ready_New [OF a(6)] New_simps(1) [of Control] New_simps(1) [of frame_class.Data]
    by (simp add: sending_def ts all_class)
  moreover have "s_reader t = \<lparr>avail = [], end_err = e\<rparr>" by (simp add: ts NewSession_def)
  ultimately show ?thesis
    using a(5,7) cs(3) by (simp add: world_ok_def s(2) world_start_def up_stream_def down_stream_def)
qed

text \<open>A demonstration: both ends of channel 2 are open already when a tunnel starts between them.\<close>

definition demo_open_server :: server where
  "demo_open_server = demo_server\<lparr>authOK := True, tcp := snd (TCP_Open 2 ''a:1'' (tcp demo_server))\<rparr>"

definition demo_open_client :: tunnel_client where
  "demo_open_client = fst (client_run [COpenTCP ''a:1'' 0] (demo_client, demo_session))"

lemma demo_open_up: "server_good 2 0 demo_open_server" "client_good 2 0 demo_open_client"
  "dials_short demo_open_server" "(2, 0) \<in> set (tcopiers (fst (tcp demo_open_server)))"
proof -
  have w: "tcp demo_server = (NewTCPRelay, new_network (\<lambda>_ _. None))"
    "udp demo_server = (NewUDPRelay, new_network (\<lambda>_ _. None))" by (simp_all add: demo_server_def new_handler_def)
  have "tr.table_inv (tcp demo_open_server)"
    using tr.step_inv [OF tcp_table_inv_new, of "OpOpen 2 ''a:1''"] w by (simp add: demo_open_server_def)
  then show "server_good 2 0 demo_open_server"
    by (simp add: demo_open_server_def server_good_def carries_def w TCP_Open_def dial_def new_network_def
        Register_def tcp_conn_def healthy_def Let_def)
  show "client_good 2 0 demo_open_client"
    by (simp add: demo_open_client_def client_good_def demo_client_def newTunnelClient_def healthy_def)
  show "dials_short demo_open_server"
    by (simp add: demo_open_server_def dials_short_def short_errors_def w TCP_Open_def dial_def new_network_def Let_def)
  show "(2, 0) \<in> set (tcopiers (fst (tcp demo_open_server)))"
    by (simp add: demo_open_server_def w TCP_Open_def dial_def new_network_def Register_def NewTCPRelay_def Let_def)
qed

lemma demo_world_from:
  assumes "dials_short h"
  obtains w where "tunnel_start demo_client_env ''tok'' demo_tunnel (replicate 12 7) c demo_writer (NewStats 0) h w"
    and "w_client w = c" "w_server w = h"
proof -
  obtain s0 where s0: "new_client_session demo_client_env ''tok'' demo_tunnel = Inr s0"
    "nonce_bytes demo_client_env = Inr (replicate 12 7)" "length (replicate 12 (7 :: byte)) = 12"
    "length ''tok'' \<le> 16370" "room (WriteCloser demo_tunnel) = None"
    using demo_client_start [of "''tok''"] by auto
  obtain t where t: "handleTunnel ''POST'' True \<lparr>avail = [], end_err = EOF\<rparr> demo_writer (NewStats 0) h
      = (200, Some (t, h))" by (simp add: handleTunnel_def)
  have "avail (ReadCloser demo_tunnel) = []" "room demo_writer = None"
    by (simp_all add: demo_tunnel_def demo_writer_def)
  with s0 t assms show thesis
    by (intro that [of "world_start c s0 h t"]) (auto simp: tunnel_start_def world_start_def)
qed

lemmas demo_world_start = demo_world_from [OF demo_open_up(3), where c = demo_open_client]

text \<open>C7. The invariant of the tunnel: whatever client, server and network do, in any order, the
  frames on the wire are whole and well formed in both directions at every moment.  So a read loop
  that looks at the bytes that have arrived either gets a frame its handler understands, or, if the
  stream ended there, the error of a stream that ends: never a version, type, header or length error.\<close>

theorem world_wellformed:
  assumes "tunnel_start env token tunnel nonce c wr st h w" and "world_run w tr v"
    and "Decode (s_reader (w_ssess v)) = (d, r)" and "Decode (s_reader (w_csess v)) = (d2, r2)"
  shows "session_wf (w_csess v) \<and> session_wf (w_ssess v)
    \<and> (case d of Inr f \<Rightarrow> request_ok f | Inl e \<Rightarrow> cut_error (end_err (s_reader (w_ssess v))) e)
    \<and> (case d2 of Inr f \<Rightarrow> response_ok f | Inl e \<Rightarrow> cut_error (end_err (s_reader (w_csess v))) e)"
proof -
  have ok: "world_ok v" using world_ok_run [OF assms(2) tunnel_start_ok [OF assms(1)]] .
  then have st: "stream_of request_ok (avail (s_reader (w_ssess v)) @ w_up v)"
    "stream_of response_ok (avail (s_reader (w_csess v)) @ w_down v)"
    by (simp_all add: world_ok_def up_stream_def down_stream_def)
  from Decode_stream [OF st(1) assms(3)] Decode_stream [OF st(2) assms(4)] ok
  show ?thesis by (simp add: world_ok_def sending_def ready_def split: sum.splits)
qed

theorem world_wellformed_witness:
  "\<exists>w v d r d2 r2. world_step w (ClientDoes (Client (CCopy 2 ([5, 6], None) False))) v
    \<and> Decode (s_reader (w_ssess v)) = (d, r) \<and> Decode (s_reader (w_csess v)) = (d2, r2)
    \<and> session_wf (w_csess v) \<and> session_wf (w_ssess v)
    \<and> (case d of Inr f \<Rightarrow> request_ok f | Inl e \<Rightarrow> cut_error (end_err (s_reader (w_ssess v))) e)
    \<and> (case d2 of Inr f \<Rightarrow> response_ok f | Inl e \<Rightarrow> cut_error (end_err (s_reader (w_csess v))) e)"
proof -
  obtain w where w: "tunnel_start demo_client_env ''tok'' demo_tunnel (replicate 12 7) demo_open_client
      demo_writer (NewStats 0) demo_open_server w" by (rule demo_world_start)
  let ?a = "Client (CCopy 2 ([5, 6], None) False)"
  obtain c s where c: "client_act ?a (w_client w, w_csess w) = (c, s)" by (metis prod.exhaust)
  let ?v = "w\<lparr>w_client := c, w_csess := s, w_up := w_up w @ sent_since (w_csess w) s\<rparr>"
  have st: "world_step w (ClientDoes ?a) ?v"
    using c by (intro client_does) (simp_all add: client_own_def read_ok_def)
  obtain d r d2 r2 where d: "Decode (s_reader (w_ssess ?v)) = (d, r)" "Decode (s_reader (w_csess ?v)) = (d2, r2)"
    by (metis prod.exhaust)
  have run: "world_run w [(w, ClientDoes ?a)] ?v" using run_on [OF run_start st] by simp
  from world_wellformed [OF w run d] st d show ?thesis by blast
qed

end
