(* ===== verification/SLPP_Pipe.thy ===== *)
theory SLPP_Pipe
  imports SLPP_World
begin

text \<open>
  The abstract specification of one direction of a tunnelled channel, a lossy pipe, and the locale
  \<open>way\<close>: a direction of a channel whose steps are steps of its pipe.  Its two extensions
  \<open>up_way\<close> and \<open>down_way\<close> ask only for what the far end does with its own steps and
  with a frame.  The last section shows that what is on its way can arrive (\<open>world_drains\<close>).
\<close>

section \<open>A lossy pipe\<close>

text \<open>
  What one direction of a channel is for those who use it: items that were accepted and have not
  arrived, and those that have.  An item may be refused on the way in, and lost at the far end.
\<close>

record 'a pipe =
  transit :: "'a list"
  got :: "'a list"

datatype 'a pipe_label = Accept 'a | Refuse 'a | Arrive | Lose

fun pipe_step :: "'a pipe_label \<Rightarrow> 'a pipe \<Rightarrow> 'a pipe option" where
  "pipe_step (Accept x) p = Some (p\<lparr>transit := transit p @ [x]\<rparr>)"
| "pipe_step (Refuse x) p = Some p"
| "pipe_step Arrive p =
     (case transit p of
        [] \<Rightarrow> None
      | x # xs \<Rightarrow> Some (p\<lparr>transit := xs, got := got p @ [x]\<rparr>))"
| "pipe_step Lose p = (case transit p of [] \<Rightarrow> None | x # xs \<Rightarrow> Some (p\<lparr>transit := xs\<rparr>))"

primrec pipe_run :: "'a pipe_label list \<Rightarrow> 'a pipe \<Rightarrow> 'a pipe option" where
  "pipe_run [] p = Some p"
| "pipe_run (l # ls) p = Option.bind (pipe_step l p) (pipe_run ls)"

text \<open>What was offered to the pipe, and what of it was taken.\<close>

fun offered :: "'a pipe_label list \<Rightarrow> 'a list" where
  "offered [] = []"
| "offered (Accept x # ls) = x # offered ls"
| "offered (Refuse x # ls) = x # offered ls"
| "offered (Arrive # ls) = offered ls"
| "offered (Lose # ls) = offered ls"

lemma offered_append [simp]: "offered (xs @ ys) = offered xs @ offered ys"
  by (induction xs rule: offered.induct) simp_all

lemma pipe_run_append: "pipe_run (xs @ ys) p = Option.bind (pipe_run xs p) (pipe_run ys)"
proof (induction xs arbitrary: p)
  case (Cons l ls)
  then show ?case by (cases "pipe_step l p") simp_all
qed simp

text \<open>The contract of a pipe: nothing is invented, repeated or reordered; and what was taken and
  not lost has arrived or is in transit.\<close>

lemma pipe_contract:
  "pipe_run ls p = Some q \<Longrightarrow> \<exists>ps. got q = got p @ ps \<and> subseq (ps @ transit q) (transit p @ offered ls)"
proof (induction ls arbitrary: p rule: offered.induct)
  case (2 x ls)
  then show ?case by fastforce
next
  case (3 x ls)
  then obtain ps where "got q = got p @ ps" "subseq (ps @ transit q) (transit p @ offered ls)" by fastforce
  moreover have "subseq (transit p @ offered ls) (transit p @ x # offered ls)"
    by (intro list_emb_append_mono subseq_order.refl) (simp add: subseq_Cons')
  ultimately show ?case by (auto intro: subseq_order.trans)
next
  case (4 ls)
  then obtain x xs where x: "transit p = x # xs" "pipe_run ls (p\<lparr>transit := xs, got := got p @ [x]\<rparr>) = Some q"
    by (auto split: list.splits)
  from 4(1) [OF x(2)] obtain ps where "got q = got p @ x # ps" "subseq (ps @ transit q) (xs @ offered ls)" by auto
  then show ?case using x(1) by (intro exI [of _ "x # ps"]) simp
next
  case (5 ls)
  then obtain x xs where x: "transit p = x # xs" "pipe_run ls (p\<lparr>transit := xs\<rparr>) = Some q"
    by (auto split: list.splits)
  from 5(1) [OF x(2)] obtain ps where "got q = got p @ ps" "subseq (ps @ transit q) (xs @ offered ls)" by auto
  then show ?case using x(1) by (intro exI [of _ ps]) (simp add: list_emb_Cons)
qed simp

lemma pipe_conserves:
  "pipe_run ls p = Some q \<Longrightarrow> Lose \<notin> set ls \<Longrightarrow> (\<forall>x. Refuse x \<notin> set ls) \<Longrightarrow>
     got q @ transit q = got p @ transit p @ offered ls"
  by (induction ls arbitrary: p rule: offered.induct) (fastforce split: list.splits)+

lemma pipe_offers:
  "subseq xs ys \<Longrightarrow> \<exists>ls. offered ls = ys \<and> Lose \<notin> set ls \<and> (\<forall>p. pipe_run ls p = Some (p\<lparr>transit := transit p @ xs\<rparr>))"
proof (induction rule: list_emb.induct)
  case (list_emb_Nil ys)
  have "offered (map Refuse ys) = ys \<and> (\<forall>p. pipe_run (map Refuse ys) p = Some p)" by (induction ys) simp_all
  then show ?case by (intro exI [of _ "map Refuse ys"]) auto
next
  case (list_emb_Cons xs ys y)
  then obtain ls where "offered ls = ys" "Lose \<notin> set ls" "\<forall>p. pipe_run ls p = Some (p\<lparr>transit := transit p @ xs\<rparr>)" by blast
  then show ?case by (intro exI [of _ "Refuse y # ls"]) simp
next
  case (list_emb_Cons2 x y xs ys)
  then obtain ls where "offered ls = ys" "Lose \<notin> set ls" "\<forall>p. pipe_run ls p = Some (p\<lparr>transit := transit p @ xs\<rparr>)" by blast
  with list_emb_Cons2(1) show ?case by (intro exI [of _ "Accept x # ls"]) simp
qed

text \<open>The pipe goes from \<open>p\<close> to \<open>q\<close> while \<open>xs\<close> are offered; only a lossy one loses items.\<close>

definition pipe_goes :: "bool \<Rightarrow> 'a pipe \<Rightarrow> 'a list \<Rightarrow> 'a pipe \<Rightarrow> bool" where
  "pipe_goes lossy p xs q \<longleftrightarrow>
     (\<exists>ls. offered ls = xs \<and> (Lose \<in> set ls \<longrightarrow> lossy) \<and> pipe_run ls p = Some q)"

lemma pipe_goes_refl: "pipe_goes lossy p [] p"
  unfolding pipe_goes_def by (intro exI [of _ "[]"]) simp

lemma pipe_goes_trans: "pipe_goes lossy p xs q \<Longrightarrow> pipe_goes lossy q ys r \<Longrightarrow> pipe_goes lossy p (xs @ ys) r"
  unfolding pipe_goes_def
proof (elim exE conjE)
  fix ls ms
  assume "offered ls = xs" "Lose \<in> set ls \<longrightarrow> lossy" "pipe_run ls p = Some q"
    "offered ms = ys" "Lose \<in> set ms \<longrightarrow> lossy" "pipe_run ms q = Some r"
  then show "\<exists>ls. offered ls = xs @ ys \<and> (Lose \<in> set ls \<longrightarrow> lossy) \<and> pipe_run ls p = Some r"
    by (intro exI [of _ "ls @ ms"]) (auto simp: pipe_run_append)
qed

lemma pipe_goes_contract:
  "pipe_goes lossy p xs q \<Longrightarrow> \<exists>ps. got q = got p @ ps \<and> subseq (ps @ transit q) (transit p @ xs)"
  unfolding pipe_goes_def using pipe_contract by blast

lemma pipe_goes_offer: "subseq xs ys \<Longrightarrow> pipe_goes lossy p ys (p\<lparr>transit := transit p @ xs\<rparr>)"
  unfolding pipe_goes_def using pipe_offers [of xs ys] by blast

lemma pipe_goes_arrive:
  assumes "transit p = x # transit q" and "got q = got p @ [x] \<or> lossy \<and> got q = got p"
  shows "pipe_goes lossy p [] q"
  using assms(2)
proof (elim disjE conjE)
  assume "got q = got p @ [x]"
  then show ?thesis using assms(1) unfolding pipe_goes_def by (intro exI [of _ "[Arrive]"]) (simp add: pipe.equality)
next
  assume "lossy" "got q = got p"
  then show ?thesis using assms(1) unfolding pipe_goes_def by (intro exI [of _ "[Lose]"]) (simp add: pipe.equality)
qed

section \<open>One direction of a channel\<close>

text \<open>
  A direction of a channel, for as long as it is open at its far end (\<open>open_at\<close>) and the steps
  leave it so (\<open>keeps\<close>): its pipe as a function of the state, and what a step offers to it.
\<close>

locale way =
  fixes open_at :: "world \<Rightarrow> bool" and keeps :: "world_event \<Rightarrow> world \<Rightarrow> bool" and lossy :: bool
    and pipe_of :: "world \<Rightarrow> byte list pipe" and offers :: "world_event \<Rightarrow> world \<Rightarrow> byte list list"
  assumes moves: "world_step w ev v \<Longrightarrow> world_ok w \<Longrightarrow> open_at w \<Longrightarrow> keeps ev w \<Longrightarrow>
      open_at v \<and> pipe_goes lossy (pipe_of w) (offers ev w) (pipe_of v)"
begin

lemma run_refines:
  assumes "world_run v tr u" and "world_ok v" and "open_at v" and "\<forall>x \<in> set tr. keeps (snd x) (fst x)"
  shows "open_at u \<and> pipe_goes lossy (pipe_of v) (concat (map (\<lambda>x. offers (snd x) (fst x)) tr)) (pipe_of u)"
  using assms
proof (induction rule: world_run.induct)
  case (run_start w)
  then show ?case by (simp add: pipe_goes_refl)
next
  case (run_on w tr v ev u)
  then have ih: "open_at v"
    "pipe_goes lossy (pipe_of w) (concat (map (\<lambda>x. offers (snd x) (fst x)) tr)) (pipe_of v)" by simp_all
  have "open_at u \<and> pipe_goes lossy (pipe_of v) (offers ev v) (pipe_of u)"
    using moves [OF run_on(2) world_ok_run [OF run_on(1)] ih(1)] run_on.prems by simp
  with pipe_goes_trans [OF ih(2)] show ?case by simp
qed

end

section \<open>How a step moves the items\<close>

definition up_transit :: "(frame \<Rightarrow> bool) \<Rightarrow> world \<Rightarrow> byte list list" where
  "up_transit p w = items p (frames_in (up_stream w)) @ queued_items p (w_csess w)"

definition down_transit :: "(frame \<Rightarrow> bool) \<Rightarrow> world \<Rightarrow> byte list list" where
  "down_transit p w = items p (frames_in (down_stream w)) @ queued_items p (w_ssess w)"

text \<open>The items that a step tries to queue.\<close>

definition up_items :: "(frame \<Rightarrow> bool) \<Rightarrow> world_event \<Rightarrow> world \<Rightarrow> byte list list" where
  "up_items p ev w = (case ev of ClientDoes a \<Rightarrow> items p (queued_frames (act_events a (w_client w))) | _ \<Rightarrow> [])"

definition down_items :: "(frame \<Rightarrow> bool) \<Rightarrow> world_event \<Rightarrow> world \<Rightarrow> byte list list" where
  "down_items p ev w = (case ev of ServerDoes e \<Rightarrow> items p (queued_frames (server_events e (w_server w))) | _ \<Rightarrow> [])"

text \<open>The next frame of a read loop.\<close>

definition next_up :: "world \<Rightarrow> frame option" where
  "next_up w = (case fst (Decode (s_reader (w_ssess w))) of Inr f \<Rightarrow> Some f | Inl _ \<Rightarrow> None)"

definition next_down :: "world \<Rightarrow> frame option" where
  "next_down w = (case fst (Decode (s_reader (w_csess w))) of Inr f \<Rightarrow> Some f | Inl _ \<Rightarrow> None)"

lemma up_moves:
  assumes "world_step w ev v" and "world_ok w" and "frame_kind p"
  obtains (sent) xs where "up_transit p v = up_transit p w @ xs" "subseq xs (up_items p ev w)"
      "w_server v = w_server w" "\<forall>now. ev \<noteq> ServerReads now"
    | (own) e where "ev = ServerDoes e" "server_own e" "up_transit p v = up_transit p w" "up_items p ev w = []"
      "w_server v = fst (serve_event e (w_server w, w_ssess w))"
    | (read) f now s where "ev = ServerReads now" "next_up w = Some f" "request_ok f" "up_items p ev w = []"
      "up_transit p w = items p [f] @ up_transit p v" "w_server v = fst (snd (HandleFrame f (w_server w) s))"
  using assms
proof (induction rule: world_step.induct)
  case (client_does a w cl s)
  have ok: "sending request_ok (w_csess w)" "stream_of request_ok (up_stream w)"
    using client_does.prems(4) by (simp_all add: world_ok_def)
  obtain xs where "s_reader s = s_reader (w_csess w)"
    and xs: "queued_items p (w_csess w) @ xs = items p (frames_in (sent_since (w_csess w) s)) @ queued_items p s"
      "subseq xs (items p (queued_frames (act_events a (w_client w))))"
    using client_endpoint.act_end [OF ok(1) _ client_does(2,3) client_does.prems(5)] by blast
  let ?v = "w\<lparr>w_client := cl, w_csess := s, w_up := w_up w @ sent_since (w_csess w) s\<rparr>"
  have "frames_in (up_stream ?v) = frames_in (up_stream w) @ frames_in (sent_since (w_csess w) s)"
    using frames_in_append [OF ok(2)] by (simp add: up_stream_def)
  then have "up_transit p ?v = up_transit p w @ xs" using xs(1) by (simp add: up_transit_def)
  then show ?case using client_does.prems(1) [of xs] xs(2) by (simp add: up_items_def)
next
  case (server_does e w h t)
  have ok: "sending response_ok (w_ssess w)" "dials_short (w_server w)"
    using server_does.prems(4) by (simp_all add: world_ok_def)
  have "s_reader t = s_reader (w_ssess w)"
    using server_endpoint.act_end [OF ok server_does(2,3) server_does.prems(5)] by blast
  then show ?case
    using server_does.prems(2) [of e] server_does(1,3) by (simp add: up_transit_def up_stream_def up_items_def)
next
  case (server_reads w f r now res h t)
  have ok: "sending response_ok (w_ssess w)" "dials_short (w_server w)"
      "stream_of request_ok (avail (s_reader (w_ssess w)) @ w_up w)"
    using server_reads.prems(4) by (simp_all add: world_ok_def up_stream_def)
  note rd = server_endpoint.read_end [OF ok(1,2) server_reads(2,3) server_reads.prems(5)]
  obtain e where e: "HandleFrame f (w_server w) (received now f r (w_ssess w)) = (e, h, t)" using rd by blast
  have "request_ok f" "frames_in (avail (s_reader (w_ssess w)) @ w_up w) = f # frames_in (avail r @ w_up w)"
    using Decode_stream [OF ok(3) server_reads(2)] by simp_all
  then show ?case
    using server_reads.prems(3) [of now f "received now f r (w_ssess w)"] rd server_reads(2)
    by (simp add: up_transit_def up_stream_def up_items_def next_up_def e)
next
  case (up_arrives n w)
  show ?case using up_arrives.prems(1) [of "[]"] by (simp add: up_transit_def up_stream_def)
next
  case (down_arrives n w)
  show ?case using down_arrives.prems(1) [of "[]"] by (simp add: up_transit_def up_stream_def)
next
  case (client_reads w f r now res cl s)
  have ok: "sending request_ok (w_csess w)" using client_reads.prems(4) by (simp add: world_ok_def)
  note rd = client_endpoint.read_end [OF ok _ client_reads(2,3) client_reads.prems(5)]
  then show ?case using client_reads.prems(1) [of "[]"] by (simp add: up_transit_def up_stream_def)
qed

lemma down_moves:
  assumes "world_step w ev v" and "world_ok w" and "frame_kind p"
  obtains (sent) xs where "down_transit p v = down_transit p w @ xs" "subseq xs (down_items p ev w)"
      "w_client v = w_client w" "\<forall>now. ev \<noteq> ClientReads now"
    | (own) a where "ev = ClientDoes a" "client_own a" "down_transit p v = down_transit p w" "down_items p ev w = []"
      "w_client v = fst (client_act a (w_client w, w_csess w))"
    | (read) f now s where "ev = ClientReads now" "next_down w = Some f" "response_ok f" "down_items p ev w = []"
      "down_transit p w = items p [f] @ down_transit p v" "w_client v = fst (snd (client_HandleFrame f (w_client w) s))"
  using assms
proof (induction rule: world_step.induct)
  case (server_does e w h t)
  have ok: "sending response_ok (w_ssess w)" "dials_short (w_server w)" "stream_of response_ok (down_stream w)"
    using server_does.prems(4) by (simp_all add: world_ok_def)
  obtain xs where "s_reader t = s_reader (w_ssess w)"
    and xs: "queued_items p (w_ssess w) @ xs = items p (frames_in (sent_since (w_ssess w) t)) @ queued_items p t"
      "subseq xs (items p (queued_frames (server_events e (w_server w))))"
    using server_endpoint.act_end [OF ok(1,2) server_does(2,3) server_does.prems(5)] by blast
  let ?v = "w\<lparr>w_server := h, w_ssess := t, w_down := w_down w @ sent_since (w_ssess w) t\<rparr>"
  have "frames_in (down_stream ?v) = frames_in (down_stream w) @ frames_in (sent_since (w_ssess w) t)"
    using frames_in_append [OF ok(3)] by (simp add: down_stream_def)
  then have "down_transit p ?v = down_transit p w @ xs" using xs(1) by (simp add: down_transit_def)
  then show ?case using server_does.prems(1) [of xs] xs(2) by (simp add: down_items_def)
next
  case (client_does a w cl s)
  have ok: "sending request_ok (w_csess w)" using client_does.prems(4) by (simp add: world_ok_def)
  have "s_reader s = s_reader (w_csess w)"
    using client_endpoint.act_end [OF ok _ client_does(2,3) client_does.prems(5)] by blast
  then show ?case
    using client_does.prems(2) [of a] client_does(1,3) by (simp add: down_transit_def down_stream_def down_items_def)
next
  case (client_reads w f r now res cl s)
  have ok: "sending request_ok (w_csess w)" "stream_of response_ok (avail (s_reader (w_csess w)) @ w_down w)"
    using client_reads.prems(4) by (simp_all add: world_ok_def down_stream_def)
  note rd = client_endpoint.read_end [OF ok(1) _ client_reads(2,3) client_reads.prems(5)]
  obtain e where e: "client_HandleFrame f (w_client w) (received now f r (w_csess w)) = (e, cl, s)" using rd by blast
  have "response_ok f" "frames_in (avail (s_reader (w_csess w)) @ w_down w) = f # frames_in (avail r @ w_down w)"
    using Decode_stream [OF ok(2) client_reads(2)] by simp_all
  then show ?case
    using client_reads.prems(3) [of now f "received now f r (w_csess w)"] rd client_reads(2)
    by (simp add: down_transit_def down_stream_def down_items_def next_down_def e)
next
  case (up_arrives n w)
  show ?case using up_arrives.prems(1) [of "[]"] by (simp add: down_transit_def down_stream_def)
next
  case (down_arrives n w)
  show ?case using down_arrives.prems(1) [of "[]"] by (simp add: down_transit_def down_stream_def)
next
  case (server_reads w f r now res h t)
  have ok: "sending response_ok (w_ssess w)" "dials_short (w_server w)"
    using server_reads.prems(4) by (simp_all add: world_ok_def)
  note rd = server_endpoint.read_end [OF ok server_reads(2,3) server_reads.prems(5)]
  then show ?case using server_reads.prems(1) [of "[]"] by (simp add: down_transit_def down_stream_def)
qed

section \<open>The two directions\<close>

text \<open>
  An item is seen through \<open>view\<close>: the payload itself for TCP, the data of the datagram for UDP.
  Going up, the far end is the server: its own steps add nothing to what it has got, and a frame of
  the channel adds its item, or perhaps not if the direction is lossy.
\<close>

definition up_pipe :: "(frame \<Rightarrow> bool) \<Rightarrow> (byte list \<Rightarrow> byte list) \<Rightarrow> (server \<Rightarrow> byte list list) \<Rightarrow> world \<Rightarrow> byte list pipe" where
  "up_pipe p view gets w = \<lparr>transit = map view (up_transit p w), got = gets (w_server w)\<rparr>"

definition down_pipe :: "(frame \<Rightarrow> bool) \<Rightarrow> (byte list \<Rightarrow> byte list) \<Rightarrow> (tunnel_client \<Rightarrow> byte list list) \<Rightarrow> world \<Rightarrow> byte list pipe" where
  "down_pipe p view gets w = \<lparr>transit = map view (down_transit p w), got = gets (w_client w)\<rparr>"

definition up_keeps :: "(server_event \<Rightarrow> bool) \<Rightarrow> (frame \<Rightarrow> server \<Rightarrow> bool) \<Rightarrow> world_event \<Rightarrow> world \<Rightarrow> bool" where
  "up_keeps ke kf ev w =
     (case ev of ServerDoes e \<Rightarrow> ke e | ServerReads now \<Rightarrow> pred_option (\<lambda>f. kf f (w_server w)) (next_up w) | _ \<Rightarrow> True)"

definition down_keeps :: "(client_action \<Rightarrow> tunnel_client \<Rightarrow> bool) \<Rightarrow> (frame \<Rightarrow> bool) \<Rightarrow> world_event \<Rightarrow> world \<Rightarrow> bool" where
  "down_keeps ka kf ev w =
     (case ev of ClientDoes a \<Rightarrow> ka a (w_client w) | ClientReads now \<Rightarrow> pred_option kf (next_down w) | _ \<Rightarrow> True)"

locale up_way =
  fixes p :: "frame \<Rightarrow> bool" and view :: "byte list \<Rightarrow> byte list" and lossy :: bool
    and good :: "server \<Rightarrow> bool" and gets :: "server \<Rightarrow> byte list list"
    and ke :: "server_event \<Rightarrow> bool" and kf :: "frame \<Rightarrow> server \<Rightarrow> bool"
  assumes kind: "frame_kind p"
    and own_step: "good (fst hs) \<Longrightarrow> ke e \<Longrightarrow> server_own e \<Longrightarrow>
      good (fst (serve_event e hs)) \<and> gets (fst (serve_event e hs)) = gets (fst hs)"
    and frame_step: "good h \<Longrightarrow> kf f h \<Longrightarrow> request_ok f \<Longrightarrow> h2 = fst (snd (HandleFrame f h s)) \<Longrightarrow>
      good h2 \<and> (gets h2 = gets h @ (if p f then [view (payload f)] else []) \<or> lossy \<and> gets h2 = gets h)"
begin

lemma up_step:
  assumes "world_step w ev v" and "world_ok w" and "good (w_server w)" and "up_keeps ke kf ev w"
  shows "good (w_server v) \<and> pipe_goes lossy (up_pipe p view gets w) (map view (up_items p ev w)) (up_pipe p view gets v)"
  using assms(1,2) kind
proof (cases rule: up_moves)
  case (sent xs)
  have "up_pipe p view gets v = (up_pipe p view gets w)\<lparr>transit := transit (up_pipe p view gets w) @ map view xs\<rparr>"
    using sent by (simp add: up_pipe_def)
  with pipe_goes_offer [OF subseq_map [OF sent(2)], of lossy "up_pipe p view gets w" view] sent(3) assms(3)
  show ?thesis by simp
next
  case (own e)
  have "good (w_server v) \<and> gets (w_server v) = gets (w_server w)"
    using own_step [of "(w_server w, w_ssess w)" e] assms(3,4) own by (simp add: up_keeps_def)
  then show ?thesis using own by (simp add: up_pipe_def pipe_goes_refl)
next
  case (read f now s)
  have "kf f (w_server w)" using assms(4) read(1,2) by (simp add: up_keeps_def)
  note st = frame_step [OF assms(3) this read(3,6)]
  show ?thesis
  proof (cases "p f")
    case True
    with st read have "pipe_goes lossy (up_pipe p view gets w) [] (up_pipe p view gets v)"
      by (intro pipe_goes_arrive [of _ "view (payload f)"]) (auto simp: up_pipe_def)
    then show ?thesis using st read(4) by simp
  next
    case False
    with st read show ?thesis by (auto simp: up_pipe_def pipe_goes_refl)
  qed
qed

end

sublocale up_way \<subseteq> way "\<lambda>w. good (w_server w)" "up_keeps ke kf" lossy "up_pipe p view gets"
  "\<lambda>ev w. map view (up_items p ev w)"
  by unfold_locales (rule up_step)

text \<open>Going down, the far end is the client.\<close>

locale down_way =
  fixes p :: "frame \<Rightarrow> bool" and view :: "byte list \<Rightarrow> byte list" and lossy :: bool
    and good :: "tunnel_client \<Rightarrow> bool" and gets :: "tunnel_client \<Rightarrow> byte list list"
    and ka :: "client_action \<Rightarrow> tunnel_client \<Rightarrow> bool" and kf :: "frame \<Rightarrow> bool"
  assumes kind: "frame_kind p"
    and own_step: "good (fst cs) \<Longrightarrow> ka a (fst cs) \<Longrightarrow> client_own a \<Longrightarrow>
      good (fst (client_act a cs)) \<and> gets (fst (client_act a cs)) = gets (fst cs)"
    and frame_step: "good c \<Longrightarrow> kf f \<Longrightarrow> response_ok f \<Longrightarrow> c2 = fst (snd (client_HandleFrame f c s)) \<Longrightarrow>
      good c2 \<and> (gets c2 = gets c @ (if p f then [view (payload f)] else []) \<or> lossy \<and> gets c2 = gets c)"
begin

lemma down_step:
  assumes "world_step w ev v" and "world_ok w" and "good (w_client w)" and "down_keeps ka kf ev w"
  shows "good (w_client v) \<and> pipe_goes lossy (down_pipe p view gets w) (map view (down_items p ev w)) (down_pipe p view gets v)"
  using assms(1,2) kind
proof (cases rule: down_moves)
  case (sent xs)
  have "down_pipe p view gets v = (down_pipe p view gets w)\<lparr>transit := transit (down_pipe p view gets w) @ map view xs\<rparr>"
    using sent by (simp add: down_pipe_def)
  with pipe_goes_offer [OF subseq_map [OF sent(2)], of lossy "down_pipe p view gets w" view] sent(3) assms(3)
  show ?thesis by simp
next
  case (own a)
  have "good (w_client v) \<and> gets (w_client v) = gets (w_client w)"
    using own_step [of "(w_client w, w_csess w)" a] assms(3,4) own by (simp add: down_keeps_def)
  then show ?thesis using own by (simp add: down_pipe_def pipe_goes_refl)
next
  case (read f now s)
  have "kf f" using assms(4) read(1,2) by (simp add: down_keeps_def)
  note st = frame_step [OF assms(3) this read(3,6)]
  show ?thesis
  proof (cases "p f")
    case True
    with st read have "pipe_goes lossy (down_pipe p view gets w) [] (down_pipe p view gets v)"
      by (intro pipe_goes_arrive [of _ "view (payload f)"]) (auto simp: down_pipe_def)
    then show ?thesis using st read(4) by simp
  next
    case False
    with st read show ?thesis by (auto simp: down_pipe_def pipe_goes_refl)
  qed
qed

end

sublocale down_way \<subseteq> way "\<lambda>w. good (w_client w)" "down_keeps ka kf" lossy "down_pipe p view gets"
  "\<lambda>ev w. map view (down_items p ev w)"
  by unfold_locales (rule down_step)

section \<open>What is on its way can arrive\<close>

lemma world_run_trans: "world_run v tr2 u \<Longrightarrow> world_run w tr v \<Longrightarrow> world_run w (tr @ tr2) u"
proof (induction rule: world_run.induct)
  case (run_on v tr2 x ev u)
  then show ?case using world_run.run_on [of w "tr @ tr2" x ev u] by simp
qed simp

text \<open>The steps that move what was queued or sent before.\<close>

fun moves_up :: "world_event \<Rightarrow> bool" where
  "moves_up (ClientDoes a) = (a = ClientWrite)"
| "moves_up (UpArrives n) = True"
| "moves_up (ServerReads now) = True"
| "moves_up _ = False"

fun moves_down :: "world_event \<Rightarrow> bool" where
  "moves_down (ServerDoes ev) = (ev = WriteIter)"
| "moves_down (DownArrives n) = True"
| "moves_down (ClientReads now) = True"
| "moves_down _ = False"

definition goes :: "(world_event \<Rightarrow> bool) \<Rightarrow> world \<Rightarrow> world \<Rightarrow> bool" where
  "goes M v u \<longleftrightarrow> (\<exists>tr. world_run v tr u \<and> (\<forall>x \<in> set tr. M (snd x)))"

lemma goes_refl: "goes M v v"
  unfolding goes_def by (intro exI [of _ "[]"]) (simp add: run_start)

lemma goes_trans: "goes M v u \<Longrightarrow> goes M u x \<Longrightarrow> goes M v x"
  unfolding goes_def by (metis (no_types, lifting) Un_iff set_append world_run_trans)

lemma goes_step: "world_step v ev u \<Longrightarrow> M ev \<Longrightarrow> goes M v u"
  unfolding goes_def using run_on [OF run_start] by (intro exI [of _ "[(v, ev)]"]) simp

lemma goes_ok: "goes M v u \<Longrightarrow> world_ok v \<Longrightarrow> world_ok u"
  unfolding goes_def by (auto intro: world_ok_run)

lemma writes_up:
  "world_ok w \<Longrightarrow> \<exists>s up. goes moves_up w (w\<lparr>w_csess := s, w_up := up\<rparr>) \<and> queued s = 0"
proof (induction "queued (w_csess w)" arbitrary: w)
  case 0
  then show ?case using goes_refl by (intro exI [of _ "w_csess w"] exI [of _ "w_up w"]) simp
next
  case (Suc n)
  let ?s = "snd (writeLoop_iter SelDefault (w_csess w))"
  let ?v = "w\<lparr>w_client := w_client w, w_csess := ?s, w_up := w_up w @ sent_since (w_csess w) ?s\<rparr>"
  have "world_step w (ClientDoes ClientWrite) ?v"
    by (rule client_does) (simp_all add: client_own_def)
  then have st: "goes moves_up w ?v" by (rule goes_step) simp
  have "queued ?s = queued (w_csess w) - 1"
    using write_order [of "w_csess w"] Suc.prems by (simp add: world_ok_def sending_def)
  then have "n = queued (w_csess ?v)" using Suc.hyps(2) by simp
  from Suc.hyps(1) [OF this goes_ok [OF st Suc.prems]] goes_trans [OF st] show ?case by auto
qed

lemma writes_down:
  "world_ok w \<Longrightarrow> \<exists>s down. goes moves_down w (w\<lparr>w_ssess := s, w_down := down\<rparr>) \<and> queued s = 0"
proof (induction "queued (w_ssess w)" arbitrary: w)
  case 0
  then show ?case using goes_refl by (intro exI [of _ "w_ssess w"] exI [of _ "w_down w"]) simp
next
  case (Suc n)
  let ?s = "snd (writeLoop_iter SelDefault (w_ssess w))"
  let ?v = "w\<lparr>w_server := w_server w, w_ssess := ?s, w_down := w_down w @ sent_since (w_ssess w) ?s\<rparr>"
  have "world_step w (ServerDoes WriteIter) ?v"
    by (rule server_does) (simp_all add: server_own_def)
  then have st: "goes moves_down w ?v" by (rule goes_step) simp
  have "queued ?s = queued (w_ssess w) - 1"
    using write_order [of "w_ssess w"] Suc.prems by (simp add: world_ok_def sending_def)
  then have "n = queued (w_ssess ?v)" using Suc.hyps(2) by simp
  from Suc.hyps(1) [OF this goes_ok [OF st Suc.prems]] goes_trans [OF st] show ?case by auto
qed

text \<open>A reader that holds whole frames only finds the first of them.\<close>

lemma Decode_whole:
  assumes "stream_of P (avail r)" and "avail r \<noteq> []"
  obtains f q where "Decode r = (Inr f, q)" and "length (avail q) < length (avail r)"
proof -
  obtain f fs where f: "frames_in (avail r) = f # fs"
    using assms by (cases "frames_in (avail r)") (auto simp: stream_of_def)
  then have "avail r = frame_wire f @ concat (map frame_wire fs)" using assms(1) by (simp add: stream_of_def)
  moreover have "transmittable f" using frames_in_transmittable [of f "avail r"] f by simp
  ultimately have "Decode r = (Inr (frame_defaults f), r\<lparr>avail := concat (map frame_wire fs)\<rparr>)"
    and "length (concat (map frame_wire fs)) < length (avail r)"
    using codec.decode_wire_of by (simp_all add: length_frame_wire)
  then show thesis by (intro that) auto
qed

definition stopped :: "loop_result \<Rightarrow> bool" where
  "stopped res \<longleftrightarrow> (\<exists>e. res = Return (Some e))"

lemma reads_up:
  assumes "world_ok w" and "w_up w = []" and "w_sread w = Continue"
  shows "\<exists>u. goes moves_up w u \<and> w_csess u = w_csess w \<and> (stopped (w_sread u) \<or> up_stream u = [])"
  using assms
proof (induction "length (avail (s_reader (w_ssess w)))" arbitrary: w rule: less_induct)
  case less
  let ?r = "s_reader (w_ssess w)"
  show ?case
  proof (cases "avail ?r = []")
    case True
    then show ?thesis using less.prems(2) goes_refl by (intro exI [of _ w]) (simp add: up_stream_def)
  next
    case False
    have "stream_of request_ok (avail ?r)" using less.prems by (simp add: world_ok_def up_stream_def)
    from Decode_whole [OF this False]
    obtain f q where f: "Decode ?r = (Inr f, q)" "length (avail q) < length (avail ?r)" .
    obtain res h t where it: "readLoop_iter HandleFrame SelDefault 0 (w_server w) (w_ssess w) = (res, h, t)"
      by (metis prod_cases3)
    let ?v = "w\<lparr>w_server := h, w_ssess := t, w_sread := res\<rparr>"
    have st: "goes moves_up w ?v" by (rule goes_step [OF server_reads [OF less.prems(3) f(1) it]]) simp
    have "s_reader t = q"
      using server_endpoint.read_end [OF _ _ f(1) it frame_kinds(1)] less.prems(1) by (simp add: world_ok_def)
    show ?thesis
    proof (cases res)
      case Continue
      have "\<exists>u. goes moves_up ?v u \<and> w_csess u = w_csess ?v \<and> (stopped (w_sread u) \<or> up_stream u = [])"
        using less.prems Continue f(2) \<open>s_reader t = q\<close> goes_ok [OF st less.prems(1)] by (intro less.hyps) simp_all
      then show ?thesis using goes_trans [OF st] by auto
    next
      case (Return e)
      then have "stopped (w_sread ?v)"
        using srv.readLoop_iter_keeps [OF it] by (cases e) (simp_all add: stopped_def)
      then show ?thesis using st by (intro exI [of _ ?v]) simp
    qed
  qed
qed

lemma reads_down:
  assumes "world_ok w" and "w_down w = []" and "w_cread w = Continue"
  shows "\<exists>u. goes moves_down w u \<and> w_ssess u = w_ssess w \<and> (stopped (w_cread u) \<or> down_stream u = [])"
  using assms
proof (induction "length (avail (s_reader (w_csess w)))" arbitrary: w rule: less_induct)
  case less
  let ?r = "s_reader (w_csess w)"
  show ?case
  proof (cases "avail ?r = []")
    case True
    then show ?thesis using less.prems(2) goes_refl by (intro exI [of _ w]) (simp add: down_stream_def)
  next
    case False
    have "stream_of response_ok (avail ?r)" using less.prems by (simp add: world_ok_def down_stream_def)
    from Decode_whole [OF this False]
    obtain f q where f: "Decode ?r = (Inr f, q)" "length (avail q) < length (avail ?r)" .
    obtain res c s where it: "readLoop_iter client_HandleFrame SelDefault 0 (w_client w) (w_csess w) = (res, c, s)"
      by (metis prod_cases3)
    let ?v = "w\<lparr>w_client := c, w_csess := s, w_cread := res\<rparr>"
    have st: "goes moves_down w ?v" by (rule goes_step [OF client_reads [OF less.prems(3) f(1) it]]) simp
    have "s_reader s = q"
      using client_endpoint.read_end [OF _ _ f(1) it frame_kinds(1)] less.prems(1) by (simp add: world_ok_def)
    show ?thesis
    proof (cases res)
      case Continue
      have "\<exists>u. goes moves_down ?v u \<and> w_ssess u = w_ssess ?v \<and> (stopped (w_cread u) \<or> down_stream u = [])"
        using less.prems Continue f(2) \<open>s_reader s = q\<close> goes_ok [OF st less.prems(1)] by (intro less.hyps) simp_all
      then show ?thesis using goes_trans [OF st] by auto
    next
      case (Return e)
      then have "stopped (w_cread ?v)"
        using tunnelClient.readLoop_iter_keeps [OF it] by (cases e) (simp_all add: stopped_def)
      then show ?thesis using st by (intro exI [of _ ?v]) simp
    qed
  qed
qed



section \<open>The start of a tunnel\<close>

text \<open>At the start nothing is on its way but the AUTH frame.\<close>

lemma start_sessions:
  assumes "tunnel_start env token tunnel nonce c wr st h w"
  obtains s t where "w = world_start c s h t" and "length token \<le> 16370" and "length nonce = 12"
    and "q_list (controlQ s) = [auth_frame token nonce]" and "q_list (dataQ s) = []" and "avail (s_reader s) = []"
    and "DecodeAuthPayload (payload (auth_frame token nonce)) = Inr \<lparr>Token = token, Nonce = nonce\<rparr>"
    and "q_list (controlQ t) = []" and "q_list (dataQ t) = []" and "avail (s_reader t) = []"
proof -
  obtain s t e where a: "nonce_bytes env = Inr nonce" "length nonce = 12" "length token \<le> 16370"
      "room (WriteCloser tunnel) = None" "avail (ReadCloser tunnel) = []"
    and s: "new_client_session env token tunnel = Inr s" "w = world_start c s h t"
    and t: "handleTunnel ''POST'' True \<lparr>avail = [], end_err = e\<rparr> wr st h = (200, Some (t, h))"
    using assms(1) unfolding tunnel_start_def by blast
  note cs = client_session_start [OF s(1) a(1-4)]
  show thesis
    by (rule that [OF s(2) a(3,2) cs(4,5) _ cs(6)])
      (use cs(3) a(5) t New_simps(1) [of Control] New_simps(1) [of frame_class.Data] in
        \<open>auto simp: handleTunnel_def NewSession_def\<close>)
qed

lemma start_transit:
  assumes "tunnel_start env token tunnel nonce c wr st h w" and "frame_kind p"
  shows "up_transit p w = []" and "down_transit p w = []" and "w_client w = c" and "w_server w = h"
proof -
  obtain s t where w: "w = world_start c s h t" "q_list (controlQ s) = [auth_frame token nonce]" "q_list (dataQ s) = []"
    "avail (s_reader s) = []" "q_list (controlQ t) = []" "q_list (dataQ t) = []" "avail (s_reader t) = []"
    using assms(1) by (rule start_sessions)
  have "\<not> p (auth_frame token nonce)"
    using frame_kindD(2) [OF assms(2), of "auth_frame token nonce"]
    by (auto simp: is_traffic_def is_data_def auth_frame_def new_frame_simps)
  then show "up_transit p w = []" "down_transit p w = []" "w_client w = c" "w_server w = h"
    using w by (simp_all add: world_start_def up_transit_def up_stream_def down_transit_def down_stream_def queued_items_def)
qed

end
