(* ===== verification/SLPP_Channel.thy ===== *)
theory SLPP_Channel
  imports SLPP_Pipe
begin

text \<open>
  The channels of a tunnel as pipes: \<open>up_way\<close> and \<open>down_way\<close> are interpreted
  for a TCP channel and for a UDP association, and give the refinement theorems of the composed
  system.
\<close>

section \<open>TCP channels\<close>

abbreviation tcp_up_pipe :: "u32 \<Rightarrow> nat \<Rightarrow> world \<Rightarrow> byte list pipe" where
  "tcp_up_pipe ch c \<equiv> up_pipe (tcp_on ch) (\<lambda>x. x) (\<lambda>h. delivered c (snd (tcp h)))"

abbreviation tcp_down_pipe :: "u32 \<Rightarrow> nat \<Rightarrow> world \<Rightarrow> byte list pipe" where
  "tcp_down_pipe ch k \<equiv> down_pipe (tcp_on ch) (\<lambda>x. x) (\<lambda>c. delivered k (net c))"

text \<open>What the copy loops of the channel read in a step.\<close>

definition up_offers :: "u32 \<Rightarrow> world \<times> world_event \<Rightarrow> byte list list" where
  "up_offers ch x = (case snd x of ClientDoes a \<Rightarrow> client_copied ch a | _ \<Rightarrow> [])"

definition down_offers :: "u32 \<Rightarrow> world \<times> world_event \<Rightarrow> byte list list" where
  "down_offers ch x = (case snd x of ServerDoes e \<Rightarrow> copied_on ch e (w_server (fst x)) | _ \<Rightarrow> [])"

lemma tcp_items:
  "up_items (tcp_on ch) ev w = up_offers ch (w, ev)" "down_items (tcp_on ch) ev w = down_offers ch (w, ev)"
  by (simp_all add: up_items_def up_offers_def down_items_def down_offers_def items_tcp act_events_data
      server_events_data split: world_event.split)

text \<open>The client's steps that leave the channel and its connection in place.\<close>

definition client_leaves :: "u32 \<Rightarrow> nat \<Rightarrow> client_action \<Rightarrow> tunnel_client \<Rightarrow> bool" where
  "client_leaves ch k a c =
     (case a of
        Client ev \<Rightarrow>
          (case ev of
             COpenTCP address conn \<Rightarrow> conn \<noteq> k \<and> nextID c + 1 \<noteq> ch
           | CCopy ch2 rd ctx_done \<Rightarrow> snd rd \<noteq> None \<longrightarrow> ch2 \<noteq> ch
           | CFrame f \<Rightarrow> client_keeps ch f
           | _ \<Rightarrow> True)
      | SocksConn conn rd listen \<Rightarrow> conn \<noteq> k \<and> nextID c + 1 \<noteq> ch
      | SocksOpened conn ch2 k2 raw timed_out \<Rightarrow> conn \<noteq> k
      | ClientAccept \<Rightarrow> next_sock (net c) \<noteq> k
      | ClientCloses conn \<Rightarrow> conn \<noteq> k
      | ClientBreaks conn n e \<Rightarrow> conn \<noteq> k
      | _ \<Rightarrow> True)"

text \<open>The client's own steps, and a frame handled without regard to the handler's result.\<close>

lemma client_write_other:
  "conn \<noteq> k \<Longrightarrow> client_good ch k (snd (client_write conn data c)) = client_good ch k c"
  "conn \<noteq> k \<Longrightarrow> delivered k (net (snd (client_write conn data c))) = delivered k (net c)"
  "conn \<noteq> k \<Longrightarrow> client_good ch k (finish_socks conn c) = client_good ch k c"
  "conn \<noteq> k \<Longrightarrow> delivered k (net (finish_socks conn c)) = delivered k (net c)"
  by (simp_all add: client_write_def finish_socks_def client_good_def other_conn split_beta Let_def)

lemma client_conns_other:
  "next_sock (net c) \<noteq> k \<Longrightarrow> client_good ch k (snd (accept_conn c)) = client_good ch k c"
  "next_sock (net c) \<noteq> k \<Longrightarrow> delivered k (net (snd (accept_conn c))) = delivered k (net c)"
  "conn \<noteq> k \<Longrightarrow> client_good ch k (c\<lparr>net := break_conn conn n e (net c)\<rparr>) = client_good ch k c"
  "conn \<noteq> k \<Longrightarrow> delivered k (break_conn conn n e (net c)) = delivered k (net c)"
  by (simp_all add: accept_conn_def break_conn_def client_good_def healthy_def delivered_def Let_def)

lemma client_open_other:
  assumes "client_good ch k (fst cs)"
  shows "conn \<noteq> k \<Longrightarrow> nextID (fst cs) + 1 \<noteq> ch \<Longrightarrow> client_good ch k (fst (snd (openTCPChannel_start addr conn cs)))"
    and "client_good ch k (fst (snd (openUDPChannel_start addr conn peer cs)))"
    and "net (fst (snd (openTCPChannel_start addr conn cs))) = net (fst cs)"
    and "net (fst (snd (openUDPChannel_start addr conn peer cs))) = net (fst cs)"
  using assms by (simp_all add: client_good_def)

lemma client_frame_good:
  assumes "client_good ch k c" and "client_keeps ch f"
  shows "client_good ch k (fst (snd (client_HandleFrame f c s)))
    \<and> delivered k (net (fst (snd (client_HandleFrame f c s)))) = delivered k (net c) @ tcp_payloads ch [f]"
  using assms client_TCPDATA_good [OF assms(1), of f] client_close_good [of ch k c "channelID f"]
  by (auto simp: client_HandleFrame_def client_keeps_def client_other_good split_beta Let_def)

lemma socks_request_net:
  "conn \<noteq> k \<Longrightarrow> healthy k (snd (snd (socks_request conn rd w))) = healthy k w
     \<and> delivered k (snd (snd (socks_request conn rd w))) = delivered k w"
  using other_conn(1,2) [of conn k]
  by (auto simp: socks_request_def split_beta split: sum.split option.split prod.split)

lemma client_good_net_eq:
  "client_good ch k c \<Longrightarrow> tcpConns d = tcpConns c \<Longrightarrow> healthy k (net d) = healthy k (net c) \<Longrightarrow> client_good ch k d"
  by (simp add: client_good_def)

lemma client_socks_begin:
  assumes "client_good ch k (fst cs)" and "conn \<noteq> k" and "nextID (fst cs) + 1 \<noteq> ch"
  shows "client_good ch k (fst (snd (snd (handleSocksConn_begin conn rd listen cs))))
    \<and> delivered k (net (fst (snd (snd (handleSocksConn_begin conn rd listen cs))))) = delivered k (net (fst cs))"
proof -
  obtain req rd1 w where r: "socks_request conn rd (net (fst cs)) = (req, rd1, w)" by (metis prod_cases3)
  let ?c = "(fst cs)\<lparr>net := w\<rparr>"
  have w: "healthy k w = healthy k (net (fst cs))" "delivered k w = delivered k (net (fst cs))"
    using socks_request_net [OF assms(2), of rd "net (fst cs)"] r by simp_all
  have c: "client_good ch k ?c" by (rule client_good_net_eq [OF assms(1)]) (simp_all add: w)
  show ?thesis
  proof (cases req)
    case None
    then show ?thesis using r c w(2) by (simp add: handleSocksConn_begin_def client_write_other assms(2) split_beta Let_def)
  next
    case (Some x)
    obtain cmd addr raw where x: "x = (cmd, addr, raw)" by (metis prod_cases3)
    let ?o = "openTCPChannel_start addr conn (?c, snd cs)"
    have o: "client_good ch k (fst (snd ?o))" "delivered k (net (fst (snd ?o))) = delivered k (net (fst cs))"
      using client_open_other(1) [of ch k "(?c, snd cs)" conn addr] c assms(2,3)
        client_open_other(3) [of ch k "(?c, snd cs)" addr conn] w(2) by simp_all
    show ?thesis
      using r Some x c w(2) o client_write_other [OF assms(2)]
      by (auto simp: handleSocksConn_begin_def split_beta Let_def simp del: start_TCP_simps
          split: sum.split prod.split option.split)
  qed
qed

lemma client_act_good:
  assumes "client_good ch k (fst cs)" and "client_leaves ch k a (fst cs)" and "client_own a"
  shows "client_good ch k (fst (client_act a cs))
    \<and> delivered k (net (fst (client_act a cs))) = delivered k (net (fst cs))"
proof (cases a)
  case (Client ev)
  then show ?thesis
  proof (cases ev)
    case (CCopy ch2 rd ctx_done)
    then show ?thesis
      using assms Client client_close_good [of ch k "fst cs" ch2]
      by (simp add: client_leaves_def copyTCPToTunnel_iter_def split_beta Let_def)
  next
    case (COpenTCP address conn)
    then show ?thesis
      using assms(2) Client client_open_other(1,3) [OF assms(1)] by (simp add: client_leaves_def del: start_TCP_simps)
  next
    case (COpenUDP address conn peer)
    then show ?thesis
      using Client client_open_other(2,4) [OF assms(1)] by (simp del: start_UDP_simps)
  qed (use assms(3) Client in \<open>simp add: client_own_def\<close>)
next
  case (SocksConn conn rd listen)
  then show ?thesis
    using assms client_socks_begin [of ch k cs conn rd listen] by (simp add: client_leaves_def)
next
  case (SocksOpened conn ch2 k2 raw timed_out)
  then show ?thesis
    using assms client_write_other [of conn k]
    by (auto simp: client_leaves_def handleSocksConn_opened_def split: option.split)
next
  case (UDPRecv usock buf peer m)
  have "client_good ch k c2 \<and> delivered k (net c2) = delivered k (net (fst cs))"
    if "openUDPChannel_start addr usock peer cs = (e, c2, s2)" for addr e c2 s2
    using client_open_other(2,4) [OF assms(1), where addr = addr and conn = usock and peer = peer]
    unfolding that by simp
  then have "client_good ch k (fst (snd (udp_associate_recv usock buf peer m cs)))
    \<and> delivered k (net (fst (snd (udp_associate_recv usock buf peer m cs)))) = delivered k (net (fst cs))"
    using assms(1)
    by (auto simp: udp_associate_recv_def split_beta Let_def simp del: start_UDP_simps
        split: sum.split prod.split option.split)
  then show ?thesis by (simp add: UDPRecv)
qed (use assms in \<open>simp_all add: client_leaves_def client_conns_other client_write_other\<close>)

lemma server_event_good:
  assumes "server_good ch c (fst hs)" and "keeps_channel ch c ev" and "server_own ev"
  shows "server_good ch c (fst (serve_event ev hs))
    \<and> delivered c (snd (tcp (fst (serve_event ev hs)))) = delivered c (snd (tcp (fst hs)))"
proof -
  have "data_in ch [ev] = []" using assms(3) by (cases ev) (simp_all add: server_own_def)
  then show ?thesis
    using carries_event [of ch c hs ev] assms(1,2) authOK_event [of hs ev] by (simp add: server_good_def)
qed

interpretation tcp_up: up_way "tcp_on ch" "\<lambda>x. x" False "server_good ch c" "\<lambda>h. delivered c (snd (tcp h))"
  "keeps_channel ch c" "\<lambda>f h. server_keeps ch c f" for ch c
proof unfold_locales
  fix h h2 f s
  assume "server_good ch c h" "server_keeps ch c f" and h2: "h2 = fst (snd (HandleFrame f h s))"
  then show "server_good ch c h2 \<and> (delivered c (snd (tcp h2)) = delivered c (snd (tcp h))
      @ (if tcp_on ch f then [payload f] else []) \<or> False \<and> delivered c (snd (tcp h2)) = delivered c (snd (tcp h)))"
    using carries_frame [of ch c h f s] authOK_frame [of h f s]
    by (simp add: server_good_def server_keeps_def tcp_on_def split: if_splits)
qed (simp, rule server_event_good)

interpretation tcp_down: down_way "tcp_on ch" "\<lambda>x. x" False "client_good ch k" "\<lambda>c. delivered k (net c)"
  "client_leaves ch k" "client_keeps ch" for ch k
proof unfold_locales
  fix c c2 f s
  assume "client_good ch k c" "client_keeps ch f" and c2: "c2 = fst (snd (client_HandleFrame f c s))"
  then show "client_good ch k c2 \<and> (delivered k (net c2) = delivered k (net c)
      @ (if tcp_on ch f then [payload f] else []) \<or> False \<and> delivered k (net c2) = delivered k (net c))"
    using client_frame_good [of ch k c f s] by (simp add: tcp_on_def split: if_splits)
qed (simp, rule client_act_good)

definition channel_up :: "u32 \<Rightarrow> nat \<Rightarrow> nat \<Rightarrow> world \<Rightarrow> bool" where
  "channel_up ch k c w \<longleftrightarrow> client_good ch k (w_client w) \<and> server_good ch c (w_server w)"

definition leaves_channel :: "u32 \<Rightarrow> nat \<Rightarrow> nat \<Rightarrow> world \<times> world_event \<Rightarrow> bool" where
  "leaves_channel ch k c x \<longleftrightarrow> up_keeps (keeps_channel ch c) (\<lambda>f h. server_keeps ch c f) (snd x) (fst x)
     \<and> down_keeps (client_leaves ch k) (client_keeps ch) (snd x) (fst x)"

lemma tcp_run:
  assumes "world_run v tr u" and "world_ok v" and "channel_up ch k c v" and "\<forall>x \<in> set tr. leaves_channel ch k c x"
  shows "channel_up ch k c u
    \<and> pipe_goes False (tcp_up_pipe ch c v) (concat (map (up_offers ch) tr)) (tcp_up_pipe ch c u)
    \<and> pipe_goes False (tcp_down_pipe ch k v) (concat (map (down_offers ch) tr)) (tcp_down_pipe ch k u)"
  using tcp_up.run_refines [OF assms(1,2), of ch c] tcp_down.run_refines [OF assms(1,2), of ch k] assms(3,4)
  by (simp add: channel_up_def leaves_channel_def tcp_items)



section \<open>UDP associations\<close>

text \<open>An item of an association is the data of a datagram.\<close>

definition udp_data :: "byte list \<Rightarrow> byte list" where
  "udp_data p = (case DecodeUDPDatagram p of Inr dg \<Rightarrow> udp_datagram.Data dg | Inl _ \<Rightarrow> [])"

text \<open>The server's end: what becomes of the relay, and the datagrams that come too late.\<close>

definition late :: "frame \<Rightarrow> server \<Rightarrow> bool" where
  "late f h = (case DecodeUDPDatagram (payload f) of
     Inr dg \<Rightarrow> elapsedMillis32 (of_int (unix_milli (now_ns h))) (SentMS dg) > ucast (DeadlineMS dg)
   | Inl _ \<Rightarrow> False)"

lemma HandleFrame_udp:
  "udp (fst (snd (HandleFrame f h s))) =
    (if \<not> authOK h then udp h
     else if ftype f = FrameOPENUDP then
       (case DecodeAddress (payload f) of Inl _ \<Rightarrow> udp h
        | Inr addr \<Rightarrow> ur.relay_step (OpOpen (channelID f) (now_ns h, addr)) (udp h))
     else if ftype f = FrameUDPDATA then
       (case DecodeUDPDatagram (payload f) of Inl _ \<Rightarrow> udp h
        | Inr dg \<Rightarrow> if late f h then udp h else ur.relay_step (OpWrite (channelID f) dg) (udp h))
     else if ftype f = FrameUDPCLOSE then ur.relay_step (OpClose (channelID f)) (udp h)
     else udp h)"
  by (auto simp: HandleFrame_def handler_defs Let_def split_beta late_def UDP_Open_at_def
      split: sum.splits option.splits)

definition relays :: "u32 \<Rightarrow> nat \<Rightarrow> udp_relay \<times> network \<Rightarrow> bool" where
  "relays ch c rw \<longleftrightarrow> ur.table_inv rw \<and> udp_conn ch (fst rw) = Some c \<and> healthy c (snd rw)"

lemma relays_step:
  "relays ch c rw \<Longrightarrow> ur.leaves_open ch x \<Longrightarrow>
     relays ch c (ur.relay_step x rw)
     \<and> delivered c (snd (ur.relay_step x rw)) = delivered c (snd rw) @ ur.data_on ch [x]"
  using ur.step_delivers [of rw ch c x] ur.step_inv [of rw x] by (simp add: relays_def)

lemma relays_frames:
  "relays ch c (r\<lparr>ureaders := x\<rparr>, w) = relays ch c (r, w)"
  "relays ch c (r, w\<lparr>dial_error := d\<rparr>) = relays ch c (r, w)"
  "delivered c (w\<lparr>dial_error := d\<rparr>) = delivered c w"
  by (simp_all add: relays_def ur.table_inv_def udp_conn_def healthy_def delivered_def network_wf_def is_open_def)

lemma relays_break:
  assumes "relays ch c (r, w)" and "c2 \<noteq> c"
  shows "relays ch c (r, break_conn c2 n e w)" and "delivered c (break_conn c2 n e w) = delivered c w"
proof -
  have "network_wf (break_conn c2 n e w) = network_wf w" "next_sock (break_conn c2 n e w) = next_sock w"
    by (auto simp: network_wf_def break_conn_def dom_def)
  moreover have "sockets (break_conn c2 n e w) c = sockets w c"
    using assms(2) by (simp add: break_conn_def)
  ultimately show "relays ch c (r, break_conn c2 n e w)" "delivered c (break_conn c2 n e w) = delivered c w"
    using assms(1) by (simp_all add: relays_def ur.table_inv_def healthy_def delivered_def)
qed

definition server_udp_good :: "u32 \<Rightarrow> nat \<Rightarrow> server \<Rightarrow> bool" where
  "server_udp_good ch c h \<longleftrightarrow> authOK h \<and> relays ch c (udp h)"

text \<open>The steps and frames that leave an association and its connection in place.\<close>

definition keeps_assoc :: "u32 \<Rightarrow> nat \<Rightarrow> server_event \<Rightarrow> bool" where
  "keeps_assoc ch c ev =
     (case ev of
        ReadUDP nano ch2 c2 rd \<Rightarrow> ch2 = ch \<longrightarrow> snd rd = None
      | BreakUDP c2 n e \<Rightarrow> c2 \<noteq> c
      | _ \<Rightarrow> True)"

definition server_udp_keeps :: "u32 \<Rightarrow> frame \<Rightarrow> bool" where
  "server_udp_keeps ch f \<longleftrightarrow> (channelID f = ch \<longrightarrow> ftype f \<noteq> FrameOPENUDP \<and> ftype f \<noteq> FrameUDPCLOSE)"

lemma UDP_readLoop_udp:
  "fst (snd (UDP_readLoop_iter nano ch c (buf, err) rw s)) =
    (if err = None then rw
     else ((fst (ur.relay_step (OpClose ch) rw))\<lparr>ureaders :=
             remove1 (ch, c) (ureaders (fst (ur.relay_step (OpClose ch) rw)))\<rparr>,
           snd (ur.relay_step (OpClose ch) rw)))"
  by (simp add: UDP_readLoop_iter_def Let_def split_beta)

lemma server_udp_event:
  assumes "server_udp_good ch c (fst hs)" and "keeps_assoc ch c ev" and "server_own ev"
  shows "server_udp_good ch c (fst (serve_event ev hs))
    \<and> delivered c (snd (udp (fst (serve_event ev hs)))) = delivered c (snd (udp (fst hs)))"
proof (cases ev)
  case (ReadUDP nano ch2 c2 rd)
  obtain buf err where rd: "rd = (buf, err)" by (cases rd)
  have "relays ch c (fst (snd (UDP_readLoop_iter nano ch2 c2 (buf, err) (udp (fst hs)) (snd hs))))
    \<and> delivered c (snd (fst (snd (UDP_readLoop_iter nano ch2 c2 (buf, err) (udp (fst hs)) (snd hs)))))
        = delivered c (snd (udp (fst hs)))"
    using assms(1,2) relays_step [of ch c "udp (fst hs)" "OpClose ch2"] relays_frames(1)
    unfolding UDP_readLoop_udp
    by (auto simp: server_udp_good_def keeps_assoc_def ReadUDP rd simp del: ur.relay_step.simps)
  then show ?thesis using assms(1) by (simp add: ReadUDP rd server_udp_good_def split_beta Let_def)
next
  case (CopyTCP ch2 c2 rd)
  then show ?thesis using assms(1) by (simp add: server_udp_good_def split_beta Let_def)
next
  case (BreakUDP c2 n e)
  then show ?thesis
    using relays_break [of ch c "fst (udp (fst hs))" "snd (udp (fst hs))" c2 n e] assms(1,2)
    by (simp add: server_udp_good_def keeps_assoc_def)
next
  case (SetDial d)
  then show ?thesis
    using assms(1) relays_frames(2) [where r = "fst (udp (fst hs))" and w = "snd (udp (fst hs))"]
    by (simp add: server_udp_good_def relays_frames(3))
qed (use assms in \<open>simp_all add: server_udp_good_def server_own_def\<close>)

lemma server_udp_frame:
  assumes "server_udp_good ch c h" and "server_udp_keeps ch f" and "request_ok f"
    and "h2 = fst (snd (HandleFrame f h s))"
  shows "server_udp_good ch c h2 \<and> delivered c (snd (udp h2)) = delivered c (snd (udp h))
    @ (if udp_on ch f \<and> \<not> late f h then [udp_data (payload f)] else [])"
proof -
  have "authOK h2" using assms(1,4) authOK_frame by (simp add: server_udp_good_def)
  moreover have u: "relays ch c (udp h)" "authOK h" using assms(1) by (simp_all add: server_udp_good_def)
  have dec: "\<exists>dg. DecodeUDPDatagram (payload f) = Inr dg" if "ftype f = FrameUDPDATA"
    using assms(3) that by (cases "DecodeUDPDatagram (payload f)") (simp_all add: request_ok_def)
  have "relays ch c (udp h2) \<and> delivered c (snd (udp h2)) = delivered c (snd (udp h))
    @ (if udp_on ch f \<and> \<not> late f h then [udp_data (payload f)] else [])"
    unfolding assms(4) HandleFrame_udp
    using u assms(2) dec relays_step [OF u(1), of "OpOpen (channelID f) addr" for addr]
      relays_step [OF u(1), of "OpClose (channelID f)"] relays_step [OF u(1), of "OpWrite (channelID f) dg" for dg]
    by (cases "DecodeAddress (payload f)")
      (auto simp: server_udp_keeps_def udp_on_def udp_data_def simp del: ur.relay_step.simps)
  ultimately show ?thesis by (simp add: server_udp_good_def)
qed

text \<open>
  The client's end: the route of the channel, and the header \<open>hd\<close> of the packets that
  \<^verbatim>\<open>encodeSocksUDPDatagram\<close> builds for its target.  Another route to the same peer has a
  header that differs, so that its packets can be told apart.
\<close>

abbreviation target_header :: "tunnel_client \<Rightarrow> string \<Rightarrow> go_error + byte list" where
  "target_header c target \<equiv> encodeSocksUDPDatagram (services c) target []"

lemma encode_header:
  "encodeSocksUDPDatagram sv target data = map_sum id (\<lambda>hdr. hdr @ data) (encodeSocksUDPDatagram sv target [])"
  by (auto simp: encodeSocksUDPDatagram_def Let_def split: sum.split option.split)

definition apart :: "udp_route \<Rightarrow> byte list \<Rightarrow> tunnel_client \<Rightarrow> udp_route \<Rightarrow> bool" where
  "apart rt hdr c rt2 \<longleftrightarrow> (r_conn rt2 = r_conn rt \<and> r_peer rt2 = r_peer rt \<longrightarrow>
     (case target_header c (r_target rt2) of Inl _ \<Rightarrow> True | Inr hdr2 \<Rightarrow> parallel hdr hdr2))"

definition client_udp_good :: "u32 \<Rightarrow> udp_route \<Rightarrow> byte list \<Rightarrow> tunnel_client \<Rightarrow> bool" where
  "client_udp_good ch rt hdr c \<longleftrightarrow> udpRoutes c ch = Some rt \<and> udp_write_err c = None
     \<and> target_header c (r_target rt) = Inr hdr
     \<and> (\<forall>ch2 rt2. ch2 \<noteq> ch \<longrightarrow> udpRoutes c ch2 = Some rt2 \<longrightarrow> apart rt hdr c rt2)"

text \<open>The data of the packets that the peer has got from the route's target.\<close>

definition for_route :: "udp_route \<Rightarrow> byte list \<Rightarrow> nat \<times> string \<times> byte list \<Rightarrow> bool" where
  "for_route rt hdr x \<longleftrightarrow> fst x = r_conn rt \<and> fst (snd x) = r_peer rt \<and> prefix hdr (snd (snd x))"

definition udp_got :: "udp_route \<Rightarrow> byte list \<Rightarrow> tunnel_client \<Rightarrow> byte list list" where
  "udp_got rt hdr c = map (\<lambda>x. drop (length hdr) (snd (snd x))) (filter (for_route rt hdr) (udp_sent c))"

definition opens_apart :: "u32 \<Rightarrow> udp_route \<Rightarrow> byte list \<Rightarrow> tunnel_client \<Rightarrow> udp_route \<Rightarrow> bool" where
  "opens_apart ch rt hdr c rt2 \<longleftrightarrow> nextID c + 1 \<noteq> ch \<and> apart rt hdr c rt2"

definition client_udp_leaves :: "u32 \<Rightarrow> udp_route \<Rightarrow> byte list \<Rightarrow> client_action \<Rightarrow> tunnel_client \<Rightarrow> bool" where
  "client_udp_leaves ch rt hdr a c =
     (case a of
        Client (COpenUDP address conn peer) \<Rightarrow>
          opens_apart ch rt hdr c \<lparr>r_conn = conn, r_peer = peer, r_target = address\<rparr>
      | UDPRecv usock buf peer m \<Rightarrow>
          pred_option (\<lambda>addr. opens_apart ch rt hdr c \<lparr>r_conn = usock, r_peer = peer, r_target = addr\<rparr>)
            (packet_open buf peer m)
      | _ \<Rightarrow> True)"

definition client_udp_keeps :: "u32 \<Rightarrow> frame \<Rightarrow> bool" where
  "client_udp_keeps ch f \<longleftrightarrow> (channelID f = ch \<longrightarrow> ftype f \<noteq> FrameUDPCLOSE)"

text \<open>The parts of the client's state that a UDP route depends on.\<close>

definition udp_view :: "tunnel_client \<Rightarrow> (u32 \<rightharpoonup> udp_route) \<times> go_error option \<times> (string \<Rightarrow> go_error + nat) \<times> (nat \<times> string \<times> byte list) list" where
  "udp_view c = (udpRoutes c, udp_write_err c, services c, udp_sent c)"

lemma udp_view_good:
  "udp_view c = udp_view d \<Longrightarrow> client_udp_good ch rt hdr c = client_udp_good ch rt hdr d \<and> udp_got rt hdr c = udp_got rt hdr d"
  by (simp add: udp_view_def client_udp_good_def apart_def udp_got_def)

lemma udp_view_same:
  "udp_view (c\<lparr>net := w\<rparr>) = udp_view c" "udp_view (snd (client_write conn data c)) = udp_view c"
  "udp_view (finish_socks conn c) = udp_view c" "udp_view (closeTCP ch c) = udp_view c"
  "udp_view (signalOpen ch e c) = udp_view c" "udp_view (snd (client_TCPDATA f c)) = udp_view c"
  "udp_view (fst (snd (openTCPChannel_start addr conn cs))) = udp_view (fst cs)"
  "udp_view (snd (accept_conn c)) = udp_view c"
  by (simp_all add: udp_view_def client_write_def finish_socks_def closeTCP_def signalOpen_def client_TCPDATA_def accept_conn_def
      split_beta Let_def split: option.split)

lemma client_udp_open:
  assumes "client_udp_good ch rt hdr (fst cs)"
    and "opens_apart ch rt hdr (fst cs) \<lparr>r_conn = conn, r_peer = peer, r_target = addr\<rparr>"
  shows "client_udp_good ch rt hdr (fst (snd (openUDPChannel_start addr conn peer cs)))
    \<and> udp_got rt hdr (fst (snd (openUDPChannel_start addr conn peer cs))) = udp_got rt hdr (fst cs)"
  using assms by (auto simp: client_udp_good_def opens_apart_def apart_def udp_got_def)

lemma socks_begin_udp_view:
  "udp_view (fst (snd (snd (handleSocksConn_begin conn rd listen cs)))) = udp_view (fst cs)"
proof -
  have o: "udp_view c2 = udp_view c" if "snd (openTCPChannel_start addr conn (c, s)) = (c2, s2)" for addr c s c2 s2
    using udp_view_same(7) [of addr conn "(c, s)"] that by simp
  have w: "udp_view c2 = udp_view c" if "client_write conn data c = (e, c2)" for data c e c2
    using udp_view_same(2) [of conn data c] that by simp
  show ?thesis
    by (auto simp: handleSocksConn_begin_def split_beta Let_def udp_view_same dest!: o w
        simp del: start_TCP_simps split: prod.split sum.split option.split)
qed

lemma packet_open_recv:
  "fst (snd (udp_associate_recv usock buf peer m cs)) =
     (case packet_open buf peer m of None \<Rightarrow> fst cs
      | Some addr \<Rightarrow> fst (snd (openUDPChannel_start addr usock peer cs)))"
proof (cases "length buf < 10")
  case False
  then show ?thesis
    by (cases "readPacketAddr (drop 3 buf)")
      (auto simp: udp_associate_recv_def packet_open_def packetAddrLen_def split_beta Let_def
        simp del: start_UDP_simps split: option.split sum.split prod.split)
qed (simp add: udp_associate_recv_def packet_open_def)

lemma client_udp_act:
  assumes "client_udp_good ch rt hdr (fst cs)" and "client_udp_leaves ch rt hdr a (fst cs)" and "client_own a"
  shows "client_udp_good ch rt hdr (fst (client_act a cs)) \<and> udp_got rt hdr (fst (client_act a cs)) = udp_got rt hdr (fst cs)"
proof (cases a)
  case (Client ev)
  then show ?thesis
  proof (cases ev)
    case (COpenUDP address conn peer)
    then show ?thesis using Client assms(1,2) client_udp_open by (simp add: client_udp_leaves_def del: start_UDP_simps)
  next
    case (COpenTCP address conn)
    then show ?thesis using Client assms(1) udp_view_good [OF udp_view_same(7)] by (simp del: start_TCP_simps)
  next
    case (CCopy ch2 rd ctx_done)
    have "udp_view (fst (snd (copyTCPToTunnel_iter ch2 rd ctx_done cs))) = udp_view (fst cs)"
      by (simp add: copyTCPToTunnel_iter_def split_beta Let_def udp_view_same)
    from udp_view_good [OF this] show ?thesis using Client CCopy assms(1) by simp
  qed (use assms(3) in \<open>simp add: client_own_def\<close>)
next
  case (SocksConn conn rd listen)
  then show ?thesis using assms(1) udp_view_good [OF socks_begin_udp_view [of conn rd listen cs]] by simp
next
  case (SocksOpened conn ch2 k raw timed_out)
  have "udp_view (snd (handleSocksConn_opened conn ch2 k raw timed_out (fst cs))) = udp_view (fst cs)"
    by (auto simp: handleSocksConn_opened_def udp_view_same split: option.split prod.split)
  from udp_view_good [OF this] show ?thesis using SocksOpened assms(1) by simp
next
  case (UDPRecv usock buf peer m)
  then show ?thesis
    using assms(1,2) client_udp_open [of ch rt hdr cs]
    by (cases "packet_open buf peer m") (simp_all add: client_udp_leaves_def packet_open_recv del: start_UDP_simps)
next
  case ClientAccept
  from udp_view_good [OF udp_view_same(8)] show ?thesis using ClientAccept assms(1) by simp
next
  case (ClientCloses conn)
  from udp_view_good [OF udp_view_same(3)] show ?thesis using ClientCloses assms(1) by simp
next
  case (ClientBreaks conn n e)
  from udp_view_good [OF udp_view_same(1)] show ?thesis using ClientBreaks assms(1) by simp
qed (use assms(1) in simp_all)

lemma client_udp_frame:
  assumes "client_udp_good ch rt hdr c" and "client_udp_keeps ch f" and "response_ok f"
    and "c2 = fst (snd (client_HandleFrame f c s))"
  shows "client_udp_good ch rt hdr c2
    \<and> udp_got rt hdr c2 = udp_got rt hdr c @ (if udp_on ch f then [udp_data (payload f)] else [])"
proof (cases "ftype f = FrameUDPDATA")
  case True
  obtain dg where dg: "DecodeUDPDatagram (payload f) = Inr dg"
    using assms(3) True by (cases "DecodeUDPDatagram (payload f)") (simp_all add: response_ok_def)
  have c2: "c2 = snd (client_UDPDATA f c)" using assms(4) True by (simp add: client_HandleFrame_def split_beta Let_def)
  show ?thesis
  proof (cases "udpRoutes c (channelID f)")
    case None
    then have "c2 = c" "channelID f \<noteq> ch" using c2 dg assms(1) by (auto simp: client_UDPDATA_def client_udp_good_def)
    then show ?thesis using assms(1) by (simp add: udp_on_def)
  next
    case (Some rt2)
    show ?thesis
    proof (cases "target_header c (r_target rt2)")
      case (Inl e)
      then have "c2 = c" using c2 dg Some encode_header [of "services c" "r_target rt2" "udp_datagram.Data dg"] by (simp add: client_UDPDATA_def)
      moreover have "channelID f \<noteq> ch" using assms(1) Some Inl by (auto simp: client_udp_good_def)
      ultimately show ?thesis using assms(1) by (simp add: udp_on_def)
    next
      case (Inr hdr2)
      have "encodeSocksUDPDatagram (services c) (r_target rt2) (udp_datagram.Data dg) = Inr (hdr2 @ udp_datagram.Data dg)"
        using encode_header [of "services c" "r_target rt2" "udp_datagram.Data dg"] Inr by simp
      then have up: "c2 = c\<lparr>udp_sent := udp_sent c @ [(r_conn rt2, r_peer rt2, hdr2 @ udp_datagram.Data dg)]\<rparr>"
        using c2 dg Some assms(1) by (simp add: client_UDPDATA_def WriteToUDP_def client_udp_good_def)
      have "client_udp_good ch rt hdr c2" using assms(1) by (simp add: up client_udp_good_def apart_def)
      moreover have "for_route rt hdr (r_conn rt2, r_peer rt2, hdr2 @ udp_datagram.Data dg) \<longleftrightarrow> channelID f = ch"
      proof (cases "channelID f = ch")
        case True
        then have "rt2 = rt" "hdr2 = hdr" using assms(1) Some Inr by (auto simp: client_udp_good_def)
        then show ?thesis using True by (simp add: for_route_def)
      next
        case False
        then have "apart rt hdr c rt2" using assms(1) Some by (simp add: client_udp_good_def)
        then show ?thesis
          using False Inr parallel_append [of hdr hdr2 "[]" "udp_datagram.Data dg"]
          by (auto simp: for_route_def apart_def)
      qed
      moreover have "channelID f = ch \<Longrightarrow> hdr2 = hdr" using assms(1) Some Inr by (auto simp: client_udp_good_def)
      ultimately show ?thesis
        using True dg by (auto simp: up udp_got_def udp_on_def udp_data_def)
    qed
  qed
next
  case False
  have nd: "\<not> udp_on ch f" using False by (simp add: udp_on_def)
  show ?thesis
  proof (cases "ftype f = FrameUDPCLOSE")
    case True
    then have "c2 = closeUDP (channelID f) c" "channelID f \<noteq> ch"
      using assms(2,4) by (auto simp: client_HandleFrame_def client_udp_keeps_def)
    then show ?thesis using assms(1) nd by (simp add: client_udp_good_def closeUDP_def apart_def udp_got_def)
  next
    case no_close: False
    have "udp_view c2 = udp_view c"
      unfolding assms(4) client_HandleFrame_def using False no_close
      by (simp add: udp_view_same split_beta Let_def)
    from udp_view_good [OF this] show ?thesis using assms(1) nd by simp
  qed
qed

interpretation udp_up: up_way "udp_on ch" udp_data lossy "server_udp_good ch c" "\<lambda>h. delivered c (snd (udp h))"
  "keeps_assoc ch c" "\<lambda>f h. server_udp_keeps ch f \<and> (udp_on ch f \<and> late f h \<longrightarrow> lossy)" for ch c lossy
proof unfold_locales
  fix h h2 f s
  assume "server_udp_good ch c h" "server_udp_keeps ch f \<and> (udp_on ch f \<and> late f h \<longrightarrow> lossy)" "request_ok f"
    and "h2 = fst (snd (HandleFrame f h s))"
  then show "server_udp_good ch c h2 \<and> (delivered c (snd (udp h2)) = delivered c (snd (udp h))
      @ (if udp_on ch f then [udp_data (payload f)] else [])
      \<or> lossy \<and> delivered c (snd (udp h2)) = delivered c (snd (udp h)))"
    using server_udp_frame [of ch c h f h2 s] by (auto split: if_splits)
qed (simp, rule server_udp_event)

interpretation udp_down: down_way "udp_on ch" udp_data False "client_udp_good ch rt hdr" "udp_got rt hdr"
  "client_udp_leaves ch rt hdr" "client_udp_keeps ch" for ch rt hdr
proof unfold_locales
  fix c c2 f s
  assume "client_udp_good ch rt hdr c" "client_udp_keeps ch f" "response_ok f"
    and "c2 = fst (snd (client_HandleFrame f c s))"
  then show "client_udp_good ch rt hdr c2 \<and> (udp_got rt hdr c2 = udp_got rt hdr c
      @ (if udp_on ch f then [udp_data (payload f)] else []) \<or> False \<and> udp_got rt hdr c2 = udp_got rt hdr c)"
    using client_udp_frame by simp
qed (simp, rule client_udp_act)

abbreviation udp_up_pipe :: "u32 \<Rightarrow> nat \<Rightarrow> world \<Rightarrow> byte list pipe" where
  "udp_up_pipe ch c \<equiv> up_pipe (udp_on ch) udp_data (\<lambda>h. delivered c (snd (udp h)))"

abbreviation udp_down_pipe :: "u32 \<Rightarrow> udp_route \<Rightarrow> byte list \<Rightarrow> world \<Rightarrow> byte list pipe" where
  "udp_down_pipe ch rt hdr \<equiv> down_pipe (udp_on ch) udp_data (udp_got rt hdr)"

text \<open>The datagrams that a step sends on the association, and those that it reads from the target.\<close>

definition udp_up_offers :: "u32 \<Rightarrow> world \<times> world_event \<Rightarrow> byte list list" where
  "udp_up_offers ch x =
     (case snd x of ClientDoes (UDPSend nano milli ch2 data) \<Rightarrow> if ch2 = ch then [data] else [] | _ \<Rightarrow> [])"

definition udp_down_offers :: "u32 \<Rightarrow> world \<times> world_event \<Rightarrow> byte list list" where
  "udp_down_offers ch x =
     (case snd x of
        ServerDoes (ReadUDP nano ch2 c rd) \<Rightarrow>
          if ch2 = ch \<and> (ch2, c) \<in> set (ureaders (fst (udp (w_server (fst x))))) \<and> fst rd \<noteq> [] then [fst rd] else []
      | _ \<Rightarrow> [])"

lemma udp_act_items:
  "map udp_data (items (udp_on ch) (queued_frames (act_events a c)))
    = (case a of UDPSend nano milli ch2 data \<Rightarrow> if ch2 = ch then [data] else [] | _ \<Rightarrow> [])"
proof (cases a)
  case (Client ev)
  then show ?thesis
    by (cases ev) (auto simp: act_events_def copy_events_def open_frame_def new_frame_simps udp_on_def)
qed (auto simp: act_events_def open_frame_def udp_frame_def new_frame_simps udp_on_def udp_data_def
  split: option.split prod.split)

lemma one_fragment:
  assumes "data \<noteq> []" and "length data \<le> MaxLocalUDPDatagram"
  obtains d where "FragmentUDP data x dl = Inr [d]" and "udp_datagram.Data d = data"
proof -
  have "Suc 0 \<le> length data" using assms(1) by (cases data) auto
  then have "frag_count data = 1" using assms(2) unfolding frag_count_def by (intro div_nat_eqI) auto
  then have "FragmentUDP data x dl = Inr [frag_at data x dl 0]"
    using assms(1) by (simp add: FragmentUDP_eq)
  moreover have "udp_datagram.Data (frag_at data x dl 0) = data" using assms(2) by (simp add: frag_at_def udp_chunk_def)
  ultimately show thesis by (rule that)
qed

lemma udp_event_items:
  assumes "event_fine ev" and "server_own ev"
  shows "map udp_data (items (udp_on ch) (queued_frames (server_events ev h)))
    = (case ev of
         ReadUDP nano ch2 c rd \<Rightarrow>
           if ch2 = ch \<and> (ch2, c) \<in> set (ureaders (fst (udp h))) \<and> fst rd \<noteq> [] then [fst rd] else []
       | _ \<Rightarrow> [])"
proof (cases ev)
  case (ReadUDP nano ch2 c rd)
  show ?thesis
  proof (cases "fst rd = []")
    case True
    then show ?thesis
      by (cases "snd rd") (simp_all add: ReadUDP server_events_def udp_read_events_def new_frame_simps udp_on_def)
  next
    case False
    have "length (fst rd) \<le> MaxLocalUDPDatagram" using assms(1) by (simp add: ReadUDP read_ok_def)
    from one_fragment [OF False this, of "of_int nano" 1000] obtain d
      where "FragmentUDP (fst rd) (of_int nano) 1000 = Inr [d]" "udp_datagram.Data d = fst rd" .
    then show ?thesis
      using False
      by (cases "snd rd") (simp_all add: ReadUDP server_events_def udp_read_events_def new_frame_simps udp_on_def udp_data_def)
  qed
qed (use assms(2) in \<open>auto simp: server_events_def server_own_def copy_events_def new_frame_simps udp_on_def\<close>)

lemma udp_items:
  assumes "world_run v tr u" and "x \<in> set tr"
  shows "map udp_data (up_items (udp_on ch) (snd x) (fst x)) = udp_up_offers ch x"
    and "map udp_data (down_items (udp_on ch) (snd x) (fst x)) = udp_down_offers ch x"
proof -
  show "map udp_data (up_items (udp_on ch) (snd x) (fst x)) = udp_up_offers ch x"
    by (simp add: up_items_def udp_up_offers_def udp_act_items split: world_event.split)
  have "\<exists>w. world_step (fst x) (snd x) w" using assms by (induction rule: world_run.induct) auto
  then show "map udp_data (down_items (udp_on ch) (snd x) (fst x)) = udp_down_offers ch x"
    by (auto simp: down_items_def udp_down_offers_def udp_event_items elim!: world_stepE)
qed

definition assoc_up :: "u32 \<Rightarrow> nat \<Rightarrow> udp_route \<Rightarrow> byte list \<Rightarrow> world \<Rightarrow> bool" where
  "assoc_up ch c rt hdr w \<longleftrightarrow> client_udp_good ch rt hdr (w_client w) \<and> server_udp_good ch c (w_server w)"

definition leaves_assoc :: "u32 \<Rightarrow> nat \<Rightarrow> udp_route \<Rightarrow> byte list \<Rightarrow> world \<times> world_event \<Rightarrow> bool" where
  "leaves_assoc ch c rt hdr x \<longleftrightarrow> up_keeps (keeps_assoc ch c) (\<lambda>f h. server_udp_keeps ch f) (snd x) (fst x)
     \<and> down_keeps (client_udp_leaves ch rt hdr) (client_udp_keeps ch) (snd x) (fst x)"

text \<open>The server's read loop takes a datagram that is too late.\<close>

definition meets_late :: "u32 \<Rightarrow> world \<times> world_event \<Rightarrow> bool" where
  "meets_late ch x =
     (case snd x of
        ServerReads now \<Rightarrow> (case next_up (fst x) of Some f \<Rightarrow> udp_on ch f \<and> late f (w_server (fst x)) | None \<Rightarrow> False)
      | _ \<Rightarrow> False)"

lemma up_keeps_late:
  "up_keeps ke (\<lambda>f h. kf f \<and> (udp_on ch f \<and> late f h \<longrightarrow> lossy)) (snd x) (fst x)
    \<longleftrightarrow> up_keeps ke (\<lambda>f h. kf f) (snd x) (fst x) \<and> (meets_late ch x \<longrightarrow> lossy)"
  by (auto simp: up_keeps_def meets_late_def split: world_event.split option.split)

lemma udp_run:
  assumes "world_run v tr u" and "world_ok v" and "assoc_up ch c rt hdr v" and "\<forall>x \<in> set tr. leaves_assoc ch c rt hdr x"
  shows "assoc_up ch c rt hdr u
    \<and> pipe_goes (\<exists>x \<in> set tr. meets_late ch x) (udp_up_pipe ch c v) (concat (map (udp_up_offers ch) tr)) (udp_up_pipe ch c u)
    \<and> pipe_goes False (udp_down_pipe ch rt hdr v) (concat (map (udp_down_offers ch) tr)) (udp_down_pipe ch rt hdr u)"
proof -
  have off: "map (\<lambda>x. map udp_data (up_items (udp_on ch) (snd x) (fst x))) tr = map (udp_up_offers ch) tr"
    "map (\<lambda>x. map udp_data (down_items (udp_on ch) (snd x) (fst x))) tr = map (udp_down_offers ch) tr"
    using udp_items [OF assms(1)] by simp_all
  show ?thesis
    using udp_up.run_refines [OF assms(1,2), of ch c "\<exists>x \<in> set tr. meets_late ch x"]
      udp_down.run_refines [OF assms(1,2), of ch rt hdr] assms(3,4)
    unfolding off by (auto simp: assoc_up_def leaves_assoc_def up_keeps_late)
qed


text \<open>A demonstration: channel 2 is an association with 9.9.9.9:53.\<close>

definition demo_target :: string where
  "demo_target = host_port (ip4_string [9, 9, 9, 9]) 53"

definition demo_udp_server :: server where
  "demo_udp_server = demo_server\<lparr>authOK := True, udp := snd (UDP_Open 0 2 demo_target (udp demo_server))\<rparr>"

definition demo_udp_client :: tunnel_client where
  "demo_udp_client = fst (client_run [COpenUDP demo_target 0 ''c:1''] (demo_client, demo_session))"

definition demo_route :: udp_route where
  "demo_route = \<lparr>r_conn = 0, r_peer = ''c:1'', r_target = demo_target\<rparr>"

definition demo_header :: "byte list" where
  "demo_header = [0, 0, 0] @ ip4_header [9, 9, 9, 9] 53"

lemma demo_udp_up: "server_udp_good 2 0 demo_udp_server" "client_udp_good 2 demo_route demo_header demo_udp_client"
  "dials_short demo_udp_server" "(2, 0) \<in> set (ureaders (fst (udp demo_udp_server)))"
proof -
  have w: "tcp demo_server = (NewTCPRelay, new_network (\<lambda>_ _. None))"
    "udp demo_server = (NewUDPRelay, new_network (\<lambda>_ _. None))" by (simp_all add: demo_server_def new_handler_def)
  have "ur.table_inv (udp demo_udp_server)"
    using ur.step_inv [OF udp_table_inv_new, of "OpOpen 2 (0, demo_target)"] w
    by (simp add: demo_udp_server_def UDP_Open_at_def)
  then show "server_udp_good 2 0 demo_udp_server"
    by (simp add: demo_udp_server_def server_udp_good_def relays_def w UDP_Open_def dial_def new_network_def
        udp_conn_def healthy_def Let_def)
  have "encodeSocksUDPDatagram sv demo_target [] = Inr demo_header" for sv
    using encode_host_port [OF ip4_string_brackets, of sv "[9, 9, 9, 9]" 53 "[]"]
      ParseIP_ip4 [of "[9, 9, 9, 9]"]
    by (simp add: demo_header_def demo_target_def ip4_header_def To4_def)
  then show "client_udp_good 2 demo_route demo_header demo_udp_client"
    by (simp add: demo_udp_client_def client_udp_good_def demo_client_def newTunnelClient_def demo_route_def)
  show "dials_short demo_udp_server"
    by (simp add: demo_udp_server_def dials_short_def short_errors_def w UDP_Open_def dial_def new_network_def Let_def)
  show "(2, 0) \<in> set (ureaders (fst (udp demo_udp_server)))"
    by (simp add: demo_udp_server_def w UDP_Open_def dial_def new_network_def NewUDPRelay_def Let_def)
qed


end
