(* ===== verification/SLPP_ClientProc.thy ===== *)
theory SLPP_ClientProc
  imports SLPP_Channel
begin

text \<open>
  The client program's goroutines, \<^verbatim>\<open>cmd/slppc/main.go\<close>: the accept loop and one goroutine
  per SOCKS connection (\<^verbatim>\<open>handleSocksConn\<close>) and per UDP association
  (\<^verbatim>\<open>handleUDPAssociate\<close>), which share the tunnel client and its session with the read, write
  and heartbeat loops.  A step is what one of them does until it waits; the steps come in any order.
\<close>

section \<open>State and steps\<close>

text \<open>
  An association: the SOCKS connection it belongs to, \<^verbatim>\<open>channelForRemote\<close>, where its goroutine
  is (\<open>USkip\<close>: it waits for a packet) and whether it still runs.
\<close>

record assoc_proc =
  a_conn :: nat
  channelForRemote :: "string \<rightharpoonup> u32"
  a_state :: udp_progress
  a_runs :: bool

record client_proc =
  p_client :: tunnel_client
  p_session :: session
  p_conns :: "nat \<rightharpoonup> socks_state"
  p_assocs :: "nat \<rightharpoonup> assoc_proc"

definition proc_start :: "tunnel_client \<Rightarrow> session \<Rightarrow> client_proc" where
  "proc_start c s = \<lparr>p_client = c, p_session = s, p_conns = Map.empty, p_assocs = Map.empty\<rparr>"

text \<open>
  The steps: a connection accepted and its request handled, with what it will send and the outcome of
  \<^verbatim>\<open>net.ListenUDP\<close>; an open answered or timed out; an iteration of its copy loop; the end of its
  context; a packet for an association; its open answered; its datagram sent; its socket failing; a
  frame handled by the read loop; an iteration of the write loop and of the heartbeat; a connection
  that breaks.
\<close>

datatype proc_event =
    PAccept reader "go_error + nat \<times> byte list \<times> u16"
  | POpened nat bool
  | PCopy nat read_result bool
  | PDone nat
  | PPacket nat "byte list" string
  | PUDPOpened nat bool
  | PUDPSend nat int int
  | PSocketFails nat
  | PFrame frame
  | PWrite
  | PBeat
  | PBreaks nat nat go_error

definition step_accept ::
  "reader \<Rightarrow> go_error + nat \<times> byte list \<times> u16 \<Rightarrow> client_proc \<Rightarrow> client_proc option" where
  "step_accept rd listen p =
     (let (k, c1) = accept_conn (p_client p);
          (st, _, c2, s2) = handleSocksConn_begin k rd listen (c1, p_session p);
          p2 = p\<lparr>p_client := c2, p_session := s2, p_conns := (p_conns p)(k \<mapsto> st)\<rparr>
      in case st of
           SocksAssociated u \<Rightarrow>
             if p_assocs p u \<noteq> None then None
             else Some (p2\<lparr>p_assocs := (p_assocs p)(u \<mapsto>
               \<lparr>a_conn = k, channelForRemote = Map.empty, a_state = USkip, a_runs = True\<rparr>)\<rparr>)
         | _ \<Rightarrow> Some p2)"

definition step_opened :: "nat \<Rightarrow> bool \<Rightarrow> client_proc \<Rightarrow> client_proc option" where
  "step_opened k timed_out p =
     (case p_conns p k of
        Some (SocksOpening ch r raw) \<Rightarrow>
          (let (st, c) = handleSocksConn_opened k ch r raw timed_out (p_client p)
           in Some (p\<lparr>p_client := c, p_conns := (p_conns p)(k \<mapsto> st)\<rparr>))
      | _ \<Rightarrow> None)"

text \<open>When the copy loop ends, the deferred call closes the connection.\<close>

definition step_copy :: "nat \<Rightarrow> read_result \<Rightarrow> bool \<Rightarrow> client_proc \<Rightarrow> client_proc option" where
  "step_copy k rd ctx_done p =
     (case p_conns p k of
        Some (SocksCopying ch) \<Rightarrow>
          (let (goes_on, c, s) = copyTCPToTunnel_iter ch rd ctx_done (p_client p, p_session p)
           in Some (if goes_on then p\<lparr>p_client := c, p_session := s\<rparr>
                    else p\<lparr>p_client := finish_socks k c, p_session := s, p_conns := (p_conns p)(k \<mapsto> SocksDone)\<rparr>))
      | _ \<Rightarrow> None)"

definition step_done :: "nat \<Rightarrow> client_proc \<Rightarrow> client_proc option" where
  "step_done k p =
     (case p_conns p k of
        Some (SocksAssociated u) \<Rightarrow>
          Some (p\<lparr>p_client := finish_socks k (p_client p), p_conns := (p_conns p)(k \<mapsto> SocksDone)\<rparr>)
      | _ \<Rightarrow> None)"

text \<open>The iterations of \<^verbatim>\<open>handleUDPAssociate\<close>, cut where it waits for a channel to open.\<close>

definition step_packet :: "nat \<Rightarrow> byte list \<Rightarrow> string \<Rightarrow> client_proc \<Rightarrow> client_proc option" where
  "step_packet u buf peer p =
     (case p_assocs p u of
        None \<Rightarrow> None
      | Some a \<Rightarrow>
          if a_runs a \<and> a_state a = USkip \<and> length buf \<le> 2048 then
            (let (st, c, s) = udp_associate_recv u buf peer (channelForRemote a) (p_client p, p_session p)
             in Some (p\<lparr>p_client := c, p_session := s, p_assocs := (p_assocs p)(u \<mapsto> a\<lparr>a_state := st\<rparr>)\<rparr>))
          else None)"

definition step_udp_opened :: "nat \<Rightarrow> bool \<Rightarrow> client_proc \<Rightarrow> client_proc option" where
  "step_udp_opened u timed_out p =
     (case p_assocs p u of
        None \<Rightarrow> None
      | Some a \<Rightarrow>
          (case a_state a of
             UOpening key ch r data \<Rightarrow>
               (let (st, m) = udp_associate_opened timed_out key ch r data (channelForRemote a) (p_client p)
                in Some (p\<lparr>p_assocs := (p_assocs p)(u \<mapsto> a\<lparr>channelForRemote := m, a_state := st\<rparr>)\<rparr>))
           | _ \<Rightarrow> None))"

definition step_udp_send :: "nat \<Rightarrow> int \<Rightarrow> int \<Rightarrow> client_proc \<Rightarrow> client_proc option" where
  "step_udp_send u nano milli p =
     (case p_assocs p u of
        None \<Rightarrow> None
      | Some a \<Rightarrow>
          (case a_state a of
             USend ch data \<Rightarrow>
               Some (p\<lparr>p_session := udp_associate_send nano milli ch data (p_session p),
                       p_assocs := (p_assocs p)(u \<mapsto> a\<lparr>a_state := USkip\<rparr>)\<rparr>)
           | _ \<Rightarrow> None))"

definition step_socket_fails :: "nat \<Rightarrow> client_proc \<Rightarrow> client_proc option" where
  "step_socket_fails u p =
     (case p_assocs p u of
        None \<Rightarrow> None
      | Some a \<Rightarrow>
          if a_runs a \<and> a_state a = USkip
          then Some (p\<lparr>p_assocs := (p_assocs p)(u \<mapsto> a\<lparr>a_runs := False\<rparr>)\<rparr>) else None)"

definition step_frame :: "frame \<Rightarrow> client_proc \<Rightarrow> client_proc option" where
  "step_frame f p =
     (let (_, c, s) = client_HandleFrame f (p_client p) (p_session p)
      in Some (p\<lparr>p_client := c, p_session := s\<rparr>))"

primrec proc_step :: "proc_event \<Rightarrow> client_proc \<Rightarrow> client_proc option" where
  "proc_step (PAccept rd listen) p = step_accept rd listen p"
| "proc_step (POpened k timed_out) p = step_opened k timed_out p"
| "proc_step (PCopy k rd ctx_done) p = step_copy k rd ctx_done p"
| "proc_step (PDone k) p = step_done k p"
| "proc_step (PPacket u buf peer) p = step_packet u buf peer p"
| "proc_step (PUDPOpened u timed_out) p = step_udp_opened u timed_out p"
| "proc_step (PUDPSend u nano milli) p = step_udp_send u nano milli p"
| "proc_step (PSocketFails u) p = step_socket_fails u p"
| "proc_step (PFrame f) p = step_frame f p"
| "proc_step PWrite p = Some (p\<lparr>p_session := snd (writeLoop_iter SelDefault (p_session p))\<rparr>)"
| "proc_step PBeat p = Some (p\<lparr>p_session := snd (heartbeatLoop_iter SelDefault (p_session p))\<rparr>)"
| "proc_step (PBreaks k n e) p =
     Some (p\<lparr>p_client := (p_client p)\<lparr>net := break_conn k n e (net (p_client p))\<rparr>\<rparr>)"

primrec proc_run :: "proc_event list \<Rightarrow> client_proc \<Rightarrow> client_proc option" where
  "proc_run [] p = Some p"
| "proc_run (ev # evs) p = Option.bind (proc_step ev p) (proc_run evs)"

lemma proc_run_append: "proc_run (xs @ ys) p = Option.bind (proc_run xs p) (proc_run ys)"
proof (induction xs arbitrary: p)
  case (Cons x xs)
  then show ?case by (cases "proc_step x p") simp_all
qed simp

section \<open>Who owns a channel\<close>

text \<open>
  A channel belongs to the goroutine that has opened it: to a SOCKS connection, or to an association
  and its key (peer and target).
\<close>

datatype owner = ByConn nat | ByKey nat string

fun conn_chan :: "socks_state \<Rightarrow> u32 option" where
  "conn_chan (SocksOpening ch r raw) = Some ch"
| "conn_chan (SocksCopying ch) = Some ch"
| "conn_chan _ = None"

fun udp_chan :: "udp_progress \<Rightarrow> (string \<times> u32) option" where
  "udp_chan (UOpening key ch r data) = Some (key, ch)"
| "udp_chan _ = None"

definition keyed :: "assoc_proc \<Rightarrow> string \<Rightarrow> u32 \<Rightarrow> bool" where
  "keyed a key ch \<longleftrightarrow> channelForRemote a key = Some ch \<or> udp_chan (a_state a) = Some (key, ch)"

fun owns :: "client_proc \<Rightarrow> owner \<Rightarrow> u32 \<Rightarrow> bool" where
  "owns p (ByConn k) ch \<longleftrightarrow> (\<exists>st. p_conns p k = Some st \<and> conn_chan st = Some ch)"
| "owns p (ByKey u key) ch \<longleftrightarrow> (\<exists>a. p_assocs p u = Some a \<and> keyed a key ch)"

text \<open>What the registrations of the client say of a channel agrees with its owner.\<close>

fun agrees :: "tunnel_client \<Rightarrow> owner \<Rightarrow> u32 \<Rightarrow> bool" where
  "agrees c (ByConn k) ch \<longleftrightarrow> udpRoutes c ch = None \<and> (\<forall>j. tcpConns c ch = Some j \<longrightarrow> j = k)"
| "agrees c (ByKey u key) ch \<longleftrightarrow> tcpConns c ch = None
     \<and> (\<forall>rt. udpRoutes c ch = Some rt \<longrightarrow> r_conn rt = u \<and> key = r_peer rt @ ''|'' @ r_target rt)"

text \<open>\<open>n\<close> bounds the number of channels opened so far; identifiers are given out from 2 on.\<close>

definition old_id :: "nat \<Rightarrow> u32 \<Rightarrow> bool" where
  "old_id n ch \<longleftrightarrow> 2 \<le> unat ch \<and> unat ch \<le> n + 1"

definition owned_once :: "client_proc \<Rightarrow> bool" where
  "owned_once p \<longleftrightarrow> (\<forall>ch x y. owns p x ch \<longrightarrow> owns p y ch \<longrightarrow> x = y)"

definition owners_agree :: "nat \<Rightarrow> client_proc \<Rightarrow> bool" where
  "owners_agree n p \<longleftrightarrow> (\<forall>ch x. owns p x ch \<longrightarrow> old_id n ch \<and> agrees (p_client p) x ch)"

definition registered_old :: "nat \<Rightarrow> tunnel_client \<Rightarrow> bool" where
  "registered_old n c \<longleftrightarrow> (\<forall>ch. tcpConns c ch \<noteq> None \<or> udpRoutes c ch \<noteq> None \<longrightarrow> old_id n ch)"

text \<open>A registered connection is that of a goroutine with this channel, or of one that has ended.\<close>

definition holds_chan :: "u32 \<Rightarrow> socks_state \<Rightarrow> bool" where
  "holds_chan ch st \<longleftrightarrow> conn_chan st = Some ch \<or> st = SocksDone"

definition registered_owned :: "client_proc \<Rightarrow> bool" where
  "registered_owned p \<longleftrightarrow> (\<forall>ch k. tcpConns (p_client p) ch = Some k \<longrightarrow> (\<exists>st. p_conns p k = Some st \<and> holds_chan ch st))"

definition registered_once :: "tunnel_client \<Rightarrow> bool" where
  "registered_once c \<longleftrightarrow> (\<forall>ch ch2 k. tcpConns c ch = Some k \<longrightarrow> tcpConns c ch2 = Some k \<longrightarrow> ch = ch2)"

definition conns_known :: "client_proc \<Rightarrow> bool" where
  "conns_known p \<longleftrightarrow> (\<forall>k \<in> dom (p_conns p). k < next_sock (net (p_client p)))"

definition sends_keyed :: "client_proc \<Rightarrow> bool" where
  "sends_keyed p \<longleftrightarrow> (\<forall>u a ch data. p_assocs p u = Some a \<longrightarrow> a_state a = USend ch data \<longrightarrow> ch \<in> ran (channelForRemote a))"

definition proc_inv :: "nat \<Rightarrow> client_proc \<Rightarrow> bool" where
  "proc_inv n p \<longleftrightarrow> nextID (p_client p) = of_nat (n + 1) \<and> owned_once p \<and> owners_agree n p
     \<and> registered_old n (p_client p) \<and> registered_owned p \<and> registered_once (p_client p)
     \<and> conns_known p \<and> sends_keyed p"

lemmas proc_inv_defs = proc_inv_def owned_once_def owners_agree_def registered_old_def registered_owned_def
  registered_once_def conns_known_def sends_keyed_def

lemma proc_inv_start: "proc_inv 0 (proc_start (newTunnelClient w sv) s)"
proof -
  have "\<not> owns (proc_start (newTunnelClient w sv) s) x ch" for x ch
    by (cases x) (simp_all add: proc_start_def)
  then show ?thesis by (simp add: proc_inv_defs) (simp add: proc_start_def newTunnelClient_def)
qed

section \<open>Steps that open nothing\<close>

text \<open>The client's tables only lose entries.\<close>

definition calmer :: "tunnel_client \<Rightarrow> tunnel_client \<Rightarrow> bool" where
  "calmer c c2 \<longleftrightarrow> tcpConns c2 \<subseteq>\<^sub>m tcpConns c \<and> udpRoutes c2 \<subseteq>\<^sub>m udpRoutes c \<and> nextID c2 = nextID c
     \<and> next_sock (net c2) = next_sock (net c)"

lemma calmer_refl [simp]: "calmer c c"
  by (simp add: calmer_def)

lemma calmer_trans: "calmer c c2 \<Longrightarrow> calmer c2 c3 \<Longrightarrow> calmer c c3"
  unfolding calmer_def by (auto intro: map_le_trans)

lemma calmer_tables:
  assumes "calmer c c2"
  shows "tcpConns c2 ch = Some k \<Longrightarrow> tcpConns c ch = Some k"
    and "udpRoutes c2 ch = Some rt \<Longrightarrow> udpRoutes c ch = Some rt"
  using assms by (auto simp: calmer_def map_le_def dom_def)

lemma calmer_none:
  "calmer c c2 \<Longrightarrow> tcpConns c ch = None \<Longrightarrow> tcpConns c2 ch = None"
  "calmer c c2 \<Longrightarrow> udpRoutes c ch = None \<Longrightarrow> udpRoutes c2 ch = None"
  by (auto simp: calmer_def map_le_def dom_def)

lemma calmer_agrees: "calmer c c2 \<Longrightarrow> agrees c x ch \<Longrightarrow> agrees c2 x ch"
  by (cases x) (auto simp: calmer_none dest: calmer_tables)

lemma calm_client:
  "calmer c (finish_socks k c)" "calmer c (snd (client_write k data c))" "calmer c (closeTCP ch c)"
  "calmer c (closeUDP ch c)" "calmer c (signalOpen ch e c)" "calmer c (snd (client_TCPDATA f c))"
  "calmer c (snd (client_UDPDATA f c))" "calmer c (c\<lparr>net := break_conn k n b (net c)\<rparr>)"
  by (auto simp: calmer_def break_conn_def finish_socks_def client_write_def closeTCP_def closeUDP_def signalOpen_def
      client_TCPDATA_def client_UDPDATA_def WriteToUDP_def map_le_def split_beta Let_def
      split: option.split sum.split)

lemma calm_frame: "calmer c (fst (snd (client_HandleFrame f c s)))"
  using calm_client by (simp add: client_HandleFrame_def split_beta Let_def)

lemma calm_opened: "calmer c (snd (handleSocksConn_opened k ch r raw timed_out c))"
  using calm_client calmer_trans
  by (fastforce simp: handleSocksConn_opened_def split: option.split)

lemma calm_copy: "calmer (fst cs) (fst (snd (copyTCPToTunnel_iter ch rd ctx_done cs)))"
  using calm_client by (simp add: copyTCPToTunnel_iter_def split_beta Let_def)

text \<open>Such a step keeps the invariant, when a goroutine keeps or gives up what it owns.\<close>

definition eases :: "client_proc \<Rightarrow> client_proc \<Rightarrow> bool" where
  "eases p q \<longleftrightarrow> calmer (p_client p) (p_client q)
     \<and> (\<forall>x ch. owns q x ch \<longrightarrow> owns p x ch)
     \<and> dom (p_conns q) = dom (p_conns p)
     \<and> (\<forall>k st ch. p_conns p k = Some st \<longrightarrow> holds_chan ch st \<longrightarrow> (\<exists>st2. p_conns q k = Some st2 \<and> holds_chan ch st2))
     \<and> (sends_keyed p \<longrightarrow> sends_keyed q)"

lemma proc_inv_eases:
  assumes "proc_inv n p" and "eases p q"
  shows "proc_inv n q"
proof -
  have c: "calmer (p_client p) (p_client q)" and own: "\<And>x ch. owns q x ch \<Longrightarrow> owns p x ch"
    and dom: "dom (p_conns q) = dom (p_conns p)"
    and st: "\<And>k st ch. p_conns p k = Some st \<Longrightarrow> holds_chan ch st \<Longrightarrow> \<exists>st2. p_conns q k = Some st2 \<and> holds_chan ch st2"
    and sk: "sends_keyed p \<Longrightarrow> sends_keyed q"
    using assms(2) unfolding eases_def by blast+
  have i: "nextID (p_client p) = of_nat (n + 1)" "owned_once p" "owners_agree n p" "registered_old n (p_client p)"
    "registered_owned p" "registered_once (p_client p)" "conns_known p" "sends_keyed p"
    using assms(1) unfolding proc_inv_def by blast+
  note ct = calmer_tables [OF c]
  have "owned_once q" using i(2) own unfolding owned_once_def by blast
  moreover have "owners_agree n q" using i(3) own calmer_agrees [OF c] unfolding owners_agree_def by blast
  moreover have "registered_old n (p_client q)"
    using i(4) ct unfolding registered_old_def by (metis not_Some_eq)
  moreover have "registered_owned q" using i(5) ct(1) st unfolding registered_owned_def by blast
  moreover have "registered_once (p_client q)" using i(6) ct(1) unfolding registered_once_def by blast
  moreover have "conns_known q" using i(7) c dom unfolding conns_known_def calmer_def by simp
  ultimately show ?thesis using i(1,8) sk c unfolding proc_inv_def calmer_def by simp
qed

text \<open>How a goroutine's new state shows in what is owned.\<close>

lemma eases_client:
  assumes "calmer (p_client p) (p_client q)" and "p_conns q = p_conns p" and "p_assocs q = p_assocs p"
  shows "eases p q"
proof -
  have "owns q x ch = owns p x ch" for x ch using assms(2,3) by (cases x) simp_all
  then show ?thesis using assms by (simp add: eases_def sends_keyed_def)
qed

lemma eases_conn:
  assumes "calmer (p_client p) (p_client q)" and "p_conns q = (p_conns p)(k \<mapsto> st2)" and "p_assocs q = p_assocs p"
    and "p_conns p k = Some st" and "st2 = SocksDone \<or> conn_chan st2 = conn_chan st \<and> st \<noteq> SocksDone"
  shows "eases p q"
  unfolding eases_def
proof (intro conjI allI impI)
  fix x ch
  assume "owns q x ch"
  then show "owns p x ch" using assms(2-5) by (cases x) (auto split: if_splits)
next
  fix j st3 ch
  assume "p_conns p j = Some st3" "holds_chan ch st3"
  then show "\<exists>st2a. p_conns q j = Some st2a \<and> holds_chan ch st2a"
    using assms(2,4,5) by (auto simp: holds_chan_def)
qed (use assms in \<open>auto simp: sends_keyed_def\<close>)

lemma eases_assoc:
  assumes "calmer (p_client p) (p_client q)" and "p_conns q = p_conns p" and "p_assocs q = (p_assocs p)(u \<mapsto> a2)"
    and "\<And>key ch. keyed a2 key ch \<Longrightarrow> owns p (ByKey u key) ch"
    and "\<And>ch data. a_state a2 = USend ch data \<Longrightarrow> ch \<in> ran (channelForRemote a2)"
  shows "eases p q"
  unfolding eases_def
proof (intro conjI allI impI)
  fix x ch
  assume "owns q x ch"
  then show "owns p x ch" using assms(2,3,4) by (cases x) (auto split: if_splits)
next
  assume "sends_keyed p"
  then show "sends_keyed q" using assms(3,5) by (auto simp: sends_keyed_def)
qed (use assms in simp_all)

section \<open>Steps that open a channel\<close>

text \<open>A fresh identifier differs from all that were given out, until the counter wraps.\<close>

lemma fresh_id:
  assumes "nextID c = of_nat (n + 1)" and "n + 2 < 2 ^ 32"
  shows "unat (nextID c + 1) = n + 2" and "old_id (n + 1) (nextID c + 1)" and "\<not> old_id n (nextID c + 1)"
    and "nextID c + 1 = of_nat (n + 1 + 1)"
proof -
  show o: "nextID c + 1 = of_nat (n + 1 + 1)" by (simp add: assms(1))
  have "unat (of_nat m :: u32) = m" if "m < 2 ^ 32" for m
    using that by (simp add: unsigned_of_nat take_bit_nat_eq_self)
  from this [of "n + 1 + 1"] show u: "unat (nextID c + 1) = n + 2" unfolding o using assms(2) by simp
  then show "old_id (n + 1) (nextID c + 1)" "\<not> old_id n (nextID c + 1)" by (simp_all add: old_id_def)
qed

lemma old_id_mono: "old_id n ch \<Longrightarrow> old_id (n + 1) ch"
  by (simp add: old_id_def)

lemma proc_inv_fresh:
  assumes "proc_inv n p" and "n + 2 < 2 ^ 32"
  shows "\<not> owns p x (nextID (p_client p) + 1)" and "tcpConns (p_client p) (nextID (p_client p) + 1) = None"
    and "udpRoutes (p_client p) (nextID (p_client p) + 1) = None"
proof -
  have i: "nextID (p_client p) = of_nat (n + 1)" "owners_agree n p" "registered_old n (p_client p)"
    using assms(1) unfolding proc_inv_def by blast+
  note f = fresh_id(3) [OF i(1) assms(2)]
  show "\<not> owns p x (nextID (p_client p) + 1)" using f i(2) unfolding owners_agree_def by blast
  show "tcpConns (p_client p) (nextID (p_client p) + 1) = None" "udpRoutes (p_client p) (nextID (p_client p) + 1) = None"
    using f i(3) unfolding registered_old_def by blast+
qed

text \<open>A new connection, before its goroutine has opened anything.\<close>

lemma proc_inv_accept:
  assumes "proc_inv n p" and "accept_conn (p_client p) = (k, c)"
  shows "proc_inv n (p\<lparr>p_client := c, p_conns := (p_conns p)(k \<mapsto> SocksAssociated u)\<rparr>)" and "p_conns p k = None"
proof -
  let ?q = "p\<lparr>p_client := c, p_conns := (p_conns p)(k \<mapsto> SocksAssociated u)\<rparr>"
  have c: "k = next_sock (net (p_client p))" "tcpConns c = tcpConns (p_client p)" "udpRoutes c = udpRoutes (p_client p)"
    "nextID c = nextID (p_client p)" "next_sock (net c) = k + 1"
    using assms(2) by (auto simp: accept_conn_def Let_def)
  have i: "nextID (p_client p) = of_nat (n + 1)" "owned_once p" "owners_agree n p" "registered_old n (p_client p)"
    "registered_owned p" "registered_once (p_client p)" "conns_known p" "sends_keyed p"
    using assms(1) unfolding proc_inv_def by blast+
  show new: "p_conns p k = None" using i(7) c(1) by (force simp: conns_known_def dom_def)
  have own: "owns ?q x ch = owns p x ch" for x ch by (cases x) (simp_all add: new)
  have ag: "agrees c x ch = agrees (p_client p) x ch" for x ch by (cases x) (simp_all add: c)
  have "owned_once ?q" using i(2) own unfolding owned_once_def by blast
  moreover have "owners_agree n ?q" using i(3) own ag unfolding owners_agree_def by simp
  moreover have "registered_owned ?q" using i(5) new c(2) unfolding registered_owned_def by (auto simp: c) (metis option.distinct(1))
  moreover have "conns_known ?q" using i(7) c(1,5) unfolding conns_known_def by (auto simp: dom_def)
  ultimately show "proc_inv n ?q"
    using i(1,4,6,8) c unfolding proc_inv_def by (simp add: registered_old_def registered_once_def sends_keyed_def)
qed

definition reg_tcp :: "nat \<Rightarrow> tunnel_client \<Rightarrow> tunnel_client" where
  "reg_tcp k c = c\<lparr>nextID := nextID c + 1, tcpConns := (tcpConns c)(nextID c + 1 \<mapsto> k)\<rparr>"

lemma proc_inv_reg_tcp:
  assumes "proc_inv n p" and "n + 2 < 2 ^ 32" and "p_conns p k = Some (SocksAssociated u)"
  shows "proc_inv (n + 1) (p\<lparr>p_client := reg_tcp k (p_client p),
    p_conns := (p_conns p)(k \<mapsto> SocksCopying (nextID (p_client p) + 1))\<rparr>)"
proof -
  let ?new = "nextID (p_client p) + 1"
  let ?c = "reg_tcp k (p_client p)"
  let ?q = "p\<lparr>p_client := ?c, p_conns := (p_conns p)(k \<mapsto> SocksCopying ?new)\<rparr>"
  have i: "nextID (p_client p) = of_nat (n + 1)" "owned_once p" "owners_agree n p" "registered_old n (p_client p)"
    "registered_owned p" "registered_once (p_client p)" "conns_known p" "sends_keyed p"
    using assms(1) unfolding proc_inv_def by blast+
  note fresh = fresh_id [OF i(1) assms(2)] and none = proc_inv_fresh [OF assms(1,2)]
  have unreg: "tcpConns (p_client p) ch \<noteq> Some k" for ch
  proof
    assume "tcpConns (p_client p) ch = Some k"
    then obtain st where "p_conns p k = Some st" "holds_chan ch st"
      using i(5) unfolding registered_owned_def by blast
    then show False using assms(3) by (auto simp: holds_chan_def)
  qed
  have own: "owns ?q x ch \<longleftrightarrow> (if x = ByConn k then ch = ?new else owns p x ch)" for x ch
    by (cases x) auto
  have ow: "owns p (ByConn k) ch = False" for ch by (simp add: assms(3))
  have "owned_once ?q" unfolding owned_once_def own using i(2) none(1) by (auto simp: owned_once_def simp del: owns.simps)
  moreover have "owners_agree (n + 1) ?q"
    unfolding owners_agree_def own
  proof (intro allI impI)
    fix ch x
    assume o: "if x = ByConn k then ch = ?new else owns p x ch"
    show "old_id (n + 1) ch \<and> agrees (p_client ?q) x ch"
    proof (cases "x = ByConn k")
      case True
      then show ?thesis using o fresh(2) none(3) by (simp add: reg_tcp_def)
    next
      case False
      then have "owns p x ch" using o by simp
      then have "ch \<noteq> ?new" "old_id n ch" "agrees (p_client p) x ch"
        using none(1) i(3) unfolding owners_agree_def by blast+
      then show ?thesis using old_id_mono by (cases x) (simp_all add: reg_tcp_def)
    qed
  qed
  moreover have "registered_old (n + 1) ?c"
    using i(4) fresh(2) old_id_mono by (auto simp: registered_old_def reg_tcp_def)
  moreover have "registered_owned ?q"
    using i(5) unreg by (auto simp: registered_owned_def reg_tcp_def holds_chan_def)
  moreover have "registered_once ?c"
    using i(6) unreg by (auto simp: registered_once_def reg_tcp_def)
  moreover have "conns_known ?q" using i(7) assms(3) by (auto simp: conns_known_def reg_tcp_def dom_def)
  ultimately show ?thesis
    using i(8) fresh(4) unfolding proc_inv_def by (simp add: sends_keyed_def reg_tcp_def)
qed

definition reg_udp :: "nat \<Rightarrow> string \<Rightarrow> string \<Rightarrow> tunnel_client \<Rightarrow> tunnel_client" where
  "reg_udp u peer addr c = c\<lparr>nextID := nextID c + 1,
     udpRoutes := (udpRoutes c)(nextID c + 1 \<mapsto> \<lparr>r_conn = u, r_peer = peer, r_target = addr\<rparr>)\<rparr>"

lemma proc_inv_reg_udp:
  assumes "proc_inv n p" and "n + 2 < 2 ^ 32" and "p_assocs p u = Some a" and "a_state a = USkip"
  shows "proc_inv (n + 1) (p\<lparr>p_client := reg_udp u peer addr (p_client p), p_assocs := (p_assocs p)(u \<mapsto>
    a\<lparr>a_state := UOpening (peer @ ''|'' @ addr) (nextID (p_client p) + 1) r data\<rparr>)\<rparr>)"
proof -
  let ?new = "nextID (p_client p) + 1" and ?key = "peer @ ''|'' @ addr"
  let ?c = "reg_udp u peer addr (p_client p)"
  let ?q = "p\<lparr>p_client := ?c, p_assocs := (p_assocs p)(u \<mapsto> a\<lparr>a_state := UOpening ?key ?new r data\<rparr>)\<rparr>"
  have i: "nextID (p_client p) = of_nat (n + 1)" "owned_once p" "owners_agree n p" "registered_old n (p_client p)"
    "registered_owned p" "registered_once (p_client p)" "conns_known p" "sends_keyed p"
    using assms(1) unfolding proc_inv_def by blast+
  note fresh = fresh_id [OF i(1) assms(2)] and none = proc_inv_fresh [OF assms(1,2)]
  have own: "owns ?q x ch \<longleftrightarrow> owns p x ch \<or> x = ByKey u ?key \<and> ch = ?new" for x ch
    using assms(3,4) by (cases x) (auto simp: keyed_def)
  have "owned_once ?q" unfolding owned_once_def own using i(2) none(1) by (auto simp: owned_once_def simp del: owns.simps)
  moreover have "owners_agree (n + 1) ?q"
    unfolding owners_agree_def own
  proof (intro allI impI)
    fix ch x
    assume o: "owns p x ch \<or> x = ByKey u ?key \<and> ch = ?new"
    then show "old_id (n + 1) ch \<and> agrees (p_client ?q) x ch"
    proof
      assume "owns p x ch"
      then have "ch \<noteq> ?new" "old_id n ch" "agrees (p_client p) x ch"
        using none(1) i(3) unfolding owners_agree_def by blast+
      then show ?thesis using old_id_mono by (cases x) (simp_all add: reg_udp_def)
    next
      assume "x = ByKey u ?key \<and> ch = ?new"
      then show ?thesis using fresh(2) none(2) by (simp add: reg_udp_def)
    qed
  qed
  moreover have "registered_old (n + 1) ?c"
    using i(4) fresh(2) old_id_mono by (auto simp: registered_old_def reg_udp_def)
  moreover have "registered_owned ?q" using i(5) by (simp add: registered_owned_def reg_udp_def)
  moreover have "registered_once ?c" using i(6) by (simp add: registered_once_def reg_udp_def)
  moreover have "conns_known ?q" using i(7) by (simp add: conns_known_def reg_udp_def)
  moreover have "sends_keyed ?q" using i(8) by (auto simp: sends_keyed_def)
  ultimately show ?thesis using fresh(4) unfolding proc_inv_def by (simp add: reg_udp_def)
qed


section \<open>Every step keeps the invariant\<close>

lemma socks_begin_cases:
  assumes "handleSocksConn_begin k rd listen (c, s) = (st, rd2, c2, s2)"
  shows "calmer c c2 \<and> conn_chan st = None
    \<or> calmer (reg_tcp k c) c2 \<and> (st = SocksDone \<or> conn_chan st = Some (nextID c + 1))"
proof -
  obtain req rd1 w where r: "socks_request k rd (net c) = (req, rd1, w)" by (metis prod_cases3)
  have "next_sock (snd (snd (socks_request k rd (net c)))) = next_sock (net c)"
    by (auto simp: socks_request_def split_beta split: sum.split option.split)
  then have c: "calmer c (c\<lparr>net := w\<rparr>)" using r by (simp add: calmer_def)
  show ?thesis
  proof (cases req)
    case None
    then show ?thesis
      using assms r c calmer_trans [OF c calm_client(1)] by (auto simp: handleSocksConn_begin_def)
  next
    case (Some x)
    obtain cmd addr raw where x: "x = (cmd, addr, raw)" by (metis prod_cases3)
    show ?thesis
    proof (cases "cmd = 0x01")
      case True
      obtain e c3 s3 where o: "openTCPChannel_start addr k (c\<lparr>net := w\<rparr>, s) = (e, c3, s3)" by (metis prod_cases3)
      have c3: "calmer (reg_tcp k c) c3"
        using start_TCP_simps [of addr k "(c\<lparr>net := w\<rparr>, s)"] c unfolding o by (simp add: calmer_def reg_tcp_def)
      have ch: "a = nextID c + 1" if "e = Inr (a, b)" for a b
        using o that by (auto simp: openTCPChannel_start_def nextChannel_def split_beta Let_def split: option.splits)
      show ?thesis
      proof (cases e)
        case (Inl err)
        then have "st = SocksDone" "c2 = finish_socks k (snd (client_write k (socks_reply 0x01) c3))"
          using assms r Some x True o by (auto simp: handleSocksConn_begin_def)
        then show ?thesis using calmer_trans [OF c3 calmer_trans [OF calm_client(2,1)]] by simp
      next
        case (Inr y)
        then obtain a b where "e = Inr (a, b)" by (cases y) simp
        then have "st = SocksOpening a b raw" "c2 = c3"
          using assms r Some x True o by (auto simp: handleSocksConn_begin_def)
        then show ?thesis using c3 ch [OF \<open>e = Inr (a, b)\<close>] by simp
      qed
    next
      case False
      have w: "calmer c (snd (client_write k data (c\<lparr>net := w\<rparr>)))" for data
        by (rule calmer_trans [OF c calm_client(2)])
      have f: "calmer c (finish_socks k (snd (client_write k data (c\<lparr>net := w\<rparr>))))" "calmer c (finish_socks k (c\<lparr>net := w\<rparr>))" for data
        by (rule calmer_trans [OF w calm_client(1)], rule calmer_trans [OF c calm_client(1)])
      have wr: "calmer c c4" "calmer c (finish_socks k c4)" if "client_write k data (c\<lparr>net := w\<rparr>) = (e, c4)" for data e c4
        using w [of data] f(1) [of data] that by simp_all
      show ?thesis
        using assms r Some x False f wr
        by (auto simp: handleSocksConn_begin_def Let_def split: if_splits sum.splits option.splits prod.splits)
    qed
  qed
qed

lemma proc_inv_step_accept:
  assumes "proc_inv n p" and "n + 2 < 2 ^ 32" and "step_accept rd listen p = Some q"
  shows "\<exists>m \<le> n + 1. proc_inv m q"
proof -
  obtain k c1 where k: "accept_conn (p_client p) = (k, c1)" by (metis prod.exhaust)
  obtain st rd2 c2 s2 where b: "handleSocksConn_begin k rd listen (c1, p_session p) = (st, rd2, c2, s2)"
    by (metis prod_cases4)
  define p1 where "p1 = p\<lparr>p_client := c1, p_conns := (p_conns p)(k \<mapsto> SocksAssociated 0)\<rparr>"
  define p2 where "p2 = p\<lparr>p_client := c2, p_session := s2, p_conns := (p_conns p)(k \<mapsto> st)\<rparr>"
  have i1: "proc_inv n p1" using proc_inv_accept(1) [OF assms(1) k] by (simp add: p1_def)
  have "\<exists>m \<le> n + 1. proc_inv m p2"
    using socks_begin_cases [OF b]
  proof
    assume "calmer c1 c2 \<and> conn_chan st = None"
    then have "eases p1 p2" by (intro eases_conn [of _ _ k st "SocksAssociated 0"]) (simp_all add: p1_def p2_def)
    from proc_inv_eases [OF i1 this] show ?thesis by (intro exI [of _ n]) simp
  next
    let ?p = "p1\<lparr>p_client := reg_tcp k (p_client p1), p_conns := (p_conns p1)(k \<mapsto> SocksCopying (nextID (p_client p1) + 1))\<rparr>"
    assume "calmer (reg_tcp k c1) c2 \<and> (st = SocksDone \<or> conn_chan st = Some (nextID c1 + 1))"
    then have "eases ?p p2"
      by (intro eases_conn [of _ _ k st "SocksCopying (nextID c1 + 1)"]) (auto simp: p1_def p2_def)
    moreover have "proc_inv (n + 1) ?p"
      by (rule proc_inv_reg_tcp [OF i1 assms(2)]) (simp add: p1_def)
    ultimately show ?thesis using proc_inv_eases by blast
  qed
  moreover have "q = p2 \<or> (\<exists>u. p_assocs p u = None \<and> q = p2\<lparr>p_assocs := (p_assocs p)(u \<mapsto>
      \<lparr>a_conn = k, channelForRemote = Map.empty, a_state = USkip, a_runs = True\<rparr>)\<rparr>)"
    using assms(3) k b by (auto simp: step_accept_def p2_def Let_def split: socks_state.splits if_splits)
  moreover have "eases p2 (p2\<lparr>p_assocs := (p_assocs p)(u \<mapsto>
      \<lparr>a_conn = k, channelForRemote = Map.empty, a_state = USkip, a_runs = True\<rparr>)\<rparr>)" for u
    by (rule eases_assoc [of _ _ u "\<lparr>a_conn = k, channelForRemote = Map.empty, a_state = USkip, a_runs = True\<rparr>"])
      (simp_all add: p2_def keyed_def)
  ultimately show ?thesis using proc_inv_eases by blast
qed

lemma udp_recv_cases:
  assumes "udp_associate_recv u buf peer m (c, s) = (st, c2, s2)"
  obtains (skip) "st = USkip" "c2 = c"
    | (send) ch data key where "st = USend ch data" "c2 = c" "m key = Some ch"
    | (lost) addr where "st = USkip" "calmer (reg_udp u peer addr c) c2"
    | (pending) addr k data where "st = UOpening (peer @ ''|'' @ addr) (nextID c + 1) k data"
        "calmer (reg_udp u peer addr c) c2"
proof (cases "length buf < 10 \<or> isl (readPacketAddr (drop 3 buf))")
  case True
  then show thesis
    using assms by (intro skip) (auto simp: udp_associate_recv_def Let_def split: if_splits sum.splits)
next
  case False
  then obtain addr hn where a: "readPacketAddr (drop 3 buf) = Inr (addr, hn)"
    by (cases "readPacketAddr (drop 3 buf)") auto
  let ?hlen = "packetAddrLen (drop 3 buf) (buf ! 3)" and ?key = "peer @ ''|'' @ addr"
  show thesis
  proof (cases "?hlen \<le> 0 \<or> ?hlen > length buf")
    case True
    then show thesis
      using assms False a by (intro skip) (auto simp: udp_associate_recv_def Let_def split: if_splits)
  next
    case fits: False
    show thesis
    proof (cases "m ?key")
      case (Some ch)
      then show thesis
        using assms False fits a by (intro send [OF _ _ Some]) (auto simp: udp_associate_recv_def Let_def)
    next
      case None
      obtain e c3 s3 where o: "openUDPChannel_start addr u peer (c, s) = (e, c3, s3)" by (metis prod_cases3)
      have c3: "calmer (reg_udp u peer addr c) c3"
        using start_UDP_simps [of addr u peer "(c, s)"] unfolding o by (simp add: calmer_def reg_udp_def)
      show thesis
      proof (cases e)
        case (Inl err)
        then show thesis
          using assms False fits a None o c3
          by (intro lost [of addr]) (auto simp: udp_associate_recv_def Let_def)
      next
        case (Inr y)
        then obtain ch k where y: "e = Inr (ch, k)" by (cases y) simp
        then have "ch = nextID c + 1"
          using o by (auto simp: openUDPChannel_start_def nextChannel_def split_beta Let_def split: option.splits)
        then show thesis
          using assms False fits a None o y c3
          by (intro pending [of addr k]) (auto simp: udp_associate_recv_def Let_def)
      qed
    qed
  qed
qed

lemma proc_inv_step_packet:
  assumes "proc_inv n p" and "n + 2 < 2 ^ 32" and "step_packet u buf peer p = Some q"
  shows "\<exists>m \<le> n + 1. proc_inv m q"
proof -
  obtain a where a: "p_assocs p u = Some a" "a_state a = USkip"
    using assms(3) by (auto simp: step_packet_def split: option.splits if_splits)
  obtain st c s where r: "udp_associate_recv u buf peer (channelForRemote a) (p_client p, p_session p) = (st, c, s)"
    by (metis prod_cases3)
  have q: "q = p\<lparr>p_client := c, p_session := s, p_assocs := (p_assocs p)(u \<mapsto> a\<lparr>a_state := st\<rparr>)\<rparr>"
    using assms(3) a r by (auto simp: step_packet_def split: if_splits)
  from r show ?thesis
  proof (cases rule: udp_recv_cases)
    case skip
    then have "eases p q" by (intro eases_assoc [of _ _ u "a\<lparr>a_state := st\<rparr>"]) (simp_all add: q a keyed_def)
    then show ?thesis using proc_inv_eases [OF assms(1)] by (intro exI [of _ n]) simp
  next
    case (send ch data key)
    then have "eases p q"
      by (intro eases_assoc [of _ _ u "a\<lparr>a_state := st\<rparr>"]) (auto simp: q a keyed_def intro: ranI)
    then show ?thesis using proc_inv_eases [OF assms(1)] by (intro exI [of _ n]) simp
  next
    case (lost addr)
    let ?p = "p\<lparr>p_client := reg_udp u peer addr (p_client p), p_assocs := (p_assocs p)(u \<mapsto>
      a\<lparr>a_state := UOpening (peer @ ''|'' @ addr) (nextID (p_client p) + 1) 0 []\<rparr>)\<rparr>"
    have "eases ?p q"
      using lost by (intro eases_assoc [of _ _ u "a\<lparr>a_state := st\<rparr>"]) (simp_all add: q keyed_def)
    with proc_inv_reg_udp [OF assms(1,2) a] show ?thesis using proc_inv_eases by blast
  next
    case (pending addr k data)
    let ?p = "p\<lparr>p_client := reg_udp u peer addr (p_client p), p_assocs := (p_assocs p)(u \<mapsto>
      a\<lparr>a_state := UOpening (peer @ ''|'' @ addr) (nextID (p_client p) + 1) k data\<rparr>)\<rparr>"
    have "eases ?p q"
      using pending by (intro eases_assoc [of _ _ u "a\<lparr>a_state := st\<rparr>"]) (simp_all add: q keyed_def)
    with proc_inv_reg_udp [OF assms(1,2) a] show ?thesis using proc_inv_eases by blast
  qed
qed


lemma udp_associate_opened_cases:
  assumes "udp_associate_opened timed_out key ch r data m c = (st, m2)"
  shows "m2 = m \<and> (st = USkip \<or> st = UOpening key ch r data) \<or> m2 = m(key \<mapsto> ch) \<and> st = USend ch data"
  using assms by (auto simp: udp_associate_opened_def open_result_def split: if_splits option.splits)

lemma proc_inv_step:
  assumes "proc_inv n p" and "n + 2 < 2 ^ 32" and "proc_step ev p = Some q"
  shows "\<exists>m \<le> n + 1. proc_inv m q"
proof -
  have eases: "eases p q \<Longrightarrow> \<exists>m \<le> n + 1. proc_inv m q"
    using proc_inv_eases [OF assms(1)] by (intro exI [of _ n]) simp
  show ?thesis
  proof (cases ev)
    case (PAccept rd listen)
    then show ?thesis using proc_inv_step_accept [OF assms(1,2)] assms(3) by simp
  next
    case (PPacket u buf peer)
    then show ?thesis using proc_inv_step_packet [OF assms(1,2)] assms(3) by simp
  next
    case (POpened k timed_out)
    then obtain ch r raw where st: "p_conns p k = Some (SocksOpening ch r raw)"
      using assms(3) by (auto simp: step_opened_def split: option.splits socks_state.splits)
    obtain st2 c where h: "handleSocksConn_opened k ch r raw timed_out (p_client p) = (st2, c)" by (metis prod.exhaust)
    have "st2 = SocksDone \<or> conn_chan st2 = Some ch"
      using h by (auto simp: handleSocksConn_opened_def open_result_def split: if_splits option.splits)
    moreover have "calmer (p_client p) c" using calm_opened [of "p_client p" k ch r raw timed_out] h by simp
    moreover have "q = p\<lparr>p_client := c, p_conns := (p_conns p)(k \<mapsto> st2)\<rparr>"
      using assms(3) POpened st h by (simp add: step_opened_def)
    ultimately show ?thesis by (intro eases eases_conn [of _ _ k st2 "SocksOpening ch r raw"]) (simp_all add: st)
  next
    case (PCopy k rd ctx_done)
    then obtain ch where st: "p_conns p k = Some (SocksCopying ch)"
      using assms(3) by (auto simp: step_copy_def split: option.splits socks_state.splits)
    obtain on c s where h: "copyTCPToTunnel_iter ch rd ctx_done (p_client p, p_session p) = (on, c, s)" by (metis prod_cases3)
    have c: "calmer (p_client p) c" "calmer (p_client p) (finish_socks k c)"
      using calm_copy [of "(p_client p, p_session p)" ch rd ctx_done] h calmer_trans [OF _ calm_client(1)] by simp_all
    show ?thesis
    proof (cases on)
      case True
      then show ?thesis
        using assms(3) PCopy st h c by (intro eases eases_client) (auto simp: step_copy_def)
    next
      case False
      then show ?thesis
        using assms(3) PCopy st h c
        by (intro eases eases_conn [of _ _ k SocksDone "SocksCopying ch"]) (auto simp: step_copy_def)
    qed
  next
    case (PDone k)
    then obtain u where st: "p_conns p k = Some (SocksAssociated u)"
      and q: "q = p\<lparr>p_client := finish_socks k (p_client p), p_conns := (p_conns p)(k \<mapsto> SocksDone)\<rparr>"
      using assms(3) by (auto simp: step_done_def split: option.splits socks_state.splits)
    show ?thesis
      unfolding q by (intro eases [unfolded q] eases_conn [of _ _ k SocksDone "SocksAssociated u"]) (simp_all add: st calm_client)
  next
    case (PUDPOpened u timed_out)
    then obtain a key ch r data where a: "p_assocs p u = Some a" "a_state a = UOpening key ch r data"
      using assms(3) by (auto simp: step_udp_opened_def split: option.splits udp_progress.splits)
    obtain st m where h: "udp_associate_opened timed_out key ch r data (channelForRemote a) (p_client p) = (st, m)"
      by (metis prod.exhaust)
    have q: "q = p\<lparr>p_assocs := (p_assocs p)(u \<mapsto> a\<lparr>channelForRemote := m, a_state := st\<rparr>)\<rparr>"
      using assms(3) PUDPOpened a h by (simp add: step_udp_opened_def)
    have st: "st = USkip \<and> m = channelForRemote a \<or> st = UOpening key ch r data \<and> m = channelForRemote a
        \<or> st = USend ch data \<and> m = (channelForRemote a)(key \<mapsto> ch)"
      using udp_associate_opened_cases [OF h] by blast
    have "eases p q"
      by (rule eases_assoc [of _ _ u "a\<lparr>channelForRemote := m, a_state := st\<rparr>"])
        (use st in \<open>auto simp: q a keyed_def intro: ranI [of _ key] split: if_splits\<close>)
    then show ?thesis by (rule eases)
  next
    case (PUDPSend u nano milli)
    then obtain a ch data where a: "p_assocs p u = Some a" "a_state a = USend ch data"
      using assms(3) by (auto simp: step_udp_send_def split: option.splits udp_progress.splits)
    have "eases p q"
      by (rule eases_assoc [of _ _ u "a\<lparr>a_state := USkip\<rparr>"])
        (use assms(3) PUDPSend a in \<open>auto simp: step_udp_send_def keyed_def\<close>)
    then show ?thesis by (rule eases)
  next
    case (PSocketFails u)
    then obtain a where a: "p_assocs p u = Some a" "a_state a = USkip"
      using assms(3) by (auto simp: step_socket_fails_def split: option.splits if_splits)
    have "eases p q"
      by (rule eases_assoc [of _ _ u "a\<lparr>a_runs := False\<rparr>"])
        (use assms(3) PSocketFails a in \<open>auto simp: step_socket_fails_def keyed_def split: if_splits\<close>)
    then show ?thesis by (rule eases)
  next
    case (PFrame f)
    then show ?thesis
      using assms(3) calm_frame [of "p_client p" f "p_session p"]
      by (intro eases eases_client) (auto simp: step_frame_def split_beta Let_def)
  qed (use assms(3) in \<open>intro eases eases_client; auto simp: calm_client\<close>)+
qed

lemma proc_inv_run:
  assumes "proc_run evs p = Some q" and "proc_inv n p" and "n + length evs + 1 < 2 ^ 32"
  shows "\<exists>m \<le> n + length evs. proc_inv m q"
  using assms
proof (induction evs arbitrary: p n)
  case (Cons ev evs)
  then obtain p1 where p1: "proc_step ev p = Some p1" "proc_run evs p1 = Some q"
    by (cases "proc_step ev p") auto
  obtain m where m: "m \<le> n + 1" "proc_inv m p1"
    using proc_inv_step [OF Cons.prems(2) _ p1(1)] Cons.prems(3) by auto
  with Cons.IH [OF p1(2) m(2)] Cons.prems(3) obtain l where "l \<le> m + length evs" "proc_inv l q" by auto
  then show ?case using m(1) by (intro exI [of _ l]) simp
qed auto

section \<open>Properties of the client's goroutines\<close>

text \<open>A demonstration: a connection is accepted, asks for ab:80 and gets its channel.\<close>

definition demo_connect :: reader where
  "demo_connect = \<lparr>avail = [0x05, 1] @ [0] @ [0x05, 0x01, 0] @ name_header ''ab'' 80, end_err = EOF\<rparr>"

definition demo_proc :: client_proc where
  "demo_proc = proc_start (newTunnelClient (new_network (\<lambda>_ _. None)) (\<lambda>_. Inl EOF)) demo_session"

definition demo_connected :: "proc_event list" where
  "demo_connected = [PAccept demo_connect (Inl EOF), PFrame (data_frame FrameOPENOK 2 []), POpened 0 False]"

lemma demo_proc_run:
  obtains p where "proc_run demo_connected demo_proc = Some p" and "p_conns p 0 = Some (SocksCopying 2)"
    and "tcpConns (p_client p) 2 = Some 0" and "healthy 0 (net (p_client p))" and "next_sock (net (p_client p)) = 1"
    and "delivered 0 (net (p_client p)) = [[0x05, 0x00], [0x05, 0x00, 0x00] @ name_header ''ab'' 80]"
proof -
  let ?c0 = "newTunnelClient (new_network (\<lambda>_ _. None)) (\<lambda>_. Inl EOF)"
  obtain c1 where c1: "accept_conn ?c0 = (0, c1)" "healthy 0 (net c1)" "delivered 0 (net c1) = []" "nextID c1 = 1" "next_chan c1 = 0"
    "next_sock (net c1) = 1" "openResults c1 = Map.empty" "tcpConns c1 = Map.empty"
    by (simp add: accept_conn_def newTunnelClient_def new_network_def healthy_def delivered_def Let_def)
  have a: "avail demo_connect = [0x05, of_nat (length [0 :: byte])] @ [0] @ [0x05, 0x01, 0] @ name_header ''ab'' 80 @ []"
    by (simp add: demo_connect_def)
  have wf: "session_wf demo_session" and e: "q_list (controlQ demo_session) = []"
    using session_wf_New by (simp_all add: demo_session_def New_simps(1) [of Control, simplified])
  have "length (host_port ''ab'' 80) = 5" by (simp add: host_port_def JoinHostPort_def decimal.simps)
  then have r: "control_room demo_session (data_frame FrameOPENTCP (nextID c1 + 1) (EncodeAddress (host_port ''ab'' 80)))"
    using e by (simp add: control_room_def data_frame_def EncodeAddress_def)
  obtain st rd2 c2 s2 where run: "handleSocksConn_begin 0 demo_connect (Inl EOF) (c1, demo_session) = (st, rd2, c2, s2)"
    by (metis prod_cases4)
  note b = connect_begin [OF a _ _ c1(2) wf r run, where ip = "[]" and host = "''ab''" and port = 80]
  have st: "st = SocksOpening 2 0 (name_header ''ab'' 80)" using b c1(4,5) by simp
  have c2: "net c2 = snd (sock_write 0 [0x05, 0x00] (net c1))" "openResults c2 2 = Some 0" "tcpConns c2 2 = Some 0"
    using b c1(4,5) by simp_all
  define p1 where "p1 = demo_proc\<lparr>p_client := c2, p_session := s2, p_conns := [0 \<mapsto> st]\<rparr>"
  have s1: "proc_step (PAccept demo_connect (Inl EOF)) demo_proc = Some p1"
    using c1(1) run st by (simp add: step_accept_def demo_proc_def proc_start_def p1_def)
  let ?c3 = "signalOpen 2 None c2"
  have s2: "proc_step (PFrame (data_frame FrameOPENOK 2 [])) p1 = Some (p1\<lparr>p_client := ?c3\<rparr>)"
    by (simp add: step_frame_def p1_def client_HandleFrame_def new_frame_simps)
  have c3: "net ?c3 = net c2" "chans ?c3 0 = Some None" "tcpConns ?c3 = tcpConns c2"
    using c2(2) by (simp_all add: signalOpen_def Let_def)
  let ?c4 = "snd (handleSocksConn_opened 0 2 0 (name_header ''ab'' 80) False ?c3)"
  let ?p = "p1\<lparr>p_client := ?c4, p_conns := [0 \<mapsto> SocksCopying 2]\<rparr>"
  have h2: "healthy 0 (net c2)" "delivered 0 (net c2) = [[0x05, 0x00]]"
    using sock_write_healthy [OF c1(2), of "[0x05, 0x00]"] c1(3) c2(1) by simp_all
  have o: "fst (handleSocksConn_opened 0 2 0 (name_header ''ab'' 80) False ?c3) = SocksCopying 2"
    "net ?c4 = snd (sock_write 0 ([0x05, 0x00, 0x00] @ name_header ''ab'' 80) (net c2))" "tcpConns ?c4 = tcpConns c2"
    using c3 by (simp_all add: handleSocksConn_opened_def open_result_def client_write_def split_beta Let_def)
  have s3: "proc_step (POpened 0 False) (p1\<lparr>p_client := ?c3\<rparr>) = Some ?p"
    using st o(1) by (simp add: step_opened_def p1_def split_beta)
  have run3: "proc_run demo_connected demo_proc = Some ?p"
    unfolding demo_connected_def proc_run.simps s1 s2 s3 Option.bind.bind_lunit ..
  have "next_sock (net ?c4) = 1" using o(2) c2(1) c1(6) by simp
  then show thesis
    using that [OF run3] o(2,3) c2(3) sock_write_healthy [OF h2(1), of "[0x05, 0x00, 0x00] @ name_header ''ab'' 80"] h2(2)
    by (simp add: p1_def)
qed

text \<open>C9. Channels are never shared: in any run of the client program, with any number of SOCKS
  connections and UDP associations at work in any order, until the identifiers wrap, every channel
  that was opened has one owner, a connection or one peer and target of an association; what the
  client has registered for the channel is this owner's connection or route and nothing else; and a
  connection is registered for one channel at most.  So neither the data of two connections nor the
  replies to two peers can be mixed up.\<close>

theorem channels_never_shared:
  assumes "proc_run evs (proc_start (newTunnelClient w sv) s) = Some p" and "length evs < 2 ^ 32 - 1"
  shows "(\<forall>ch x y. owns p x ch \<and> owns p y ch \<longrightarrow> x = y)
    \<and> (\<forall>ch x. owns p x ch \<longrightarrow> agrees (p_client p) x ch)
    \<and> (\<forall>ch k. tcpConns (p_client p) ch = Some k \<longrightarrow> (\<exists>st. p_conns p k = Some st \<and> holds_chan ch st))
    \<and> (\<forall>ch ch2 k. tcpConns (p_client p) ch = Some k \<and> tcpConns (p_client p) ch2 = Some k \<longrightarrow> ch = ch2)
    \<and> (\<forall>u a ch data. p_assocs p u = Some a \<and> a_state a = USend ch data \<longrightarrow> (\<exists>key. owns p (ByKey u key) ch))"
proof -
  have "0 + length evs + 1 < 2 ^ 32" using assms(2) by simp
  from proc_inv_run [OF assms(1) proc_inv_start this] obtain n where "proc_inv n p" by blast
  then have i: "owned_once p" "owners_agree n p" "registered_owned p" "registered_once (p_client p)" "sends_keyed p"
    unfolding proc_inv_def by blast+
  have "\<exists>key. owns p (ByKey u key) ch" if "p_assocs p u = Some a" "a_state a = USend ch data" for u a ch data
    using i(5) that unfolding sends_keyed_def by (force simp: ran_def keyed_def)
  then show ?thesis
    using i(1-4) unfolding owned_once_def owners_agree_def registered_owned_def registered_once_def by blast
qed

theorem channels_never_shared_witness:
  "\<exists>p. proc_run demo_connected demo_proc = Some p \<and> owns p (ByConn 0) 2
    \<and> (\<forall>y. owns p y 2 \<longrightarrow> y = ByConn 0) \<and> udpRoutes (p_client p) 2 = None"
proof -
  obtain p where p: "proc_run demo_connected demo_proc = Some p" "p_conns p 0 = Some (SocksCopying 2)"
    by (rule demo_proc_run)
  have own: "owns p (ByConn 0) 2" using p(2) by simp
  have l: "length demo_connected < 2 ^ 32 - 1" by (simp add: demo_connected_def)
  from channels_never_shared [OF p(1) [unfolded demo_proc_def] l] own
  have "\<forall>y. owns p y 2 \<longrightarrow> y = ByConn 0" "agrees (p_client p) (ByConn 0) 2" by blast+
  with p(1) own show ?thesis by auto
qed

text \<open>The steps that leave connection \<open>k\<close> and its channel open.\<close>

definition leaves_conn :: "u32 \<Rightarrow> nat \<Rightarrow> proc_event \<Rightarrow> bool" where
  "leaves_conn ch k ev =
     (case ev of
        PFrame f \<Rightarrow> client_keeps ch f
      | PCopy j rd ctx_done \<Rightarrow> j = k \<longrightarrow> snd rd = None \<and> \<not> ctx_done
      | PBreaks j n e \<Rightarrow> j \<noteq> k
      | _ \<Rightarrow> True)"

fun handled_frames :: "proc_event list \<Rightarrow> frame list" where
  "handled_frames [] = []"
| "handled_frames (PFrame f # evs) = f # handled_frames evs"
| "handled_frames (_ # evs) = handled_frames evs"

definition copying :: "u32 \<Rightarrow> nat \<Rightarrow> client_proc \<Rightarrow> bool" where
  "copying ch k p \<longleftrightarrow> p_conns p k = Some (SocksCopying ch) \<and> client_good ch k (p_client p)"

lemma client_good_accept:
  assumes "client_good ch k c" and "accept_conn c = (j, c2)" and "k < next_sock (net c)"
  shows "client_good ch k c2 \<and> delivered k (net c2) = delivered k (net c) \<and> j \<noteq> k \<and> nextID c2 = nextID c"
proof -
  have "sockets (net c2) k = sockets (net c) k" "tcpConns c2 = tcpConns c" "j \<noteq> k" "nextID c2 = nextID c"
    using assms(2,3) by (auto simp: accept_conn_def Let_def)
  with assms(1) show ?thesis by (simp add: client_good_def healthy_def delivered_def)
qed

lemma copying_step:
  assumes "proc_inv n p" and "n + 2 < 2 ^ 32" and "copying ch k p" and "leaves_conn ch k ev" and "proc_step ev p = Some q"
  shows "copying ch k q \<and> delivered k (net (p_client q)) = delivered k (net (p_client p)) @ tcp_payloads ch (handled_frames [ev])"
proof -
  have st: "p_conns p k = Some (SocksCopying ch)" and good: "client_good ch k (p_client p)"
    using assms(3) by (simp_all add: copying_def)
  have own: "owns p (ByConn k) ch" by (simp add: st)
  have i: "owned_once p" "conns_known p" using assms(1) unfolding proc_inv_def by blast+
  have other: "ch2 \<noteq> ch" if "owns p x ch2" "x \<noteq> ByConn k" for x ch2
    using i(1) own that unfolding owned_once_def by blast
  have fresh: "nextID (p_client p) + 1 \<noteq> ch" using proc_inv_fresh(1) [OF assms(1,2)] own by blast
  have known: "k < next_sock (net (p_client p))" using i(2) st by (auto simp: conns_known_def)
  show ?thesis
  proof (cases ev)
    case (PAccept rd listen)
    obtain j c1 where j: "accept_conn (p_client p) = (j, c1)" by (metis prod.exhaust)
    obtain st2 rd2 c2 s2 where b: "handleSocksConn_begin j rd listen (c1, p_session p) = (st2, rd2, c2, s2)"
      by (metis prod_cases4)
    note a = client_good_accept [OF good j known]
    have "client_good ch k c2 \<and> delivered k (net c2) = delivered k (net c1)"
      using client_socks_begin [of ch k "(c1, p_session p)" j rd listen] a fresh b by simp
    moreover have "p_client q = c2 \<and> p_conns q k = p_conns p k"
      using assms(5) PAccept j b a by (cases st2) (auto simp: step_accept_def Let_def split: if_splits)
    ultimately show ?thesis using a st by (simp add: copying_def PAccept)
  next
    case (POpened j timed_out)
    then obtain ch2 r raw where o: "p_conns p j = Some (SocksOpening ch2 r raw)"
      using assms(5) by (auto simp: step_opened_def split: option.splits socks_state.splits)
    have "j \<noteq> k" using o st by auto
    moreover obtain st2 c where h: "handleSocksConn_opened j ch2 r raw timed_out (p_client p) = (st2, c)" by (metis prod.exhaust)
    ultimately have "client_good ch k c \<and> delivered k (net c) = delivered k (net (p_client p))"
      using client_act_good [of ch k "(p_client p, p_session p)" "SocksOpened j ch2 r raw timed_out"] good
      by (simp add: client_leaves_def client_own_def)
    then show ?thesis
      using assms(5) POpened o h st \<open>j \<noteq> k\<close> by (auto simp: step_opened_def copying_def)
  next
    case (PCopy j rd ctx_done)
    then obtain ch2 where o: "p_conns p j = Some (SocksCopying ch2)"
      using assms(5) by (auto simp: step_copy_def split: option.splits socks_state.splits)
    obtain on c s where h: "copyTCPToTunnel_iter ch2 rd ctx_done (p_client p, p_session p) = (on, c, s)" by (metis prod_cases3)
    have lv: "snd rd \<noteq> None \<longrightarrow> ch2 \<noteq> ch"
      using assms(4) other [of "ByConn j" ch2] o by (auto simp: leaves_conn_def PCopy)
    have c: "client_good ch k c \<and> delivered k (net c) = delivered k (net (p_client p))"
      using client_act_good [of ch k "(p_client p, p_session p)" "Client (CCopy ch2 rd ctx_done)"] good lv h
      by (simp add: client_leaves_def client_own_def)
    show ?thesis
    proof (cases on)
      case True
      then show ?thesis using assms(5) PCopy o h c st by (auto simp: step_copy_def copying_def)
    next
      case False
      have "j \<noteq> k"
        using assms(4) h False by (auto simp: leaves_conn_def PCopy copyTCPToTunnel_iter_def split_beta Let_def split: if_splits)
      then show ?thesis
        using assms(5) PCopy o h c st False client_write_other(3,4) [of j k] by (auto simp: step_copy_def copying_def)
    qed
  next
    case (PDone j)
    then obtain u where o: "p_conns p j = Some (SocksAssociated u)"
      using assms(5) by (auto simp: step_done_def split: option.splits socks_state.splits)
    then have "j \<noteq> k" using st by auto
    then show ?thesis
      using assms(5) PDone o st good client_write_other(3,4) [of j k] by (auto simp: step_done_def copying_def)
  next
    case (PPacket u buf peer)
    obtain a where a: "p_assocs p u = Some a"
      using assms(5) PPacket by (auto simp: step_packet_def split: option.splits)
    obtain st2 c s where h: "udp_associate_recv u buf peer (channelForRemote a) (p_client p, p_session p) = (st2, c, s)"
      by (metis prod_cases3)
    have "client_good ch k c \<and> delivered k (net c) = delivered k (net (p_client p))"
      using client_act_good [of ch k "(p_client p, p_session p)" "UDPRecv u buf peer (channelForRemote a)"] good h
      by (simp add: client_leaves_def client_own_def)
    then show ?thesis
      using assms(5) PPacket a h st by (auto simp: step_packet_def copying_def split: if_splits)
  next
    case (PFrame f)
    then show ?thesis
      using assms(4,5) client_frame_good [OF good, of f "p_session p"] st
      by (auto simp: step_frame_def copying_def leaves_conn_def split_beta Let_def)
  qed (use assms(4,5) st good in \<open>auto simp: leaves_conn_def client_conns_other step_udp_opened_def step_udp_send_def step_socket_fails_def copying_def
      split: option.splits udp_progress.splits if_splits prod.splits\<close>)
qed

lemma handled_frames_Cons: "handled_frames (ev # evs) = handled_frames [ev] @ handled_frames evs"
  by (cases ev) simp_all

lemma copying_run:
  assumes "proc_run evs p = Some q" and "proc_inv n p" and "n + length evs + 1 < 2 ^ 32" and "copying ch k p"
    and "\<forall>ev \<in> set evs. leaves_conn ch k ev"
  shows "copying ch k q \<and> delivered k (net (p_client q)) = delivered k (net (p_client p)) @ tcp_payloads ch (handled_frames evs)"
  using assms
proof (induction evs arbitrary: p n)
  case (Cons ev evs)
  then obtain p1 where p1: "proc_step ev p = Some p1" "proc_run evs p1 = Some q"
    by (cases "proc_step ev p") auto
  have n: "n + 2 < 2 ^ 32" "leaves_conn ch k ev" using Cons.prems(3,5) by simp_all
  obtain m where m: "m \<le> n + 1" "proc_inv m p1" using proc_inv_step [OF Cons.prems(2) n(1) p1(1)] by blast
  note st = copying_step [OF Cons.prems(2) n(1) Cons.prems(4) n(2) p1(1)]
  have "copying ch k q \<and> delivered k (net (p_client q)) = delivered k (net (p_client p1)) @ tcp_payloads ch (handled_frames evs)"
    using Cons.IH [OF p1(2) m(2)] m(1) Cons.prems(3,5) st by auto
  with st show ?case by (subst handled_frames_Cons) simp
qed simp

text \<open>C10. A SOCKS connection gets the data of its own channel and nothing else: in any run of the
  client program, while a connection is copying and open, and until its channel is closed or its copy
  loop ends, what is written to it are exactly the payloads of the TCPDATA frames for its channel that
  the read loop handles, in order, whatever the other connections, the associations and the network
  do in between.\<close>

theorem socks_connection_isolated:
  assumes "proc_run evs (proc_start (newTunnelClient w sv) s) = Some p" and "proc_run evs2 p = Some q"
    and "length evs + length evs2 < 2 ^ 32 - 1"
    and "p_conns p k = Some (SocksCopying ch)" and "tcpConns (p_client p) ch = Some k" and "healthy k (net (p_client p))"
    and "\<forall>ev \<in> set evs2. leaves_conn ch k ev"
  shows "delivered k (net (p_client q)) = delivered k (net (p_client p)) @ tcp_payloads ch (handled_frames evs2)
    \<and> p_conns q k = Some (SocksCopying ch) \<and> tcpConns (p_client q) ch = Some k \<and> healthy k (net (p_client q))"
proof -
  have l: "0 + length evs + 1 < 2 ^ 32" "length evs + length evs2 + 1 < 2 ^ 32" using assms(3) by simp_all
  from proc_inv_run [OF assms(1) proc_inv_start l(1)] obtain n where n: "n \<le> length evs" "proc_inv n p" by auto
  then have "registered_once (p_client p)" unfolding proc_inv_def by blast
  then have "copying ch k p" using assms(4-6) by (auto simp: copying_def client_good_def registered_once_def)
  from copying_run [OF assms(2) n(2) _ this assms(7)] n(1) l(2)
  show ?thesis by (simp add: copying_def client_good_def)
qed

theorem socks_connection_isolated_witness:
  "\<exists>p q. proc_run demo_connected demo_proc = Some p
    \<and> proc_run [PFrame (data_frame FrameTCPDATA 2 [72, 105]), PCopy 0 ([1], None) False,
        PFrame (data_frame FrameTCPDATA 3 [0])] p = Some q
    \<and> delivered 0 (net (p_client q)) = [[0x05, 0x00], [0x05, 0x00, 0x00] @ name_header ''ab'' 80, [72, 105]]"
proof -
  obtain p where p: "proc_run demo_connected demo_proc = Some p" "p_conns p 0 = Some (SocksCopying 2)"
    "tcpConns (p_client p) 2 = Some 0" "healthy 0 (net (p_client p))"
    "delivered 0 (net (p_client p)) = [[0x05, 0x00], [0x05, 0x00, 0x00] @ name_header ''ab'' 80]"
    by (rule demo_proc_run)
  let ?evs = "[PFrame (data_frame FrameTCPDATA 2 [72, 105]), PCopy 0 ([1], None) False, PFrame (data_frame FrameTCPDATA 3 [0])]"
  obtain q where q: "proc_run ?evs p = Some q"
    using p(2) by (simp add: step_frame_def step_copy_def copyTCPToTunnel_iter_def split_beta Let_def)
  have l: "length demo_connected + length ?evs < 2 ^ 32 - 1" by (simp add: demo_connected_def)
  have lv: "\<forall>ev \<in> set ?evs. leaves_conn 2 0 ev" by (simp add: leaves_conn_def client_keeps_def new_frame_simps)
  from socks_connection_isolated [OF p(1) [unfolded demo_proc_def] q l p(2,3,4) lv] p(1,5) q
  show ?thesis by (auto simp: new_frame_simps)
qed

end
