(* ===== verification/SLPP_Links.thy ===== *)
theory SLPP_Links
  imports SLPP_ClientProc
begin

text \<open>
  What the frames on their way say of the two ends of a TCP channel: the client opens a channel once,
  an open that is still on its way has had no effect, and a TCPCLOSE on its way comes from an end that
  has given the channel up.  This invariant of the composed system (\<open>links\<close>) rests on how the
  steps of the world move frames and on what each program queues.
\<close>

section \<open>How each event moves the frames\<close>

lemma client_does_moves:
  assumes "world_step w (ClientDoes a) v" and "world_ok w" and "frame_kind p"
  shows "\<exists>xs. up_transit p v = up_transit p w @ xs \<and> subseq xs (items p (queued_frames (act_events a (w_client w))))"
    and "down_transit p v = down_transit p w" and "w_server v = w_server w"
    and "w_client v = fst (client_act a (w_client w, w_csess w))"
proof -
  show "\<exists>xs. up_transit p v = up_transit p w @ xs \<and> subseq xs (items p (queued_frames (act_events a (w_client w))))"
    using assms by (cases rule: up_moves) (auto simp: up_items_def)
  show "w_server v = w_server w" using assms(1) by (auto elim: world_stepE)
  show "down_transit p v = down_transit p w"
    using assms by (cases rule: down_moves) (auto simp: down_items_def)
  show "w_client v = fst (client_act a (w_client w, w_csess w))"
    using assms(1) by (auto elim!: world_stepE)
qed

lemma server_does_moves:
  assumes "world_step w (ServerDoes e) v" and "world_ok w" and "frame_kind p"
  shows "\<exists>xs. down_transit p v = down_transit p w @ xs \<and> subseq xs (items p (queued_frames (server_events e (w_server w))))"
    and "up_transit p v = up_transit p w" and "w_client v = w_client w"
    and "w_server v = fst (serve_event e (w_server w, w_ssess w))" and "server_own e"
proof -
  show "\<exists>xs. down_transit p v = down_transit p w @ xs \<and> subseq xs (items p (queued_frames (server_events e (w_server w))))"
    using assms by (cases rule: down_moves) (auto simp: down_items_def)
  show "up_transit p v = up_transit p w"
    using assms by (cases rule: up_moves) (auto simp: up_items_def)
  show "w_client v = w_client w" "w_server v = fst (serve_event e (w_server w, w_ssess w))" "server_own e"
    using assms(1) by (auto elim!: world_stepE)
qed

lemma arrives_moves:
  assumes "world_step w ev v" and "ev = UpArrives n \<or> ev = DownArrives n"
  shows "up_transit p v = up_transit p w" and "down_transit p v = down_transit p w"
    and "w_client v = w_client w" and "w_server v = w_server w"
  using assms by (auto elim!: world_stepE simp: up_transit_def up_stream_def down_transit_def down_stream_def queued_items_def arrive_def)

lemma server_reads_moves:
  assumes "world_step w (ServerReads now) v" and "world_ok w"
  obtains f s where "next_up w = Some f" and "\<And>p. frame_kind p \<Longrightarrow> up_transit p w = items p [f] @ up_transit p v"
    and "\<And>p. frame_kind p \<Longrightarrow> down_transit p v = down_transit p w" and "w_client v = w_client w"
    and "w_server v = fst (snd (HandleFrame f (w_server w) s))"
proof -
  obtain f s where f: "next_up w = Some f" "w_server v = fst (snd (HandleFrame f (w_server w) s))"
    using assms frame_kinds(1) by (cases rule: up_moves) auto
  have "up_transit p w = items p [f] @ up_transit p v" if "frame_kind p" for p
    using assms that f(1) by (cases rule: up_moves) auto
  moreover have "down_transit p v = down_transit p w" if "frame_kind p" for p
    using assms that by (cases rule: down_moves) (auto simp: down_items_def)
  moreover have "w_client v = w_client w" using assms(1) by (auto elim!: world_stepE)
  ultimately show thesis using that f by blast
qed

lemma client_reads_moves:
  assumes "world_step w (ClientReads now) v" and "world_ok w"
  obtains f s where "next_down w = Some f" and "\<And>p. frame_kind p \<Longrightarrow> down_transit p w = items p [f] @ down_transit p v"
    and "\<And>p. frame_kind p \<Longrightarrow> up_transit p v = up_transit p w" and "w_server v = w_server w"
    and "w_client v = fst (snd (client_HandleFrame f (w_client w) s))"
proof -
  obtain f s where f: "next_down w = Some f" "w_client v = fst (snd (client_HandleFrame f (w_client w) s))"
    using assms frame_kinds(1) by (cases rule: down_moves) auto
  have "down_transit p w = items p [f] @ down_transit p v" if "frame_kind p" for p
    using assms that f(1) by (cases rule: down_moves) auto
  moreover have "up_transit p v = up_transit p w" if "frame_kind p" for p
    using assms that by (cases rule: up_moves) (auto simp: up_items_def)
  moreover have "w_server v = w_server w" using assms(1) by (auto elim!: world_stepE)
  ultimately show thesis using that f by blast
qed

section \<open>What the client queues and registers\<close>

text \<open>An action opens one channel at most, the next; otherwise the client only gives channels up.\<close>

definition opens_next :: "tunnel_client \<Rightarrow> tunnel_client \<Rightarrow> bool" where
  "opens_next c c2 \<longleftrightarrow> (nextID c2 = nextID c \<or> nextID c2 = nextID c + 1)
     \<and> (\<forall>ch k. tcpConns c2 ch = Some k \<longrightarrow>
          tcpConns c ch = Some k \<or> ch = nextID c + 1 \<and> nextID c2 = nextID c + 1)"

lemma opens_next_calmer: "calmer c c2 \<Longrightarrow> opens_next c c2" "calmer (reg_tcp k c) c2 \<Longrightarrow> opens_next c c2"
  "calmer (reg_udp u peer addr c) c2 \<Longrightarrow> opens_next c c2"
  by (auto simp: opens_next_def reg_tcp_def reg_udp_def calmer_def map_le_def dom_def split: if_splits)

lemma socks_conn_opens:
  assumes "fst (socks_request conn rd (net c)) = Some (0x01, addr, raw)"
  shows "nextID (fst (client_act (SocksConn conn rd listen) (c, s))) = nextID c + 1"
proof -
  obtain rd1 w where r: "socks_request conn rd (net c) = (Some (0x01, addr, raw), rd1, w)"
    using assms by (cases "socks_request conn rd (net c)") auto
  obtain e c3 s3 where o: "openTCPChannel_start addr conn (c\<lparr>net := w\<rparr>, s) = (e, c3, s3)" by (metis prod_cases3)
  have "nextID c3 = nextID c + 1" using start_TCP_simps [of addr conn "(c\<lparr>net := w\<rparr>, s)"] unfolding o by simp
  then show ?thesis
    using r o by (auto simp: handleSocksConn_begin_def finish_socks_def client_write_def split_beta Let_def
        split: sum.split prod.split)
qed

lemma act_opens_next:
  assumes "client_own a"
  shows "opens_next (fst cs) (fst (client_act a cs))"
proof (cases a)
  case (Client ev)
  then show ?thesis
  proof (cases ev)
    case (CFrame f)
    then show ?thesis using assms Client by (simp add: client_own_def)
  next
    case (CCopy ch rd ctx_done)
    then show ?thesis using Client calm_copy [of cs ch rd ctx_done] by (simp add: opens_next_calmer)
  qed (simp_all add: Client opens_next_def)
next
  case (SocksConn conn rd listen)
  obtain st rd2 c2 s2 where b: "handleSocksConn_begin conn rd listen (fst cs, snd cs) = (st, rd2, c2, s2)"
    by (metis prod_cases4)
  from socks_begin_cases [OF b] have "opens_next (fst cs) c2" using opens_next_calmer by blast
  then show ?thesis using b by (simp add: SocksConn)
next
  case (SocksOpened conn ch r raw timed_out)
  then show ?thesis using calm_opened [of "fst cs" conn ch r raw timed_out] by (simp add: opens_next_calmer)
next
  case (UDPRecv u buf peer m)
  obtain st c2 s2 where r: "udp_associate_recv u buf peer m (fst cs, snd cs) = (st, c2, s2)" by (metis prod_cases3)
  from r have "opens_next (fst cs) c2"
    by (cases rule: udp_recv_cases) (simp_all add: opens_next_calmer(1), (rule opens_next_calmer(3), assumption)+)
  then show ?thesis using r by (simp add: UDPRecv)
qed (simp_all add: opens_next_calmer calm_client, simp add: opens_next_def accept_conn_def Let_def)

lemma act_open_frames:
  "items (open_on ch) (queued_frames (act_events a c)) = []
    \<or> length (items (open_on ch) (queued_frames (act_events a c))) = 1 \<and> ch = nextID c + 1
      \<and> nextID (fst (client_act a (c, s))) = nextID c + 1"
proof (cases a)
  case (Client ev)
  then show ?thesis
    by (cases ev) (auto simp: act_events_def copy_events_def open_frame_def open_on_def new_frame_simps)
next
  case (SocksConn conn rd listen)
  show ?thesis
  proof (cases "\<exists>addr raw. fst (socks_request conn rd (net c)) = Some (0x01, addr, raw)")
    case True
    then obtain addr raw where r: "fst (socks_request conn rd (net c)) = Some (0x01, addr, raw)" by blast
    from socks_conn_opens [OF this] r show ?thesis
      by (simp add: SocksConn act_events_def open_frame_def open_on_def new_frame_simps del: client_act.simps)
  next
    case False
    then show ?thesis by (auto simp: SocksConn act_events_def split: option.split prod.split)
  qed
qed (auto simp: act_events_def open_frame_def udp_frame_def open_on_def new_frame_simps split: option.split)

lemma act_close_frames:
  assumes "items (close_on ch) (queued_frames (act_events a c)) \<noteq> []"
  shows "(\<exists>rd ctx_done. a = Client (CCopy ch rd ctx_done)) \<and> tcpConns (fst (client_act a (c, s))) ch = None"
proof (cases a)
  case (Client ev)
  then show ?thesis
    using assms
    by (cases ev) (auto simp: act_events_def copy_events_def open_frame_def close_on_def new_frame_simps
        copyTCPToTunnel_iter_def closeTCP_def split_beta Let_def split: if_splits option.split)
qed (use assms in \<open>auto simp: act_events_def open_frame_def udp_frame_def close_on_def new_frame_simps
    split: option.splits prod.splits if_splits\<close>)

section \<open>What the server queues and registers\<close>

abbreviation server_conns :: "server \<Rightarrow> u32 \<rightharpoonup> nat" where
  "server_conns h \<equiv> tconns (fst (tcp h))"

text \<open>A channel of which the server has never heard.\<close>

definition unknown :: "u32 \<Rightarrow> server \<Rightarrow> bool" where
  "unknown ch h \<longleftrightarrow> server_conns h ch = None \<and> (\<forall>c. (ch, c) \<notin> set (tcopiers (fst (tcp h))))"

lemma HandleFrame_tcp_frames:
  assumes "\<not> open_on ch f"
  shows "server_conns h ch = None \<Longrightarrow> server_conns (fst (snd (HandleFrame f h s))) ch = None"
    and "unknown ch h \<Longrightarrow> unknown ch (fst (snd (HandleFrame f h s)))"
  using assms
  by (auto simp: unknown_def open_on_def HandleFrame_def handler_defs Let_def split_beta TCP_Open_def TCP_Write_def
      TCP_Close_def Register_def split: sum.splits option.splits prod.splits if_splits)

lemma server_event_conns:
  assumes "server_own e"
  shows "server_conns (fst hs) ch = None \<Longrightarrow> server_conns (fst (serve_event e hs)) ch = None"
    and "unknown ch (fst hs) \<Longrightarrow> unknown ch (fst (serve_event e hs))"
  using assms
  by (cases e; auto simp: unknown_def server_own_def copyRemoteToTunnel_iter_def TCP_Close_def Let_def split_beta
      dest: notin_set_remove1 split: if_splits)+

lemma server_close_frames:
  assumes "items (close_on ch) (queued_frames (server_events e (fst hs))) \<noteq> []" and "server_own e"
  shows "\<not> unknown ch (fst hs) \<and> server_conns (fst (serve_event e hs)) ch = None"
proof (cases e)
  case (ReadUDP nano ch2 c rd)
  have "items (close_on ch) (queued_frames (map (\<lambda>d. EvQueue frame_class.Data
      (data_frame FrameUDPDATA ch2 (EncodeUDPDatagram d))) ds)) = []" for ds
    by (induction ds) (simp_all add: close_on_def new_frame_simps)
  then have "items (close_on ch) (queued_frames (udp_read_events nano ch2 rd)) = []"
    by (auto simp: udp_read_events_def close_on_def new_frame_simps split: sum.split)
  then show ?thesis using assms(1) by (simp add: ReadUDP server_events_def split: if_splits)
next
  case (CopyTCP ch2 c rd)
  then show ?thesis
    using assms(1) by (auto simp: server_events_def copy_events_def close_on_def new_frame_simps unknown_def
        copyRemoteToTunnel_iter_def TCP_Close_def split_beta Let_def split: if_splits)
qed (use assms in \<open>simp_all add: server_events_def server_own_def\<close>)

section \<open>The invariant of the channels\<close>

text \<open>
  \<open>n\<close> bounds the number of channels opened.  A channel that was never opened has no frames on
  their way; the server does not know it, and does not either as long as its open is on its way; it is
  opened once; an end that has sent TCPCLOSE has given the channel up.
\<close>

definition link_ok :: "nat \<Rightarrow> u32 \<Rightarrow> world \<Rightarrow> bool" where
  "link_ok n ch w \<longleftrightarrow>
     (old_id n ch \<or> up_transit (open_on ch) w = [] \<and> up_transit (close_on ch) w = [])
     \<and> (old_id n ch \<and> up_transit (open_on ch) w = []
          \<or> unknown ch (w_server w) \<and> down_transit (close_on ch) w = [])
     \<and> length (up_transit (open_on ch) w) \<le> 1
     \<and> (up_transit (close_on ch) w = [] \<or> tcpConns (w_client w) ch = None)
     \<and> (down_transit (close_on ch) w = [] \<or> server_conns (w_server w) ch = None)"

definition links :: "nat \<Rightarrow> world \<Rightarrow> bool" where
  "links n w \<longleftrightarrow> nextID (w_client w) = of_nat (n + 1) \<and> (\<forall>ch. link_ok n ch w)"

lemma old_id_next:
  assumes "nextID c = of_nat (n + 1)" and "n + 2 < 2 ^ 32"
  shows "old_id (n + 1) ch \<longleftrightarrow> old_id n ch \<or> ch = nextID c + 1"
proof -
  note f = fresh_id [OF assms]
  have "unat ch = n + 2 \<longleftrightarrow> ch = nextID c + 1" using f(1) by (metis unsigned_word_eqI)
  then show ?thesis using f(2) by (auto simp: old_id_def)
qed

lemma subseq_empty: "subseq xs ys \<Longrightarrow> ys = [] \<Longrightarrow> xs = []"
  using list_emb_length [of "(=)" xs ys] by simp

lemma links_client_does:
  assumes "links n w" and "n + 2 < 2 ^ 32" and "world_step w (ClientDoes a) v" and "world_ok w"
    and "\<forall>ch rd ctx_done. a = Client (CCopy ch rd ctx_done) \<longrightarrow> old_id n ch"
  shows "\<exists>m. n \<le> m \<and> m \<le> n + 1 \<and> links m v"
proof -
  let ?c = "w_client w" and ?c2 = "w_client v"
  let ?new = "nextID ?c + 1"
  have id: "nextID ?c = of_nat (n + 1)" and link: "link_ok n ch w" for ch using assms(1) by (simp_all add: links_def)
  note fresh = fresh_id [OF id assms(2)] and old = old_id_next [OF id assms(2)]
  note mv = client_does_moves [OF assms(3,4)]
  have c2: "?c2 = fst (client_act a (?c, w_csess w))" and srv: "w_server v = w_server w"
    using mv(3,4) [OF frame_kinds(1)] by simp_all
  have own: "client_own a" using assms(3) by (auto elim: world_stepE)
  have nx: "opens_next ?c ?c2" using act_opens_next [OF own, of "(?c, w_csess w)"] by (simp add: c2)
  define m where "m = (if nextID ?c2 = nextID ?c then n else n + 1)"
  have ne: "?new \<noteq> nextID ?c" using fresh by simp
  then have m: "nextID ?c2 = of_nat (m + 1)" "n \<le> m \<and> m \<le> n + 1" "old_id m ch \<longleftrightarrow> old_id n ch \<or> ch = ?new \<and> nextID ?c2 = ?new" for ch
    using nx id fresh(4) old by (auto simp: m_def opens_next_def)
  have "link_ok m ch v" for ch
  proof -
    obtain xo where xo: "up_transit (open_on ch) v = up_transit (open_on ch) w @ xo"
      "subseq xo (items (open_on ch) (queued_frames (act_events a ?c)))"
      using mv(1) [OF frame_kinds(3)] by blast
    have "items (open_on ch) (queued_frames (act_events a ?c)) = []
        \<or> length (items (open_on ch) (queued_frames (act_events a ?c))) = 1 \<and> ch = ?new \<and> nextID ?c2 = ?new"
      unfolding c2 by (rule act_open_frames)
    then have xo2: "length xo \<le> 1" "xo = [] \<or> ch = ?new \<and> nextID ?c2 = ?new"
      using list_emb_length [OF xo(2)] by auto
    obtain xc where xc: "up_transit (close_on ch) v = up_transit (close_on ch) w @ xc"
      "subseq xc (items (close_on ch) (queued_frames (act_events a ?c)))"
      using mv(1) [OF frame_kinds(4)] by blast
    have xc2: "xc = [] \<or> old_id n ch \<and> tcpConns ?c2 ch = None"
      using act_close_frames [of ch a ?c "w_csess w"] subseq_empty [OF xc(2)] assms(5) unfolding c2 by blast
    have t: "tcpConns ?c ch = None \<Longrightarrow> tcpConns ?c2 ch = None \<or> ch = ?new \<and> nextID ?c2 = ?new"
      using nx unfolding opens_next_def by (metis not_Some_eq)
    have "\<not> old_id n ?new" by (rule fresh(3))
    then show ?thesis
      using link [of ch] xo(1) xo2 xc(1) xc2 t m(3) [of ch] srv mv(2) [OF frame_kinds(4)]
      unfolding link_ok_def by auto
  qed
  then show ?thesis using m(1,2) unfolding links_def by blast
qed

lemma links_server_does:
  assumes "links n w" and "world_step w (ServerDoes e) v" and "world_ok w"
  shows "links n v"
proof -
  note mv = server_does_moves [OF assms(2,3)]
  note h = mv(4,5) [OF frame_kinds(1)] mv(3) [OF frame_kinds(1)]
  have "link_ok n ch v" for ch
  proof -
    have link: "link_ok n ch w" using assms(1) by (simp add: links_def)
    obtain xs where xs: "down_transit (close_on ch) v = down_transit (close_on ch) w @ xs"
      "subseq xs (items (close_on ch) (queued_frames (server_events e (w_server w))))"
      using mv(1) [OF frame_kinds(4)] by blast
    have "xs = [] \<or> \<not> unknown ch (w_server w) \<and> server_conns (w_server v) ch = None"
      using server_close_frames [of ch e "(w_server w, w_ssess w)"] subseq_empty [OF xs(2)] h by auto
    then show ?thesis
      using link xs(1) server_event_conns [OF h(2), where hs = "(w_server w, w_ssess w)" and ch = ch] h mv(2) [OF frame_kinds(3)] mv(2) [OF frame_kinds(4)]
      unfolding link_ok_def by auto
  qed
  then show ?thesis using assms(1) h by (simp add: links_def)
qed

lemma links_server_reads:
  assumes "links n w" and "world_step w (ServerReads now) v" and "world_ok w"
  shows "links n v"
  using assms(2,3)
proof (cases rule: server_reads_moves)
  case (1 f s)
  have "link_ok n ch v" for ch
  proof -
    have link: "link_ok n ch w" using assms(1) by (simp add: links_def)
    have o: "up_transit (open_on ch) w = (if open_on ch f then [payload f] else []) @ up_transit (open_on ch) v"
      using 1(2) [OF frame_kinds(3), of ch] by simp
    have c: "up_transit (close_on ch) w = (if close_on ch f then [payload f] else []) @ up_transit (close_on ch) v"
      using 1(2) [OF frame_kinds(4), of ch] by simp
    have d: "down_transit (close_on ch) v = down_transit (close_on ch) w" by (rule 1(3) [OF frame_kinds(4)])
    show ?thesis
    proof (cases "open_on ch f")
      case True
      then show ?thesis using link o c d 1(4) unfolding link_ok_def by (auto split: if_splits)
    next
      case False
      from HandleFrame_tcp_frames [OF this, of "w_server w" s] link o c d 1(4,5) False
      show ?thesis unfolding link_ok_def by (auto split: if_splits)
    qed
  qed
  then show ?thesis using assms(1) 1(4) by (simp add: links_def)
qed

lemma links_client_reads:
  assumes "links n w" and "world_step w (ClientReads now) v" and "world_ok w"
  shows "links n v"
  using assms(2,3)
proof (cases rule: client_reads_moves)
  case (1 f s)
  have c: "calmer (w_client w) (w_client v)" using calm_frame [of "w_client w" f s] 1(5) by simp
  have "link_ok n ch v" for ch
  proof -
    have link: "link_ok n ch w" using assms(1) by (simp add: links_def)
    have d: "down_transit (close_on ch) w = (if close_on ch f then [payload f] else []) @ down_transit (close_on ch) v"
      using 1(2) [OF frame_kinds(4), of ch] by simp
    show ?thesis
      using link d 1(3) [OF frame_kinds(3)] 1(3) [OF frame_kinds(4)] 1(4) calmer_none(1) [OF c, of ch]
      unfolding link_ok_def by (auto split: if_splits)
  qed
  then show ?thesis using assms(1) c by (simp add: links_def calmer_def)
qed

lemma links_step:
  assumes "links n w" and "n + 2 < 2 ^ 32" and "world_step w ev v" and "world_ok w"
    and "\<forall>ch rd ctx_done. ev = ClientDoes (Client (CCopy ch rd ctx_done)) \<longrightarrow> old_id n ch"
  shows "\<exists>m. n \<le> m \<and> m \<le> n + 1 \<and> links m v"
proof (cases ev)
  case (ClientDoes a)
  show ?thesis by (rule links_client_does [OF assms(1,2) assms(3) [unfolded ClientDoes] assms(4)]) (use assms(5) ClientDoes in blast)
next
  case (ServerDoes e)
  from links_server_does [OF assms(1) assms(3) [unfolded this] assms(4)] show ?thesis by (intro exI [of _ n]) simp
next
  case (ServerReads now)
  from links_server_reads [OF assms(1) assms(3) [unfolded this] assms(4)] show ?thesis by (intro exI [of _ n]) simp
next
  case (ClientReads now)
  from links_client_reads [OF assms(1) assms(3) [unfolded this] assms(4)] show ?thesis by (intro exI [of _ n]) simp
next
  case (UpArrives i)
  from arrives_moves [OF assms(3) disjI1 [OF this]] assms(1)
  show ?thesis by (intro exI [of _ n]) (simp add: links_def link_ok_def)
next
  case (DownArrives i)
  from arrives_moves [OF assms(3) disjI2 [OF this]] assms(1)
  show ?thesis by (intro exI [of _ n]) (simp add: links_def link_ok_def)
qed

end
