(* ===== verification/SLPP_System.thy ===== *)
theory SLPP_System
  imports SLPP_Links
begin

text \<open>
  The whole tunnel: the client's goroutines (\<open>SLPP_ClientProc\<close>) as the client of the composed
  system (\<open>SLPP_World\<close>).  Every step of a goroutine is a short sequence of the client's
  actions, so a run of the system is a run of the world; what a channel's frames on the wire say of
  its two ends is an invariant, from which a tunnelled connection stays up until one of its own ends
  stops.
\<close>

section \<open>A goroutine's step as actions of the client\<close>

fun acts_of :: "proc_event \<Rightarrow> client_proc \<Rightarrow> client_action list" where
  "acts_of (PAccept rd listen) p = [ClientAccept, SocksConn (next_sock (net (p_client p))) rd listen]"
| "acts_of (POpened k timed_out) p =
     (case p_conns p k of Some (SocksOpening ch r raw) \<Rightarrow> [SocksOpened k ch r raw timed_out] | _ \<Rightarrow> [])"
| "acts_of (PCopy k rd ctx_done) p =
     (case p_conns p k of
        Some (SocksCopying ch) \<Rightarrow>
          Client (CCopy ch rd ctx_done) # (if snd rd = None \<and> \<not> ctx_done then [] else [ClientCloses k])
      | _ \<Rightarrow> [])"
| "acts_of (PDone k) p = [ClientCloses k]"
| "acts_of (PPacket u buf peer) p =
     (case p_assocs p u of Some a \<Rightarrow> [UDPRecv u buf peer (channelForRemote a)] | None \<Rightarrow> [])"
| "acts_of (PUDPOpened u timed_out) p = []"
| "acts_of (PUDPSend u nano milli) p =
     (case p_assocs p u of
        Some a \<Rightarrow> (case a_state a of USend ch data \<Rightarrow> [UDPSend nano milli ch data] | _ \<Rightarrow> [])
      | None \<Rightarrow> [])"
| "acts_of (PSocketFails u) p = []"
| "acts_of (PFrame f) p = [Client (CFrame f)]"
| "acts_of PWrite p = [ClientWrite]"
| "acts_of PBeat p = [ClientBeat]"
| "acts_of (PBreaks k n e) p = [ClientBreaks k n e]"

abbreviation proc_cs :: "client_proc \<Rightarrow> tunnel_client \<times> session" where
  "proc_cs p \<equiv> (p_client p, p_session p)"

lemma copy_goes_on:
  "fst (copyTCPToTunnel_iter ch rd ctx_done cs) \<longleftrightarrow> snd rd = None \<and> \<not> ctx_done"
  by (auto simp: copyTCPToTunnel_iter_def split_beta Let_def)

lemma proc_step_acts:
  assumes "proc_step ev p = Some q"
  shows "proc_cs q = client_acts (acts_of ev p) (proc_cs p)"
proof (cases ev)
  case (PAccept rd listen)
  obtain k c1 where k: "accept_conn (p_client p) = (k, c1)" by (metis prod.exhaust)
  obtain st rd2 c2 s2 where b: "handleSocksConn_begin k rd listen (c1, p_session p) = (st, rd2, c2, s2)"
    by (metis prod_cases4)
  have "k = next_sock (net (p_client p))" using k by (auto simp: accept_conn_def Let_def)
  then show ?thesis
    using assms k b by (auto simp: PAccept step_accept_def Let_def split: socks_state.splits if_splits)
next
  case (PCopy k rd ctx_done)
  then obtain ch where st: "p_conns p k = Some (SocksCopying ch)"
    using assms by (auto simp: step_copy_def split: option.splits socks_state.splits)
  obtain on c s where h: "copyTCPToTunnel_iter ch rd ctx_done (proc_cs p) = (on, c, s)" by (metis prod_cases3)
  then show ?thesis
    using assms st copy_goes_on [of ch rd ctx_done "proc_cs p"] by (auto simp: PCopy step_copy_def split: if_splits)
qed (use assms in \<open>auto simp: step_opened_def step_done_def step_packet_def step_udp_opened_def step_udp_send_def
    step_socket_fails_def step_frame_def split: option.splits socks_state.splits udp_progress.splits if_splits prod.splits\<close>)

text \<open>
  Reads deliver at most the 16 KiB of the buffer.  A datagram that is waiting to be sent is short: it
  has been cut when its packet came in.
\<close>

definition proc_fine :: "proc_event \<Rightarrow> bool" where
  "proc_fine ev = (case ev of PCopy k rd ctx_done \<Rightarrow> read_ok 16384 rd | PFrame f \<Rightarrow> False | _ \<Rightarrow> True)"

fun short_data :: "udp_progress \<Rightarrow> bool" where
  "short_data USkip = True"
| "short_data (USend ch data) = (length data \<le> MaxLocalUDPDatagram)"
| "short_data (UOpening key ch r data) = (length data \<le> MaxLocalUDPDatagram)"

definition sends_short :: "client_proc \<Rightarrow> bool" where
  "sends_short p \<longleftrightarrow> (\<forall>a \<in> ran (p_assocs p). short_data (a_state a))"

lemma udp_recv_short:
  "short_data (fst (udp_associate_recv u buf peer m cs))"
  by (auto simp: udp_associate_recv_def Let_def split: sum.split option.split prod.split)

lemma sends_short_upd:
  "sends_short p \<Longrightarrow> p_assocs q = (p_assocs p)(u \<mapsto> a) \<Longrightarrow> short_data (a_state a) \<Longrightarrow> sends_short q"
  by (auto simp: sends_short_def ran_def)

lemma sends_short_step:
  assumes "sends_short p" and "proc_step ev p = Some q"
  shows "sends_short q"
proof -
  have same: "sends_short q" if "p_assocs q = p_assocs p"
    using assms(1) that by (simp add: sends_short_def)
  have old: "short_data (a_state a)" if "p_assocs p u = Some a" for u a
    using assms(1) that by (auto simp: sends_short_def ran_def)
  show ?thesis
  proof (cases ev)
    case (PAccept rd listen)
    obtain k c1 where k: "accept_conn (p_client p) = (k, c1)" by (metis prod.exhaust)
    moreover obtain st rd2 c2 s2 where "handleSocksConn_begin k rd listen (c1, p_session p) = (st, rd2, c2, s2)"
      by (metis prod_cases4)
    ultimately have k: "accept_conn (p_client p) = (k, c1)"
      "handleSocksConn_begin k rd listen (c1, p_session p) = (st, rd2, c2, s2)" by simp_all
    let ?a = "\<lparr>a_conn = k, channelForRemote = Map.empty, a_state = USkip, a_runs = True\<rparr>"
    have "p_assocs q = p_assocs p \<or> (\<exists>u. st = SocksAssociated u \<and> p_assocs q = (p_assocs p)(u \<mapsto> ?a))"
      using assms(2) k by (cases st) (auto simp: PAccept step_accept_def Let_def split: if_splits)
    then show ?thesis
    proof
      assume "\<exists>u. st = SocksAssociated u \<and> p_assocs q = (p_assocs p)(u \<mapsto> ?a)"
      then obtain u where "p_assocs q = (p_assocs p)(u \<mapsto> ?a)" by blast
      then show ?thesis by (rule sends_short_upd [OF assms(1)]) simp
    qed (rule same)
  next
    case (PPacket u buf peer)
    then obtain a where a: "p_assocs p u = Some a"
      using assms(2) by (auto simp: step_packet_def split: option.splits)
    obtain st c s where r: "udp_associate_recv u buf peer (channelForRemote a) (proc_cs p) = (st, c, s)"
      by (metis prod_cases3)
    then have "p_assocs q = (p_assocs p)(u \<mapsto> a\<lparr>a_state := st\<rparr>)"
      using assms(2) a by (auto simp: PPacket step_packet_def split: if_splits)
    from sends_short_upd [OF assms(1) this] show ?thesis
      using udp_recv_short [of u buf peer "channelForRemote a" "proc_cs p"] r by simp
  next
    case (PUDPOpened u timed_out)
    then obtain a key ch r data st m where a: "p_assocs p u = Some a" "a_state a = UOpening key ch r data"
      and h: "udp_associate_opened timed_out key ch r data (channelForRemote a) (p_client p) = (st, m)"
      and q: "p_assocs q = (p_assocs p)(u \<mapsto> a\<lparr>channelForRemote := m, a_state := st\<rparr>)"
      using assms(2) by (auto simp: step_udp_opened_def split: option.splits udp_progress.splits prod.splits)
    have "short_data st" using udp_associate_opened_cases [OF h] old [OF a(1)] a(2) by auto
    then show ?thesis using sends_short_upd [OF assms(1) q] by simp
  next
    case (PUDPSend u nano milli)
    then obtain a where "p_assocs q = (p_assocs p)(u \<mapsto> a\<lparr>a_state := USkip\<rparr>)"
      using assms(2) by (auto simp: step_udp_send_def split: option.splits udp_progress.splits)
    then show ?thesis using sends_short_upd [OF assms(1)] by simp
  next
    case (PSocketFails u)
    then obtain a where "p_assocs q = (p_assocs p)(u \<mapsto> a\<lparr>a_runs := False\<rparr>)" "a_state a = USkip"
      using assms(2) by (auto simp: step_socket_fails_def split: option.splits if_splits)
    then show ?thesis using sends_short_upd [OF assms(1)] by simp
  qed (use assms in \<open>auto simp: sends_short_def step_opened_def step_copy_def step_done_def step_frame_def
      split: option.splits socks_state.splits prod.splits if_splits\<close>)
qed

lemma acts_fine:
  assumes "proc_step ev p = Some q" and "proc_fine ev" and "sends_short p"
  shows "\<forall>a \<in> set (acts_of ev p). client_own a \<and> action_fine a"
proof (cases ev)
  case (PUDPSend u nano milli)
  then obtain a ch data where a: "p_assocs p u = Some a" "a_state a = USend ch data"
    using assms(1) by (auto simp: step_udp_send_def split: option.splits udp_progress.splits)
  then have "short_data (a_state a)" using assms(3) by (auto simp: sends_short_def ran_def)
  then show ?thesis using a by (simp add: PUDPSend client_own_def)
qed (use assms(2) in \<open>auto simp: proc_fine_def client_own_def split: option.splits socks_state.splits\<close>)

section \<open>The system\<close>

record system =
  y_world :: world
  y_conns :: "nat \<rightharpoonup> socks_state"
  y_assocs :: "nat \<rightharpoonup> assoc_proc"

definition y_proc :: "system \<Rightarrow> client_proc" where
  "y_proc y = \<lparr>p_client = w_client (y_world y), p_session = w_csess (y_world y),
     p_conns = y_conns y, p_assocs = y_assocs y\<rparr>"

definition system_start :: "world \<Rightarrow> system" where
  "system_start w = \<lparr>y_world = w, y_conns = Map.empty, y_assocs = Map.empty\<rparr>"

text \<open>The world when the client has moved; what it has written is on its way.\<close>

definition client_moves :: "tunnel_client \<times> session \<Rightarrow> world \<Rightarrow> world" where
  "client_moves cs w = w\<lparr>w_client := fst cs, w_csess := snd cs, w_up := w_up w @ sent_since (w_csess w) (snd cs)\<rparr>"

text \<open>A step: one of a goroutine, or anything else that happens in the world.\<close>

datatype system_event =
    Goroutine proc_event
  | Elsewhere world_event

inductive system_step :: "system \<Rightarrow> system_event \<Rightarrow> system \<Rightarrow> bool" where
  goroutine: "proc_fine ev \<Longrightarrow> proc_step ev (y_proc y) = Some q \<Longrightarrow>
     system_step y (Goroutine ev)
       \<lparr>y_world = client_moves (proc_cs q) (y_world y), y_conns = p_conns q, y_assocs = p_assocs q\<rparr>"
| elsewhere: "\<forall>a. ev \<noteq> ClientDoes a \<Longrightarrow> world_step (y_world y) ev w \<Longrightarrow>
     system_step y (Elsewhere ev) (y\<lparr>y_world := w\<rparr>)"

inductive_cases system_stepE: "system_step y x z"

inductive system_run :: "system \<Rightarrow> (system \<times> system_event) list \<Rightarrow> system \<Rightarrow> bool" where
  system_rest: "system_run y [] y"
| system_on: "system_run y tr z \<Longrightarrow> system_step z x z2 \<Longrightarrow> system_run y (tr @ [(z, x)]) z2"

section \<open>A run of the system is a run of the world\<close>

fun acts_trace :: "client_action list \<Rightarrow> world \<Rightarrow> (world \<times> world_event) list" where
  "acts_trace [] w = []"
| "acts_trace (a # as) w =
     (w, ClientDoes a) # acts_trace as (client_moves (client_act a (w_client w, w_csess w)) w)"

definition step_trace :: "system \<times> system_event \<Rightarrow> (world \<times> world_event) list" where
  "step_trace x = (case snd x of
       Goroutine ev \<Rightarrow> acts_trace (acts_of ev (y_proc (fst x))) (y_world (fst x))
     | Elsewhere ev \<Rightarrow> [(y_world (fst x), ev)])"

lemma client_writes_on:
  assumes "sending request_ok s" and "action_fine a" and "client_act a (c, s) = (c2, t)"
  shows "sending request_ok t" and "written (s_writer t) = written (s_writer s) @ sent_since s t"
proof -
  have ev: "sound_events request_ok (act_events a c)" using client_endpoint.act_sends [where a = a and hs = "(c, s)"] assms(2) by simp
  have t: "t = apply_events (act_events a c) s" using client_act_events [of a "(c, s)"] assms(3) by simp
  from sending_events [OF assms(1) ev client_endpoint.sends_body client_endpoint.sends_ping t frame_kinds(1)]
  show "sending request_ok t" "written (s_writer t) = written (s_writer s) @ sent_since s t" by simp_all
qed

lemma acts_write_on:
  assumes "sending request_ok s" and "\<forall>a \<in> set as. action_fine a" and "client_acts as (c, s) = (c2, t)"
  shows "\<exists>bs. written (s_writer t) = written (s_writer s) @ bs"
  using assms
proof (induction as arbitrary: c s)
  case (Cons a as)
  obtain c1 s1 where a: "client_act a (c, s) = (c1, s1)" by (metis prod.exhaust)
  note w = client_writes_on [OF Cons.prems(1) _ a]
  show ?case using Cons.IH [of s1 c1] Cons.prems w a by auto
qed simp

lemma act_step:
  "client_own a \<Longrightarrow> action_fine a \<Longrightarrow> world_step w (ClientDoes a) (client_moves (client_act a (w_client w, w_csess w)) w)"
  using client_does [of a w "fst (client_act a (w_client w, w_csess w))" "snd (client_act a (w_client w, w_csess w))"]
  by (simp add: client_moves_def)

lemma acts_after:
  assumes "world_ok w" and "\<forall>b \<in> set (a # as). action_fine b" and "v = client_moves (client_act a (w_client w, w_csess w)) w"
  shows "client_moves (client_acts as (w_client v, w_csess v)) v = client_moves (client_acts (a # as) (w_client w, w_csess w)) w"
proof -
  obtain c s where a: "client_act a (w_client w, w_csess w) = (c, s)" by (metis prod.exhaust)
  have v: "w_client v = c" "w_csess v = s" by (simp_all add: assms(3) a client_moves_def)
  obtain c2 t where t: "client_acts as (c, s) = (c2, t)" by (metis prod.exhaust)
  have s: "sending request_ok (w_csess w)" using assms(1) by (simp add: world_ok_def)
  note wr = client_writes_on [OF s _ a]
  obtain bs where bs: "written (s_writer t) = written (s_writer s) @ bs"
    using acts_write_on [OF wr(1) _ t] assms(2) by auto
  have st: "sent_since s t = bs" using bs by (simp add: sent_since_def)
  have "written (s_writer t) = written (s_writer (w_csess w)) @ sent_since (w_csess w) s @ bs"
    using wr(2) bs assms(2) by simp
  then have "sent_since (w_csess w) t = sent_since (w_csess w) s @ sent_since s t"
    unfolding st by (simp add: sent_since_def [of _ t])
  then show ?thesis unfolding v by (simp add: assms(3) a t client_moves_def)
qed

lemma acts_none: "client_moves (client_acts [] (w_client w, w_csess w)) w = w"
  by (simp add: client_moves_def sent_since_def)

lemma acts_run:
  assumes "world_ok w" and "\<forall>a \<in> set as. client_own a \<and> action_fine a"
  shows "world_run w (acts_trace as w) (client_moves (client_acts as (w_client w, w_csess w)) w)"
  using assms
proof (induction as arbitrary: w)
  case Nil
  show ?case unfolding acts_none using run_start [of w] by simp
next
  case (Cons a as)
  let ?w = "client_moves (client_act a (w_client w, w_csess w)) w"
  have st: "world_step w (ClientDoes a) ?w" using act_step Cons.prems(2) by simp
  have "world_run ?w (acts_trace as ?w) (client_moves (client_acts as (w_client ?w, w_csess ?w)) ?w)"
    using Cons.IH [OF world_ok_step [OF st Cons.prems(1)]] Cons.prems(2) by simp
  moreover have "client_moves (client_acts as (w_client ?w, w_csess ?w)) ?w
      = client_moves (client_acts (a # as) (w_client w, w_csess w)) w"
    using acts_after [OF Cons.prems(1) _ refl] Cons.prems(2) by simp
  ultimately have r: "world_run ?w (acts_trace as ?w) (client_moves (client_acts (a # as) (w_client w, w_csess w)) w)" by simp
  from world_run_trans [OF r run_on [OF run_start st]] show ?case by simp
qed

lemma system_step_world:
  assumes "system_step y x z" and "world_ok (y_world y)" and "sends_short (y_proc y)"
  shows "world_run (y_world y) (step_trace (y, x)) (y_world z)"
  using assms(1)
proof (cases rule: system_step.cases)
  case (goroutine ev q)
  note fine = acts_fine [OF goroutine(4,3) assms(3)]
  have "proc_cs q = client_acts (acts_of ev (y_proc y)) (w_client (y_world y), w_csess (y_world y))"
    using proc_step_acts [OF goroutine(4)] by (simp add: y_proc_def)
  then show ?thesis
    using acts_run [OF assms(2) fine] goroutine(1,2) by (simp add: step_trace_def)
next
  case (elsewhere ev w)
  from run_on [OF run_start elsewhere(4)] show ?thesis using elsewhere(1,2) by (simp add: step_trace_def)
qed

section \<open>The invariant of the system\<close>

definition system_ok :: "nat \<Rightarrow> system \<Rightarrow> bool" where
  "system_ok n y \<longleftrightarrow> world_ok (y_world y) \<and> proc_inv n (y_proc y) \<and> sends_short (y_proc y) \<and> links n (y_world y)"

lemma old_id_le: "old_id n ch \<Longrightarrow> n \<le> m \<Longrightarrow> old_id m ch"
  by (simp add: old_id_def)

lemma links_acts:
  assumes "links n w" and "n + length as + 1 < 2 ^ 32" and "world_ok w"
    and "\<forall>a \<in> set as. client_own a \<and> action_fine a"
    and "\<forall>ch rd ctx_done. Client (CCopy ch rd ctx_done) \<in> set as \<longrightarrow> old_id n ch"
  shows "\<exists>m \<le> n + length as. links m (client_moves (client_acts as (w_client w, w_csess w)) w)"
  using assms
proof (induction as arbitrary: w n)
  case Nil
  then show ?case unfolding acts_none by auto
next
  case (Cons a as)
  let ?w = "client_moves (client_act a (w_client w, w_csess w)) w"
  have st: "world_step w (ClientDoes a) ?w" using act_step Cons.prems(4) by simp
  have "n + 2 < 2 ^ 32" using Cons.prems(2) by simp
  moreover have "\<forall>ch rd ctx_done. ClientDoes a = ClientDoes (Client (CCopy ch rd ctx_done)) \<longrightarrow> old_id n ch"
    using Cons.prems(5) by (metis list.set_intros(1) world_event.inject(1))
  ultimately obtain m where m: "m \<le> n + 1" "links m ?w" "n \<le> m"
    using links_step [OF Cons.prems(1) _ st Cons.prems(3)] by blast
  have "\<forall>ch rd ctx_done. Client (CCopy ch rd ctx_done) \<in> set as \<longrightarrow> old_id m ch"
    using Cons.prems(5) old_id_le [OF _ m(3)] by (meson list.set_intros(2))
  then have "\<exists>l \<le> m + length as. links l (client_moves (client_acts as (w_client ?w, w_csess ?w)) ?w)"
    using Cons.IH [OF m(2) _ world_ok_step [OF st Cons.prems(3)]] Cons.prems(2,4) m(1) by simp
  then obtain l where "l \<le> m + length as" "links l (client_moves (client_acts as (w_client ?w, w_csess ?w)) ?w)" by blast
  then show ?case
    using acts_after [OF Cons.prems(3) _ refl, of a as] Cons.prems(4) m(1) by (intro exI [of _ l]) simp
qed

text \<open>The counter of the client determines the bound.\<close>

lemma of_nat_u32_inj:
  assumes "of_nat (a + 1) = (of_nat (b + 1) :: u32)" and "a + 1 < 2 ^ 32" and "b + 1 < 2 ^ 32"
  shows "a = b"
proof -
  have "unat (of_nat m :: u32) = m" if "m < 2 ^ 32" for m
    using that by (simp add: unsigned_of_nat take_bit_nat_eq_self)
  from arg_cong [OF assms(1), of unat] this [OF assms(2)] this [OF assms(3)] show ?thesis by simp
qed

lemma elsewhere_client:
  assumes "world_step w ev v" and "\<forall>a. ev \<noteq> ClientDoes a"
  obtains "w_client v = w_client w" | f s where "w_client v = fst (snd (client_HandleFrame f (w_client w) s))"
proof -
  have "w_client v = w_client w \<or> (\<exists>f s. w_client v = fst (snd (client_HandleFrame f (w_client w) s)))"
    using assms
  proof (induction rule: world_step.induct)
    case (client_reads w f r now res c s)
    then have "\<exists>e. client_HandleFrame f (w_client w) (received now f r (w_csess w)) = (e, c, s)"
      by (auto simp: readLoop_iter_def Let_def simp flip: received_def split: prod.splits option.splits)
    then obtain e where "client_HandleFrame f (w_client w) (received now f r (w_csess w)) = (e, c, s)" by blast
    then show ?case by (intro disjI2 exI [of _ f] exI [of _ "received now f r (w_csess w)"]) simp
  qed simp_all
  then show thesis using that by blast
qed

lemma acts_length: "length (acts_of ev p) \<le> 2"
  by (cases ev) (simp_all split: option.split socks_state.split udp_progress.split)

lemma acts_copy:
  assumes "Client (CCopy ch rd ctx_done) \<in> set (acts_of ev p)"
  shows "\<exists>k. ev = PCopy k rd ctx_done \<and> p_conns p k = Some (SocksCopying ch)"
  using assms by (cases ev) (auto split: option.splits socks_state.splits udp_progress.splits if_splits)

lemma system_ok_step:
  assumes "system_step y x z" and "system_ok n y" and "n + 3 < 2 ^ 32"
  shows "\<exists>m \<le> n + 1. system_ok m z"
proof -
  have ok: "world_ok (y_world y)" "proc_inv n (y_proc y)" "sends_short (y_proc y)" "links n (y_world y)"
    using assms(2) by (simp_all add: system_ok_def)
  have wok: "world_ok (y_world z)" using system_step_world [OF assms(1) ok(1,3)] world_ok_run ok(1) by blast
  have same: "a = b" if "proc_inv a (y_proc z)" "links b (y_world z)" "a \<le> n + 1" "b \<le> n + 2" for a b
  proof (rule of_nat_u32_inj)
    show "of_nat (a + 1) = (of_nat (b + 1) :: u32)"
      using that(1,2) by (simp add: proc_inv_def links_def y_proc_def)
  qed (use that assms(3) in simp_all)
  show ?thesis
    using assms(1)
  proof (cases rule: system_step.cases)
    case (goroutine ev q)
    have z: "y_proc z = q" by (simp add: goroutine(2) y_proc_def client_moves_def)
    have "n + 2 < 2 ^ 32" using assms(3) by simp
    from proc_inv_step [OF ok(2) this goroutine(4)] obtain m where m: "m \<le> n + 1" "proc_inv m (y_proc z)"
      unfolding z by blast
    have short: "sends_short (y_proc z)" unfolding z by (rule sends_short_step [OF ok(3) goroutine(4)])
    let ?as = "acts_of ev (y_proc y)"
    note fine = acts_fine [OF goroutine(4,3) ok(3)]
    have len: "length ?as \<le> 2" by (rule acts_length)
    have agree: "owners_agree n (y_proc y)" using ok(2) unfolding proc_inv_def by blast
    have "old_id n ch" if cp: "Client (CCopy ch rd ctx_done) \<in> set ?as" for ch rd ctx_done
    proof -
      obtain k where "p_conns (y_proc y) k = Some (SocksCopying ch)" using acts_copy [OF cp] by blast
      then have "owns (y_proc y) (ByConn k) ch" by simp
      then show ?thesis using agree unfolding owners_agree_def by blast
    qed
    then obtain l where l: "l \<le> n + length ?as"
      "links l (client_moves (client_acts ?as (w_client (y_world y), w_csess (y_world y))) (y_world y))"
      using links_acts [OF ok(4) _ ok(1) fine] len assms(3) by fastforce
    have "client_acts ?as (w_client (y_world y), w_csess (y_world y)) = proc_cs q"
      using proc_step_acts [OF goroutine(4)] by (simp add: y_proc_def)
    then have "links l (y_world z)" using l(2) by (simp add: goroutine(2))
    with same [OF m(2) this m(1)] l(1) len m short wok show ?thesis by (auto simp: system_ok_def)
  next
    case (elsewhere ev v)
    have z: "y_world z = v" "p_conns (y_proc z) = p_conns (y_proc y)" "p_assocs (y_proc z) = p_assocs (y_proc y)"
      "p_client (y_proc z) = w_client v" by (simp_all add: elsewhere(2) y_proc_def)
    have "calmer (p_client (y_proc y)) (p_client (y_proc z))"
      using elsewhere(4,3) by (cases rule: elsewhere_client) (simp_all add: z(1) calm_frame y_proc_def)
    then have inv: "proc_inv n (y_proc z)" by (rule proc_inv_eases [OF ok(2) eases_client [OF _ z(2,3)]])
    have short: "sends_short (y_proc z)" using ok(3) z(3) by (simp add: sends_short_def)
    have "\<forall>ch rd ctx_done. ev = ClientDoes (Client (CCopy ch rd ctx_done)) \<longrightarrow> old_id n ch"
      using elsewhere(3) by blast
    moreover have "n + 2 < 2 ^ 32" using assms(3) by simp
    ultimately obtain l where l: "l \<le> n + 1" "links l (y_world z)"
      using links_step [OF ok(4) _ elsewhere(4) ok(1)] z(1) by blast
    with same [OF inv l(2)] inv short wok show ?thesis
      by (intro exI [of _ n]) (auto simp: system_ok_def)
  qed
qed

lemma system_ok_run:
  assumes "system_run y tr z" and "system_ok n y" and "n + length tr + 3 < 2 ^ 32"
  shows "\<exists>m \<le> n + length tr. system_ok m z"
  using assms
proof (induction rule: system_run.induct)
  case (system_on y tr z x z2)
  then obtain m where m: "m \<le> n + length tr" "system_ok m z" by auto
  then have "m + 3 < 2 ^ 32" using system_on.prems(2) by simp
  from system_ok_step [OF system_on.hyps(2) m(2) this] obtain l where "l \<le> m + 1" "system_ok l z2" by blast
  then show ?case using m(1) by (intro exI [of _ l]) simp
qed auto

lemma system_ok_start:
  assumes "tunnel_start env token tunnel nonce (newTunnelClient nw sv) wr st h w" and "fst (tcp h) = NewTCPRelay"
  shows "system_ok 0 (system_start w)"
proof -
  note tr = start_transit [OF assms(1)]
  have cl: "w_client w = newTunnelClient nw sv" "w_server w = h" using tr(3,4) [OF frame_kinds(1)] by simp_all
  have "link_ok 0 ch w" for ch
    using tr(1) [OF frame_kinds(3)] tr(1) [OF frame_kinds(4)] tr(2) [OF frame_kinds(4)] assms(2)
    by (simp add: link_ok_def cl unknown_def NewTCPRelay_def)
  then have "links 0 w" by (simp add: links_def cl newTunnelClient_def)
  moreover have "y_proc (system_start w) = proc_start (newTunnelClient nw sv) (w_csess w)"
    by (simp add: y_proc_def system_start_def proc_start_def cl)
  ultimately show ?thesis
    using tunnel_start_ok [OF assms(1)] proc_inv_start
    by (simp add: system_ok_def system_start_def sends_short_def proc_start_def)
qed

section \<open>A tunnelled connection\<close>

text \<open>
  A connection is linked: its goroutine copies, and both ends of the channel are open.  What ends this
  is at one of its ends: a read there that fails, the client's context, or a connection that breaks.
\<close>

definition linked :: "nat \<Rightarrow> u32 \<Rightarrow> nat \<Rightarrow> system \<Rightarrow> bool" where
  "linked k ch c y \<longleftrightarrow> y_conns y k = Some (SocksCopying ch) \<and> channel_up ch k c (y_world y)"

fun ends_link :: "nat \<Rightarrow> u32 \<Rightarrow> nat \<Rightarrow> system_event \<Rightarrow> bool" where
  "ends_link k ch c (Goroutine (PCopy j rd ctx_done)) = (j = k \<and> (snd rd \<noteq> None \<or> ctx_done))"
| "ends_link k ch c (Goroutine (PBreaks j n e)) = (j = k)"
| "ends_link k ch c (Elsewhere (ServerDoes (CopyTCP ch2 c2 rd))) = (ch2 = ch \<and> snd rd \<noteq> None)"
| "ends_link k ch c (Elsewhere (ServerDoes (BreakTCP c2 n e))) = (c2 = c)"
| "ends_link k ch c _ = False"

text \<open>What the two copy loops of the connection read in a step.\<close>

fun local_read :: "nat \<Rightarrow> system \<times> system_event \<Rightarrow> byte list list" where
  "local_read k (y, Goroutine (PCopy j rd ctx_done)) = (if j = k \<and> fst rd \<noteq> [] then [fst rd] else [])"
| "local_read k _ = []"

fun remote_read :: "u32 \<Rightarrow> system \<times> system_event \<Rightarrow> byte list list" where
  "remote_read ch (y, Elsewhere (ServerDoes e)) = copied_on ch e (w_server (y_world y))"
| "remote_read ch _ = []"

lemma linked_goroutine:
  assumes "system_ok n y" and "n + 3 < 2 ^ 32" and "linked k ch c y" and "proc_step ev (y_proc y) = Some q"
    and "proc_fine ev" and "\<not> ends_link k ch c (Goroutine ev)"
  shows "p_conns q k = Some (SocksCopying ch)
    \<and> (\<forall>x \<in> set (step_trace (y, Goroutine ev)). leaves_channel ch k c x)
    \<and> concat (map (up_offers ch) (step_trace (y, Goroutine ev))) = local_read k (y, Goroutine ev)
    \<and> concat (map (down_offers ch) (step_trace (y, Goroutine ev))) = []"
proof -
  let ?p = "y_proc y"
  have inv: "proc_inv n ?p" using assms(1) by (simp add: system_ok_def)
  have st: "p_conns ?p k = Some (SocksCopying ch)" using assms(3) by (simp add: linked_def y_proc_def)
  then have own: "owns ?p (ByConn k) ch" by simp
  have i: "owned_once ?p" "conns_known ?p" using inv unfolding proc_inv_def by blast+
  have n2: "n + 2 < 2 ^ 32" using assms(2) by simp
  have fresh: "nextID (w_client (y_world y)) + 1 \<noteq> ch"
    using proc_inv_fresh(1) [OF inv n2, of "ByConn k"] own by (auto simp: y_proc_def)
  have known: "k < next_sock (net (w_client (y_world y)))" using i(2) st by (auto simp: conns_known_def y_proc_def)
  have other: "ch2 \<noteq> ch" if "p_conns ?p j = Some (SocksCopying ch2)" "j \<noteq> k" for j ch2
  proof -
    have "owns ?p (ByConn j) ch2" using that(1) by simp
    then show ?thesis using i(1) own that(2) unfolding owned_once_def by blast
  qed
  note defs = step_trace_def leaves_channel_def up_keeps_def down_keeps_def client_leaves_def up_offers_def
    down_offers_def client_copied_def
  show ?thesis
  proof (cases ev)
    case (PAccept rd listen)
    obtain c1 where a: "accept_conn (p_client ?p) = (next_sock (net (p_client ?p)), c1)"
      by (simp add: accept_conn_def Let_def)
    then have "nextID c1 = nextID (p_client ?p)" by (auto simp: accept_conn_def Let_def)
    moreover have "p_conns q k = p_conns ?p k"
      using assms(4) a known
      by (auto simp: PAccept step_accept_def Let_def y_proc_def split: prod.splits socks_state.splits if_splits)
    ultimately show ?thesis
      using a known fresh st by (simp add: PAccept defs y_proc_def client_moves_def)
  next
    case (PCopy j rd ctx_done)
    then obtain ch2 where o: "p_conns ?p j = Some (SocksCopying ch2)"
      using assms(4) by (auto simp: step_copy_def split: option.splits socks_state.splits)
    show ?thesis
    proof (cases "j = k")
      case True
      then have "snd rd = None" "\<not> ctx_done" "ch2 = ch" using assms(6) PCopy o st by auto
      then show ?thesis
        using assms(4) st True copy_goes_on [of ch rd ctx_done "proc_cs ?p"]
        by (auto simp: PCopy defs step_copy_def split: prod.splits)
    next
      case False
      then show ?thesis
        using assms(4) st o other [OF o False] by (auto simp: PCopy defs step_copy_def split: prod.splits if_splits)
    qed
  next
    case (POpened j timed_out)
    then obtain ch2 r raw where o: "p_conns ?p j = Some (SocksOpening ch2 r raw)"
      using assms(4) by (auto simp: step_opened_def split: option.splits socks_state.splits)
    then have "j \<noteq> k" using st by auto
    then show ?thesis using assms(4) o st by (auto simp: POpened defs step_opened_def split: prod.splits)
  next
    case (PDone j)
    then have "j \<noteq> k" using assms(4) st by (auto simp: step_done_def)
    then show ?thesis using assms(4) st by (auto simp: PDone defs step_done_def split: option.splits socks_state.splits)
  qed (use assms(4,5,6) st in \<open>auto simp: defs proc_fine_def step_packet_def step_udp_opened_def step_udp_send_def
      step_socket_fails_def split: option.splits udp_progress.splits prod.splits if_splits\<close>)
qed

lemma linked_elsewhere:
  assumes "system_ok n y" and "linked k ch c y" and "world_step (y_world y) ev w" and "\<forall>a. ev \<noteq> ClientDoes a"
    and "\<not> ends_link k ch c (Elsewhere ev)"
  shows "leaves_channel ch k c (y_world y, ev)"
    and "up_offers ch (y_world y, ev) = []" and "down_offers ch (y_world y, ev) = remote_read ch (y, Elsewhere ev)"
proof -
  let ?w = "y_world y"
  have ok: "world_ok ?w" and link: "link_ok n ch ?w" using assms(1) by (simp_all add: system_ok_def links_def)
  have up: "tcpConns (w_client ?w) ch = Some k" "server_conns (w_server ?w) ch = Some c"
    using assms(2) by (simp_all add: linked_def channel_up_def client_good_def server_good_def carries_def tcp_conn_def)
  have none: "up_transit (open_on ch) ?w = []" "up_transit (close_on ch) ?w = []" "down_transit (close_on ch) ?w = []"
    using link up by (auto simp: link_ok_def unknown_def)
  show "leaves_channel ch k c (?w, ev)"
  proof (cases ev)
    case (ServerReads now)
    from assms(3) [unfolded this] ok obtain f where f: "next_up ?w = Some f"
      "\<And>p. frame_kind p \<Longrightarrow> up_transit p ?w = items p [f] @ up_transit p w"
      by (rule server_reads_moves) blast
    have "\<not> open_on ch f" "\<not> close_on ch f"
      using f(2) [OF frame_kinds(3), of ch] f(2) [OF frame_kinds(4), of ch] none by (auto split: if_splits)
    then show ?thesis
      using f(1) by (auto simp: ServerReads leaves_channel_def up_keeps_def down_keeps_def server_keeps_def open_on_def close_on_def)
  next
    case (ClientReads now)
    from assms(3) [unfolded this] ok obtain f where f: "next_down ?w = Some f"
      "\<And>p. frame_kind p \<Longrightarrow> down_transit p ?w = items p [f] @ down_transit p w"
      by (rule client_reads_moves) blast
    have "\<not> close_on ch f" using f(2) [OF frame_kinds(4), of ch] none by (auto split: if_splits)
    then show ?thesis
      using f(1) by (auto simp: ClientReads leaves_channel_def up_keeps_def down_keeps_def client_keeps_def close_on_def)
  next
    case (ServerDoes e)
    then have "server_own e" using assms(3) by (auto elim: world_stepE)
    then show ?thesis
      using assms(5) by (cases e) (simp_all add: ServerDoes leaves_channel_def up_keeps_def down_keeps_def server_own_def)
  qed (use assms(4) in \<open>simp_all add: leaves_channel_def up_keeps_def down_keeps_def\<close>)
  show "up_offers ch (?w, ev) = []" using assms(4) by (cases ev) (simp_all add: up_offers_def)
  show "down_offers ch (?w, ev) = remote_read ch (y, Elsewhere ev)" using assms(4) by (cases ev) (simp_all add: down_offers_def)
qed

lemma linked_moves:
  assumes "system_step y x z" and "system_ok n y" and "n + 3 < 2 ^ 32" and "linked k ch c y" and "\<not> ends_link k ch c x"
  shows "y_conns z k = Some (SocksCopying ch) \<and> (\<forall>e \<in> set (step_trace (y, x)). leaves_channel ch k c e)
    \<and> concat (map (up_offers ch) (step_trace (y, x))) = local_read k (y, x)
    \<and> concat (map (down_offers ch) (step_trace (y, x))) = remote_read ch (y, x)"
  using assms(1)
proof (cases rule: system_step.cases)
  case (goroutine ev q)
  from linked_goroutine [OF assms(2-4) goroutine(4,3)] assms(5) show ?thesis by (simp add: goroutine(1,2))
next
  case (elsewhere ev w)
  from linked_elsewhere [OF assms(2,4) elsewhere(4,3)] assms(4,5) show ?thesis
    by (simp add: elsewhere(1,2) step_trace_def linked_def)
qed

lemma linked_step:
  assumes "system_step y x z" and "system_ok n y" and "n + 3 < 2 ^ 32" and "linked k ch c y" and "\<not> ends_link k ch c x"
  shows "linked k ch c z
    \<and> pipe_goes False (tcp_up_pipe ch c (y_world y)) (local_read k (y, x)) (tcp_up_pipe ch c (y_world z))
    \<and> pipe_goes False (tcp_down_pipe ch k (y_world y)) (remote_read ch (y, x)) (tcp_down_pipe ch k (y_world z))"
proof -
  have ok: "world_ok (y_world y)" "sends_short (y_proc y)" using assms(2) by (simp_all add: system_ok_def)
  have up: "channel_up ch k c (y_world y)" using assms(4) by (simp add: linked_def)
  from tcp_run [OF system_step_world [OF assms(1) ok] ok(1) up] linked_moves [OF assms] show ?thesis
    by (simp add: linked_def)
qed

lemma linked_run:
  assumes "system_run y tr z" and "system_ok n y" and "n + length tr + 3 < 2 ^ 32" and "linked k ch c y"
    and "\<forall>x \<in> set tr. \<not> ends_link k ch c (snd x)"
  shows "linked k ch c z
    \<and> pipe_goes False (tcp_up_pipe ch c (y_world y)) (concat (map (local_read k) tr)) (tcp_up_pipe ch c (y_world z))
    \<and> pipe_goes False (tcp_down_pipe ch k (y_world y)) (concat (map (remote_read ch) tr)) (tcp_down_pipe ch k (y_world z))"
  using assms
proof (induction rule: system_run.induct)
  case (system_rest y)
  then show ?case by (simp add: pipe_goes_refl)
next
  case (system_on y tr z x z2)
  have n: "n + length tr + 3 < 2 ^ 32" using system_on.prems(2) by simp
  obtain m where m: "m \<le> n + length tr" "system_ok m z"
    using system_ok_run [OF system_on.hyps(1) system_on.prems(1) n] by blast
  have m3: "m + 3 < 2 ^ 32" using m(1) n by simp
  have ih: "linked k ch c z"
    "pipe_goes False (tcp_up_pipe ch c (y_world y)) (concat (map (local_read k) tr)) (tcp_up_pipe ch c (y_world z))"
    "pipe_goes False (tcp_down_pipe ch k (y_world y)) (concat (map (remote_read ch) tr)) (tcp_down_pipe ch k (y_world z))"
    using system_on.IH [OF system_on.prems(1) n system_on.prems(3)] system_on.prems(4) by simp_all
  have "\<not> ends_link k ch c x" using system_on.prems(4) by simp
  note st = linked_step [OF system_on.hyps(2) m(2) m3 ih(1) this]
  from pipe_goes_trans [OF ih(2), of "local_read k (z, x)" "tcp_up_pipe ch c (y_world z2)"]
    pipe_goes_trans [OF ih(3), of "remote_read ch (z, x)" "tcp_down_pipe ch k (y_world z2)"] st
  show ?case by simp
qed

end
