(* ===== verification/SLPP_Connect.thy ===== *)
theory SLPP_Connect
  imports SLPP_System
begin

text \<open>
  A SOCKS CONNECT through the whole system, from the acceptance of the connection to the success reply:
  a schedule under which it completes, so that the connections of \<open>SLPP_System\<close> exist, and the
  theorem on how long they last.
\<close>

section \<open>Runs of a given length\<close>

definition reaches :: "nat \<Rightarrow> system \<Rightarrow> system \<Rightarrow> bool" where
  "reaches n y z \<longleftrightarrow> (\<exists>tr. system_run y tr z \<and> length tr = n)"

lemma system_run_trans: "system_run z tr2 u \<Longrightarrow> system_run y tr z \<Longrightarrow> system_run y (tr @ tr2) u"
proof (induction rule: system_run.induct)
  case (system_on z tr2 v x u)
  then show ?case using system_run.system_on [of y "tr @ tr2" v x u] by simp
qed simp

lemma reaches_refl: "reaches 0 y y"
  unfolding reaches_def using system_rest by auto

lemma reaches_trans: "reaches n y z \<Longrightarrow> reaches m z u \<Longrightarrow> reaches (n + m) y u"
  unfolding reaches_def by (metis length_append system_run_trans)

lemma reaches_step: "system_step y x z \<Longrightarrow> reaches 1 y z"
  unfolding reaches_def using system_on [OF system_rest] by (intro exI [of _ "[(y, x)]"]) simp

lemma reaches_elsewhere:
  "world_step (y_world y) ev w \<Longrightarrow> \<forall>a. ev \<noteq> ClientDoes a \<Longrightarrow> reaches 1 y (y\<lparr>y_world := w\<rparr>)"
  using reaches_step [OF elsewhere] by blast

section \<open>Turns of the two ends\<close>

lemma sent_since_trans:
  assumes "written (s_writer t) = written (s_writer s) @ sent_since s t"
    and "written (s_writer u) = written (s_writer t) @ sent_since t u"
  shows "sent_since s u = sent_since s t @ sent_since t u"
proof -
  have "written (s_writer u) = written (s_writer s) @ sent_since s t @ sent_since t u" using assms by simp
  then show ?thesis unfolding sent_since_def [of s u] by simp
qed

lemma writes_sent:
  assumes "sending P s" and "\<And>f g. body f = body g \<Longrightarrow> P f = P g" and "\<And>f. ftype f = FramePING \<Longrightarrow> P f"
    and "t = apply_events (replicate n EvWrite) s"
  shows "sending P t" and "written (s_writer t) = written (s_writer s) @ sent_since s t" and "s_reader t = s_reader s"
proof -
  have "sound_events P (replicate n EvWrite)" by (simp add: sound_events_def good_events_def) (induction n; simp)
  from sending_events [OF assms(1) this assms(2,3,4) frame_kinds(1)]
  show "sending P t" "written (s_writer t) = written (s_writer s) @ sent_since s t" "s_reader t = s_reader s" by simp_all
qed

lemma system_update: "\<lparr>y_world = w, y_conns = y_conns y, y_assocs = y_assocs y\<rparr> = y\<lparr>y_world := w\<rparr>"
  by (cases y) simp

text \<open>The client's write loop runs \<open>n\<close> times and the network delivers what it has written.\<close>

lemma client_writes_reach:
  assumes "world_ok (y_world y)"
  shows "reaches n y (y\<lparr>y_world := client_moves (w_client (y_world y),
    apply_events (replicate n EvWrite) (w_csess (y_world y))) (y_world y)\<rparr>)"
  using assms
proof (induction n arbitrary: y)
  case 0
  have "client_moves (w_client w, w_csess w) w = w" for w by (simp add: client_moves_def sent_since_def)
  then show ?case using reaches_refl by simp
next
  case (Suc n)
  let ?w = "y_world y"
  let ?w1 = "client_moves (client_act ClientWrite (w_client ?w, w_csess ?w)) ?w"
  let ?y1 = "y\<lparr>y_world := ?w1\<rparr>"
  have acts: "client_acts (replicate m ClientWrite) (c, s) = (c, apply_events (replicate m EvWrite) s)" for m c s
    by (induction m arbitrary: s) simp_all
  have "system_step y (Goroutine PWrite)
    \<lparr>y_world = client_moves (proc_cs ((y_proc y)\<lparr>p_session := snd (writeLoop_iter SelDefault (p_session (y_proc y)))\<rparr>)) ?w,
     y_conns = y_conns y, y_assocs = y_assocs y\<rparr>"
    using goroutine [of PWrite y] by (simp add: proc_fine_def y_proc_def)
  then have "system_step y (Goroutine PWrite) ?y1" by (simp add: y_proc_def system_update)
  then have one: "reaches 1 y ?y1" by (rule reaches_step)
  have ok: "world_ok ?w1" by (rule world_ok_step [OF act_step Suc.prems]) (simp_all add: client_own_def)
  have "client_moves (client_acts (replicate n ClientWrite) (w_client ?w1, w_csess ?w1)) ?w1
      = client_moves (client_acts (ClientWrite # replicate n ClientWrite) (w_client ?w, w_csess ?w)) ?w"
    by (rule acts_after [OF Suc.prems _ refl]) simp
  also have "ClientWrite # replicate n ClientWrite = replicate (Suc n) ClientWrite" by simp
  finally have "reaches n ?y1 (?y1\<lparr>y_world := client_moves (w_client ?w, apply_events (replicate (Suc n) EvWrite) (w_csess ?w)) ?w\<rparr>)"
    using Suc.IH [of ?y1] ok unfolding acts by simp
  from reaches_trans [OF one this] show ?case by simp
qed

lemma up_delivery:
  assumes "world_ok (y_world y)" and "w = y_world y" and "s = apply_events (replicate n EvWrite) (w_csess w)"
  shows "reaches (n + 1) y (y\<lparr>y_world := w\<lparr>w_csess := s, w_up := [],
    w_ssess := arrive (w_up w @ sent_since (w_csess w) s) (w_ssess w)\<rparr>\<rparr>)"
proof -
  let ?w1 = "client_moves (w_client w, s) w"
  let ?bs = "w_up w @ sent_since (w_csess w) s"
  have up: "w_up ?w1 = ?bs" by (simp add: client_moves_def)
  have "world_step ?w1 (UpArrives (length ?bs)) (?w1\<lparr>w_up := drop (length ?bs) (w_up ?w1),
      w_ssess := arrive (take (length ?bs) (w_up ?w1)) (w_ssess ?w1)\<rparr>)"
    by (rule up_arrives) (simp add: up)
  then have "world_step ?w1 (UpArrives (length ?bs)) (w\<lparr>w_csess := s, w_up := [], w_ssess := arrive ?bs (w_ssess w)\<rparr>)"
    by (simp add: up client_moves_def)
  then have "reaches 1 (y\<lparr>y_world := ?w1\<rparr>) (y\<lparr>y_world := w\<lparr>w_csess := s, w_up := [], w_ssess := arrive ?bs (w_ssess w)\<rparr>\<rparr>)"
    using reaches_elsewhere [of "y\<lparr>y_world := ?w1\<rparr>"] by simp
  moreover have "reaches n y (y\<lparr>y_world := ?w1\<rparr>)" using client_writes_reach [OF assms(1), of n] assms(2,3) by simp
  ultimately show ?thesis by (rule reaches_trans [rotated])
qed

text \<open>The server's write loop runs \<open>n\<close> times and the network delivers what it has written.\<close>

lemma server_writes_reach:
  assumes "world_ok (y_world y)" and "w = y_world y" and "t = apply_events (replicate n EvWrite) (w_ssess w)"
  shows "reaches n y (y\<lparr>y_world := w\<lparr>w_ssess := t, w_down := w_down w @ sent_since (w_ssess w) t\<rparr>\<rparr>)"
  using assms
proof (induction n arbitrary: y w)
  case 0
  then show ?case using reaches_refl by (simp add: sent_since_def)
next
  case (Suc n)
  let ?t1 = "apply_events (replicate 1 EvWrite) (w_ssess w)"
  let ?w1 = "w\<lparr>w_ssess := ?t1, w_down := w_down w @ sent_since (w_ssess w) ?t1\<rparr>"
  have "world_step w (ServerDoes WriteIter) (w\<lparr>w_server := w_server w, w_ssess := ?t1, w_down := w_down w @ sent_since (w_ssess w) ?t1\<rparr>)"
    by (rule server_does) (simp_all add: server_own_def)
  then have st: "world_step w (ServerDoes WriteIter) ?w1" by simp
  have one: "reaches 1 y (y\<lparr>y_world := ?w1\<rparr>)" using reaches_elsewhere [of y] st Suc.prems(2) by simp
  have ok: "world_ok ?w1" using world_ok_step [OF st] Suc.prems(1,2) by simp
  have s: "sending response_ok (w_ssess w)" using Suc.prems(1,2) by (simp add: world_ok_def)
  note wr = writes_sent [OF s server_endpoint.sends_body server_endpoint.sends_ping refl]
  have t: "t = apply_events (replicate n EvWrite) ?t1" using Suc.prems(3) by simp
  note wr2 = writes_sent [OF wr(1) server_endpoint.sends_body server_endpoint.sends_ping t]
  have "sent_since (w_ssess w) t = sent_since (w_ssess w) ?t1 @ sent_since ?t1 t"
    using sent_since_trans [OF wr(2) wr2(2)] .
  with reaches_trans [OF one Suc.IH [of "y\<lparr>y_world := ?w1\<rparr>" ?w1]] ok t show ?case by simp
qed

lemma down_delivery:
  assumes "world_ok (y_world y)" and "w = y_world y" and "t = apply_events (replicate n EvWrite) (w_ssess w)"
  shows "reaches (n + 1) y (y\<lparr>y_world := w\<lparr>w_ssess := t, w_down := [],
    w_csess := arrive (w_down w @ sent_since (w_ssess w) t) (w_csess w)\<rparr>\<rparr>)"
proof -
  let ?bs = "w_down w @ sent_since (w_ssess w) t"
  let ?w1 = "w\<lparr>w_ssess := t, w_down := ?bs\<rparr>"
  have "world_step ?w1 (DownArrives (length ?bs)) (?w1\<lparr>w_down := drop (length ?bs) (w_down ?w1),
      w_csess := arrive (take (length ?bs) (w_down ?w1)) (w_csess ?w1)\<rparr>)"
    by (rule down_arrives) simp
  then have "reaches 1 (y\<lparr>y_world := ?w1\<rparr>) (y\<lparr>y_world := w\<lparr>w_ssess := t, w_down := [], w_csess := arrive ?bs (w_csess w)\<rparr>\<rparr>)"
    using reaches_elsewhere [of "y\<lparr>y_world := ?w1\<rparr>"] by simp
  from reaches_trans [OF server_writes_reach [OF assms] this] show ?thesis .
qed

text \<open>The read loops take \<open>n\<close> frames.\<close>

lemma readLoop_decodes:
  "readLoop_iter handle SelDefault now h s = (Continue, h2, s2) \<Longrightarrow> \<exists>f r. Decode (s_reader s) = (Inr f, r)"
  by (auto simp: readLoop_iter_def split: prod.splits sum.splits)

lemma server_reads_reach:
  assumes "w = y_world y" and "w_sread w = Continue"
    and "read_iters HandleFrame now n (w_server w) (w_ssess w) = (Continue, h, t)"
  shows "reaches n y (y\<lparr>y_world := w\<lparr>w_server := h, w_ssess := t\<rparr>\<rparr>)"
  using assms
proof (induction n arbitrary: y w)
  case 0
  then show ?case by (auto simp: reaches_refl)
next
  case (Suc n)
  obtain h1 t1 where it: "readLoop_iter HandleFrame SelDefault now (w_server w) (w_ssess w) = (Continue, h1, t1)"
    and rest: "read_iters HandleFrame now n h1 t1 = (Continue, h, t)"
    using Suc.prems(3) by (auto split: prod.splits loop_result.splits)
  let ?w1 = "w\<lparr>w_server := h1, w_ssess := t1\<rparr>"
  obtain f r where "Decode (s_reader (w_ssess w)) = (Inr f, r)" using readLoop_decodes [OF it] by blast
  from server_reads [OF Suc.prems(2) this it]
  have "world_step w (ServerReads now) (?w1\<lparr>w_sread := Continue\<rparr>)" by simp
  moreover have "?w1\<lparr>w_sread := Continue\<rparr> = ?w1" using Suc.prems(2) by simp
  ultimately have st: "world_step w (ServerReads now) ?w1" by simp
  have "reaches 1 y (y\<lparr>y_world := ?w1\<rparr>)" using reaches_elsewhere [of y] st Suc.prems(1) by simp
  from reaches_trans [OF this Suc.IH [of ?w1 "y\<lparr>y_world := ?w1\<rparr>"]] Suc.prems(2) rest show ?case by simp
qed

lemma client_reads_reach:
  assumes "w = y_world y" and "w_cread w = Continue"
    and "read_iters client_HandleFrame now n (w_client w) (w_csess w) = (Continue, c, s)"
  shows "reaches n y (y\<lparr>y_world := w\<lparr>w_client := c, w_csess := s\<rparr>\<rparr>)"
  using assms
proof (induction n arbitrary: y w)
  case 0
  then show ?case by (auto simp: reaches_refl)
next
  case (Suc n)
  obtain c1 s1 where it: "readLoop_iter client_HandleFrame SelDefault now (w_client w) (w_csess w) = (Continue, c1, s1)"
    and rest: "read_iters client_HandleFrame now n c1 s1 = (Continue, c, s)"
    using Suc.prems(3) by (auto split: prod.splits loop_result.splits)
  let ?w1 = "w\<lparr>w_client := c1, w_csess := s1\<rparr>"
  obtain f r where "Decode (s_reader (w_csess w)) = (Inr f, r)" using readLoop_decodes [OF it] by blast
  from client_reads [OF Suc.prems(2) this it]
  have "world_step w (ClientReads now) (?w1\<lparr>w_cread := Continue\<rparr>)" by simp
  moreover have "?w1\<lparr>w_cread := Continue\<rparr> = ?w1" using Suc.prems(2) by simp
  ultimately have st: "world_step w (ClientReads now) ?w1" by simp
  have "reaches 1 y (y\<lparr>y_world := ?w1\<rparr>)" using reaches_elsewhere [of y] st Suc.prems(1) by simp
  from reaches_trans [OF this Suc.IH [of ?w1 "y\<lparr>y_world := ?w1\<rparr>"]] Suc.prems(2) rest show ?case by simp
qed

section \<open>A CONNECT request completes\<close>

lemma reaches_ok:
  assumes "system_ok 0 y" and "reaches n y z" and "n + 3 < 2 ^ 32"
  shows "world_ok (y_world z)"
proof -
  obtain tr where "system_run y tr z" "length tr = n" using assms(2) unfolding reaches_def by blast
  from system_ok_run [OF this(1) assms(1)] this(2) assms(3) show ?thesis by (auto simp: system_ok_def)
qed

text \<open>The request names a host or an IPv4 address.\<close>

definition names_target :: "byte list \<Rightarrow> string \<Rightarrow> bool" where
  "names_target header target \<longleftrightarrow>
     (\<exists>ip port. length ip = 4 \<and> header = ip4_header ip port \<and> target = host_port (ip4_string ip) port)
     \<or> (\<exists>host port. length host \<le> 255 \<and> header = name_header host port \<and> target = host_port host port)"

definition connect_request :: "reader \<Rightarrow> byte list \<Rightarrow> bool" where
  "connect_request rd header \<longleftrightarrow> (\<exists>v methods v2 x rest. length methods \<le> 255
     \<and> avail rd = [v, of_nat (length methods)] @ methods @ [v2, 0x01, x] @ header @ rest)"

lemma names_target_length: "names_target header target \<Longrightarrow> length target \<le> 263"
  using length_host_port length_ip4_string by (fastforce simp: names_target_def)

text \<open>The client accepts the connection, reads the request and queues an OPENTCP.\<close>

lemma connect_accepted:
  assumes "y_world y = world_start c s h t" and "world_ok (y_world y)"
    and "control_room s (data_frame FrameOPENTCP (nextID c + 1) (EncodeAddress target))"
    and "connect_request rd header" and "names_target header target"
    and "k = next_sock (net c)" and "ch = nextID c + 1"
  obtains c2 s2 z where "reaches 1 y z" and "y_world z = world_start c2 s2 h t"
    and "y_conns z = (y_conns y)(k \<mapsto> SocksOpening ch (next_chan c) header)"
    and "tcpConns c2 = (tcpConns c)(ch \<mapsto> k)" and "openResults c2 = (openResults c)(ch \<mapsto> next_chan c)"
    and "nextID c2 = ch" and "next_chan c2 = next_chan c + 1" and "next_sock (net c2) = k + 1"
    and "healthy k (net c2)" and "delivered k (net c2) = [[0x05, 0x00]]"
    and "\<And>j. j \<noteq> k \<Longrightarrow> sockets (net c2) j = sockets (net c) j" and "s_reader s2 = s_reader s"
    and "q_list (controlQ s2) = q_list (controlQ s) @ [data_frame FrameOPENTCP ch (EncodeAddress target)]"
    and "dataQ s2 = dataQ s"
proof -
  obtain v methods v2 x rest where rd: "length methods \<le> 255"
    "avail rd = [v, of_nat (length methods)] @ methods @ [v2, 0x01, x] @ header @ rest"
    using assms(4) unfolding connect_request_def by blast
  obtain ip host port where hd: "(length ip = 4 \<and> header = ip4_header ip port \<and> target = host_port (ip4_string ip) port)
      \<or> (header = name_header host port \<and> length host \<le> 255 \<and> target = host_port host port)"
    using assms(5) unfolding names_target_def by blast
  obtain c1 where c1: "accept_conn c = (k, c1)" "healthy k (net c1)" "delivered k (net c1) = []"
    "nextID c1 = nextID c" "next_chan c1 = next_chan c" "tcpConns c1 = tcpConns c" "openResults c1 = openResults c"
    "next_sock (net c1) = k + 1" "\<forall>j. j \<noteq> k \<longrightarrow> sockets (net c1) j = sockets (net c) j"
    using assms(6) by (simp add: accept_conn_def healthy_def delivered_def Let_def)
  have wf: "session_wf s" using assms(1,2) by (simp add: world_ok_def sending_def ready_def world_start_def)
  have room: "control_room s (data_frame FrameOPENTCP (nextID c1 + 1) (EncodeAddress target))" using assms(3) c1(4) by simp
  obtain st rd2 c2 s2 where run: "handleSocksConn_begin k rd (Inl EOF) (c1, s) = (st, rd2, c2, s2)" by (metis prod_cases4)
  note b = connect_begin [OF rd(2,1) hd c1(2) wf room run]
  have "snd (snd (snd (handleSocksConn_begin k rd (Inl EOF) (c1, s)))) = apply_events (act_events (SocksConn k rd (Inl EOF)) c1) s"
    using socks_events [of k rd "Inl EOF" "(c1, s)"] by simp
  then have s2: "s2 = apply_events (act_events (SocksConn k rd (Inl EOF)) c1) s" by (simp add: run)
  have "act_events (SocksConn k rd (Inl EOF)) c1 = [] \<or> (\<exists>f. act_events (SocksConn k rd (Inl EOF)) c1 = [EvQueue Control f])"
    by (auto simp: act_events_def split: option.split prod.split)
  then have rw: "s_reader s2 = s_reader s" "s_writer s2 = s_writer s"
    using QueueControl_queues_only [of s] s2 by (auto simp: queues_only_def)
  let ?z = "\<lparr>y_world = world_start c2 s2 h t, y_conns = (y_conns y)(k \<mapsto> SocksOpening ch (next_chan c) header),
    y_assocs = y_assocs y\<rparr>"
  have st: "st = SocksOpening ch (next_chan c) header" using b c1(4,5) assms(7) by simp
  have "client_moves (c2, s2) (y_world y) = world_start c2 s2 h t"
    using rw(2) by (simp add: assms(1) client_moves_def world_start_def sent_since_def)
  then have "system_step y (Goroutine (PAccept rd (Inl EOF))) ?z"
    using goroutine [of "PAccept rd (Inl EOF)" y] c1(1) run st
    by (simp add: proc_fine_def step_accept_def y_proc_def assms(1) world_start_def)
  then have "reaches 1 y ?z" by (rule reaches_step)
  moreover have "\<And>j. j \<noteq> k \<Longrightarrow> sockets (net c2) j = sockets (net c) j"
    using b c1(9) by (auto simp: sock_write_def split_beta Let_def split: option.split)
  ultimately show thesis
    using b c1 sock_write_healthy [OF c1(2), of "[0x05, 0x00]"] rw(1) assms(7)
    by (intro that [of ?z c2 s2]) simp_all
qed

text \<open>A session with nothing queued and nothing left to read.\<close>

definition quiet :: "session \<Rightarrow> bool" where
  "quiet s \<longleftrightarrow> q_list (controlQ s) = [] \<and> q_list (dataQ s) = [] \<and> avail (s_reader s) = []"

lemma drained_quiet:
  assumes "ready s" and "length (q_list (controlQ s)) + length (q_list (dataQ s)) \<le> n"
    and "t = apply_events (replicate n EvWrite) s"
  shows "q_list (controlQ t) = []" and "q_list (dataQ t) = []"
proof -
  have "queued s \<le> n" using assms(2) by (simp add: queued_def)
  from drain [OF assms(1) this] have "queued t = 0" using assms(3) by simp
  then show "q_list (controlQ t) = []" "q_list (dataQ t) = []" by (simp_all add: queued_def q_list_Nil)
qed

lemma frames_read:
  assumes "sending P s" and "\<And>f g. body f = body g \<Longrightarrow> P f = P g" and "\<And>f. ftype f = FramePING \<Longrightarrow> P f"
    and "t = apply_events (replicate n EvWrite) s" and "q_list (controlQ s) @ q_list (dataQ s) = gs"
    and "length gs = n" and "avail r = sent_since s t"
  obtains fs where "read_all Decode n r = (Inr fs, r\<lparr>avail := []\<rparr>)" and "map body fs = map body gs"
proof -
  have len: "queued s \<le> n" unfolding queued_length assms(5) using assms(6) by simp
  have "written (s_writer t) = written (s_writer s) @ avail r"
    using writes_sent(2) [OF assms(1-4)] assms(7) by simp
  from drained_read [OF _ len assms(4) this] assms(1)
  obtain fs where fs: "read_all Decode (length fs) r = (Inr fs, r\<lparr>avail := []\<rparr>)" "map body fs = map body gs"
    unfolding assms(5) sending_def by blast
  moreover have "length fs = n" using arg_cong [OF fs(2), of length] assms(6) by simp
  ultimately show thesis using that by simp
qed

lemma two_frames_read:
  assumes "sending P s" and "\<And>f g. body f = body g \<Longrightarrow> P f = P g" and "\<And>f. ftype f = FramePING \<Longrightarrow> P f"
    and "t = apply_events (replicate 2 EvWrite) s" and "q_list (controlQ s) @ q_list (dataQ s) = [f, g]"
    and "avail r = sent_since s t"
  obtains fs where "read_all Decode 2 r = (Inr fs, r\<lparr>avail := []\<rparr>)" and "map body fs = [body f, body g]"
  using frames_read [OF assms(1-5) _ assms(6)] by auto

text \<open>Both frames reach the server, which accepts the token and dials.\<close>

lemma connect_dialled:
  assumes "y_world y = world_start c s h t" and "world_ok (y_world y)"
    and "q_list (controlQ s) = [auth_frame token nonce, data_frame FrameOPENTCP 2 (EncodeAddress target)]"
    and "q_list (dataQ s) = []" and "q_list (controlQ t) = []" and "q_list (dataQ t) = []" and "avail (s_reader t) = []"
    and "DecodeAuthPayload (payload (auth_frame token nonce)) = Inr \<lparr>Token = token, Nonce = nonce\<rparr>"
    and "fst (Validate (map_order h (tokens (validator h))) (now_ns h) (later_ns h) token nonce (validator h)) = None"
    and "dial_error (snd (tcp h)) ''tcp'' target = None" and "length target \<le> 263"
  obtains s2 h2 t2 where "reaches 5 y (y\<lparr>y_world := world_start c s2 h2 t2\<rparr>)" and "authOK h2"
    and "snd (tcp h2) = snd (dial ''tcp'' target (snd (tcp h)))"
    and "tcp_conn 2 (fst (tcp h2)) = Some (next_sock (snd (tcp h)))" and "s_reader s2 = s_reader s"
    and "q_list (controlQ s2) = []" and "q_list (dataQ s2) = []" and "avail (s_reader t2) = []"
    and "q_list (controlQ t2) = [reply FrameAUTHOK 0 [], open_reply 2 None]" and "q_list (dataQ t2) = []"
proof -
  let ?a = "auth_frame token nonce" and ?g = "data_frame FrameOPENTCP 2 (EncodeAddress target)"
  have ok: "sending request_ok s" "sending response_ok t"
    using assms(1,2) by (simp_all add: world_ok_def world_start_def)
  define s2 where "s2 = apply_events (replicate 2 EvWrite) s"
  define bs where "bs = sent_since s s2"
  have w: "w_csess (y_world y) = s" "w_ssess (y_world y) = t" "w_up (y_world y) = []"
    by (simp_all add: assms(1) world_start_def)
  have run: "reaches 3 y (y\<lparr>y_world := world_start c s2 h (arrive bs t)\<rparr>)"
    using up_delivery [OF assms(2) refl, of s2 2] w
    by (simp add: assms(1) world_start_def s2_def [symmetric] bs_def)
  note wr = writes_sent [OF ok(1) client_endpoint.sends_body client_endpoint.sends_ping s2_def]
  have "avail (s_reader (arrive bs t)) = sent_since s s2" using assms(7) by (simp add: bs_def)
  from two_frames_read [OF ok(1) client_endpoint.sends_body client_endpoint.sends_ping s2_def _ this, of ?a ?g] assms(3,4)
  obtain fs where fs: "read_all Decode 2 (s_reader (arrive bs t)) = (Inr fs, (s_reader (arrive bs t))\<lparr>avail := []\<rparr>)"
    "map body fs = [body ?a, body ?g]" by auto
  have ar: "ready (arrive bs t)" "q_list (controlQ (arrive bs t)) = []" "dataQ (arrive bs t) = dataQ t"
    using ok(2) assms(5) by (simp_all add: arrive_def sending_def ready_def session_wf_def all_class)
  have au: "ftype ?a = FrameAUTH" "ftype ?g = FrameOPENTCP" "channelID ?g = 2"
    by (simp_all add: auth_frame_def new_frame_simps)
  have ad: "DecodeAddress (payload ?g) = Inr target"
    using DecodeAddress_Encode [of target "[]"] assms(11) by (simp add: new_frame_simps)
  have val: "fst (Validate (map_order h (tokens (validator h))) (now_ns h) (later_ns h)
      (Token \<lparr>Token = token, Nonce = nonce\<rparr>) (Nonce \<lparr>Token = token, Nonce = nonce\<rparr>) (validator h)) = None"
    using assms(9) by simp
  have len: "length (payload (open_reply 2 None)) \<le> 16384" by (simp add: open_reply_def new_frame_simps)
  obtain h2 t2 where rd: "read_iters HandleFrame 0 2 h (arrive bs t) = (Continue, h2, t2)"
    and h2: "authOK h2" "snd (tcp h2) = snd (dial ''tcp'' target (snd (tcp h)))"
      "tcp_conn 2 (fst (tcp h2)) = Some (next_sock (snd (tcp h)))"
    and t2: "dataQ t2 = dataQ (arrive bs t)" "avail (s_reader t2) = []" "q_list (controlQ t2) = [reply FrameAUTHOK 0 [], open_reply 2 None]"
    using server_answers [OF fs assms(8) au(1) val au(2) ad au(3) assms(10) len ar(1,2), of 0] by auto
  have "reaches 2 (y\<lparr>y_world := world_start c s2 h (arrive bs t)\<rparr>) (y\<lparr>y_world := world_start c s2 h2 t2\<rparr>)"
    using server_reads_reach [of "world_start c s2 h (arrive bs t)" "y\<lparr>y_world := world_start c s2 h (arrive bs t)\<rparr>" 0 2 h2 t2] rd
    by (simp add: world_start_def)
  from reaches_trans [OF run this] have "reaches 5 y (y\<lparr>y_world := world_start c s2 h2 t2\<rparr>)" by simp
  moreover have "ready s" using ok(1) by (simp add: sending_def)
  ultimately show thesis
    using h2 t2 wr(3) ar(3) assms(3,4,6) drained_quiet [OF _ _ s2_def]
    by (intro that [of s2 h2 t2]) simp_all
qed

text \<open>Both answers reach the client, whose goroutine sends the success reply.\<close>

lemma connect_answered:
  assumes "y_world y = world_start c s h t" and "world_ok (y_world y)"
    and "q_list (controlQ t) = [reply FrameAUTHOK 0 [], open_reply 2 None]" and "q_list (dataQ t) = []"
    and "quiet s" and "avail (s_reader t) = []" and "openResults c = [2 \<mapsto> 0]"
  obtains s2 t2 where "reaches 5 y (y\<lparr>y_world := world_start (signalOpen 2 None c) s2 h t2\<rparr>)" and "quiet s2" and "quiet t2"
proof -
  have ok: "sending response_ok t" using assms(1,2) by (simp add: world_ok_def world_start_def)
  define t2 where "t2 = apply_events (replicate 2 EvWrite) t"
  define bs where "bs = sent_since t t2"
  have w: "w_csess (y_world y) = s" "w_ssess (y_world y) = t" "w_down (y_world y) = []"
    by (simp_all add: assms(1) world_start_def)
  have run: "reaches 3 y (y\<lparr>y_world := world_start c (arrive bs s) h t2\<rparr>)"
    using down_delivery [OF assms(2) refl, of t2 2] w
    by (simp add: assms(1) world_start_def t2_def [symmetric] bs_def)
  have "avail (s_reader (arrive bs s)) = sent_since t t2" using assms(5) by (simp add: quiet_def bs_def)
  from two_frames_read [OF ok server_endpoint.sends_body server_endpoint.sends_ping t2_def _ this,
      of "reply FrameAUTHOK 0 []" "open_reply 2 None"] assms(3,4)
  obtain fs where fs: "read_all Decode 2 (s_reader (arrive bs s)) = (Inr fs, (s_reader (arrive bs s))\<lparr>avail := []\<rparr>)"
    "map body fs = [body (reply FrameAUTHOK 0 []), body (open_reply 2 None)]" by auto
  have "openResults c 2 = Some 0" using assms(7) by simp
  from client_hears(1) [OF fs this, where now = 0]
  obtain s2 where rd: "read_iters client_HandleFrame 0 2 c (arrive bs s) = (Continue, signalOpen 2 None c, s2)"
    and s2: "avail (s_reader s2) = []" "controlQ s2 = controlQ s" "dataQ s2 = dataQ s" by (auto simp: arrive_def)
  have "reaches 2 (y\<lparr>y_world := world_start c (arrive bs s) h t2\<rparr>) (y\<lparr>y_world := world_start (signalOpen 2 None c) s2 h t2\<rparr>)"
    using client_reads_reach [of "world_start c (arrive bs s) h t2" "y\<lparr>y_world := world_start c (arrive bs s) h t2\<rparr>" 0 2
        "signalOpen 2 None c" s2] rd
    by (simp add: world_start_def)
  from reaches_trans [OF run this]
  have "reaches 5 y (y\<lparr>y_world := world_start (signalOpen 2 None c) s2 h t2\<rparr>)" by simp
  moreover have "ready t" using ok by (simp add: sending_def)
  moreover note writes_sent(3) [OF ok server_endpoint.sends_body server_endpoint.sends_ping t2_def]
  ultimately show thesis
    using s2 assms(3-6) drained_quiet [OF _ _ t2_def]
    by (intro that [of s2 t2]) (simp_all add: quiet_def)
qed

lemma connect_replied:
  assumes "y_world y = world_start (signalOpen 2 None c) s h t" and "y_conns y = [k \<mapsto> SocksOpening 2 0 header]"
    and "tcpConns c = [2 \<mapsto> k]" and "openResults c = [2 \<mapsto> 0]" and "healthy k (net c)" and "delivered k (net c) = xs"
  obtains c2 where "reaches 1 y (y\<lparr>y_world := world_start c2 s h t, y_conns := [k \<mapsto> SocksCopying 2]\<rparr>)"
    and "client_good 2 k c2" and "delivered k (net c2) = xs @ [[0x05, 0x00, 0x00] @ header]"
    and "tcpConns c2 = [2 \<mapsto> k]" and "nextID c2 = nextID c" and "next_chan c2 = next_chan c"
    and "next_sock (net c2) = next_sock (net c)"
proof -
  let ?c = "signalOpen 2 None c"
  let ?c2 = "?c\<lparr>net := snd (sock_write k ([0x05, 0x00, 0x00] @ header) (net ?c))\<rparr>"
  have c: "chans ?c 0 = Some None" "tcpConns ?c = [2 \<mapsto> k]" "net ?c = net c" "nextID ?c = nextID c" "next_chan ?c = next_chan c"
    using assms(3,4) by (simp_all add: signalOpen_def Let_def)
  have run: "handleSocksConn_opened k 2 0 header False ?c = (SocksCopying 2, ?c2)"
    using c(1) by (simp add: handleSocksConn_opened_def open_result_def client_write_def split_beta Let_def)
  have "client_moves (?c2, s) (y_world y) = world_start ?c2 s h t"
    by (simp add: assms(1) client_moves_def world_start_def sent_since_def)
  then have "system_step y (Goroutine (POpened k False))
      (y\<lparr>y_world := world_start ?c2 s h t, y_conns := [k \<mapsto> SocksCopying 2]\<rparr>)"
    using goroutine [of "POpened k False" y] run assms(1,2)
    by (cases y) (simp add: proc_fine_def step_opened_def y_proc_def world_start_def)
  then have "reaches 1 y (y\<lparr>y_world := world_start ?c2 s h t, y_conns := [k \<mapsto> SocksCopying 2]\<rparr>)" by (rule reaches_step)
  then show thesis
    using sock_write_healthy [of k "net c" "[0x05, 0x00, 0x00] @ header"] assms(5,6) c
    by (intro that [of ?c2]) (auto simp: client_good_def)
qed

lemma world_tcp_inv:
  assumes "world_step w ev v" and "tr.table_inv (tcp (w_server w))"
  shows "tr.table_inv (tcp (w_server v))"
  using assms
proof (induction rule: world_step.induct)
  case (server_does ev w h t)
  then show ?case using tcp_inv_event [of "(w_server w, w_ssess w)" ev] by simp
next
  case (server_reads w f r now res h t)
  then have "\<exists>e. HandleFrame f (w_server w) (received now f r (w_ssess w)) = (e, h, t)"
    by (auto simp: readLoop_iter_def Let_def simp flip: received_def split: prod.splits option.splits)
  then obtain e where "HandleFrame f (w_server w) (received now f r (w_ssess w)) = (e, h, t)" by blast
  then show ?case using tcp_inv_event [of "(w_server w, received now f r (w_ssess w))" "FrameIn f"] server_reads by simp
qed simp_all

lemma reaches_tcp_inv:
  assumes "reaches n y z" and "tr.table_inv (tcp (w_server (y_world y)))"
  shows "tr.table_inv (tcp (w_server (y_world z)))"
proof -
  obtain tr where "system_run y tr z" using assms(1) unfolding reaches_def by blast
  then show ?thesis
    using assms(2)
  proof (induction rule: system_run.induct)
    case (system_on y tr z x z2)
    then have "tr.table_inv (tcp (w_server (y_world z)))" by simp
    with system_on.hyps(2) show ?case
      by (cases rule: system_step.cases) (auto simp: client_moves_def intro: world_tcp_inv)
  qed simp
qed

lemma connect_halfway:
  assumes "tunnel_start env token tunnel nonce (newTunnelClient nw sv) wr st h w"
    and "h = new_handler v (new_network d) un t0 t1 ord"
    and "fst (Validate (ord (tokens v)) t0 t1 token nonce v) = None" and "d ''tcp'' target = None"
    and "connect_request rd header" and "names_target header target" and "k = next_sock nw"
  obtains z c s h2 t where "reaches 6 (system_start w) z" and "y_world z = world_start c s h2 t"
    and "y_conns z = [k \<mapsto> SocksOpening 2 0 header]" and "tcpConns c = [2 \<mapsto> k]" and "openResults c = [2 \<mapsto> 0]"
    and "healthy k (net c)" and "delivered k (net c) = [[0x05, 0x00]]" and "nextID c = 2" and "next_chan c = 1"
    and "next_sock (net c) = k + 1" and "authOK h2" and "snd (tcp h2) = snd (dial ''tcp'' target (new_network d))"
    and "tcp_conn 2 (fst (tcp h2)) = Some 0" and "quiet s"
    and "q_list (controlQ t) = [reply FrameAUTHOK 0 [], open_reply 2 None]" and "q_list (dataQ t) = []"
    and "avail (s_reader t) = []"
proof -
  have h: "tcp h = (NewTCPRelay, new_network d)" "validator h = v" "map_order h = ord" "now_ns h = t0" "later_ns h = t1"
    by (simp_all add: assms(2) new_handler_def)
  have start: "system_ok 0 (system_start w)" using system_ok_start [OF assms(1)] h(1) by simp
  have len: "length target \<le> 263" by (rule names_target_length [OF assms(6)])
  let ?c0 = "newTunnelClient nw sv"
  obtain s t where w: "w = world_start ?c0 s h t" "length token \<le> 16370" "length nonce = 12"
    and s: "q_list (controlQ s) = [auth_frame token nonce]" "q_list (dataQ s) = []" "avail (s_reader s) = []"
    and au: "DecodeAuthPayload (payload (auth_frame token nonce)) = Inr \<lparr>Token = token, Nonce = nonce\<rparr>"
    and t: "q_list (controlQ t) = []" "q_list (dataQ t) = []" "avail (s_reader t) = []"
    using assms(1) by (rule start_sessions)
  have c0: "nextID ?c0 = 1" "next_chan ?c0 = 0" "net ?c0 = nw" "tcpConns ?c0 = Map.empty" "openResults ?c0 = Map.empty"
    by (simp_all add: newTunnelClient_def)
  have st: "y_world (system_start w) = world_start ?c0 s h t" "world_ok (y_world (system_start w))"
    "y_conns (system_start w) = Map.empty"
    using tunnel_start_ok [OF assms(1)] w(1) by (simp_all add: system_start_def)
  have room: "control_room s (data_frame FrameOPENTCP (nextID ?c0 + 1) (EncodeAddress target))"
    using w(2,3) s(1) len
    by (simp add: control_room_def payload_bytes_def new_frame_simps auth_frame_def EncodeAddress_def EncodeAuthPayload_def
        del: length_q_list)
  have kc: "k = next_sock (net ?c0)" "2 = nextID ?c0 + 1" using c0 assms(7) by simp_all
  obtain c s2 y where y: "reaches 1 (system_start w) y" "y_world y = world_start c s2 h t" "y_conns y = [k \<mapsto> SocksOpening 2 0 header]"
    and c: "tcpConns c = [2 \<mapsto> k]" "openResults c = [2 \<mapsto> 0]" "healthy k (net c)" "delivered k (net c) = [[0x05, 0x00]]"
      "nextID c = 2" "next_chan c = 1" "next_sock (net c) = k + 1"
    and s2: "s_reader s2 = s_reader s" "q_list (controlQ s2) = [auth_frame token nonce, data_frame FrameOPENTCP 2 (EncodeAddress target)]"
      "q_list (dataQ s2) = []"
    by (rule connect_accepted [OF st(1,2) room assms(5,6) kc]) (auto simp: st(3) s(1,2) c0)
  have val: "fst (Validate (map_order h (tokens (validator h))) (now_ns h) (later_ns h) token nonce (validator h)) = None"
    "dial_error (snd (tcp h)) ''tcp'' target = None" using assms(3,4) by (simp_all add: h new_network_def)
  have yok: "world_ok (y_world y)" using reaches_ok [OF start y(1)] by simp
  obtain s3 h2 t2 where z: "reaches 5 y (y\<lparr>y_world := world_start c s3 h2 t2\<rparr>)"
    and h2: "authOK h2" "snd (tcp h2) = snd (dial ''tcp'' target (new_network d))" "tcp_conn 2 (fst (tcp h2)) = Some 0"
    and s3: "s_reader s3 = s_reader s2" "q_list (controlQ s3) = []" "q_list (dataQ s3) = []"
    and t2: "q_list (controlQ t2) = [reply FrameAUTHOK 0 [], open_reply 2 None]" "q_list (dataQ t2) = []" "avail (s_reader t2) = []"
    by (rule connect_dialled [OF y(2) yok s2(2,3) t au val len]) (auto simp: h(1) new_network_def)
  have "quiet s3" using s(3) s2(1) s3 by (simp add: quiet_def)
  then show thesis
    using reaches_trans [OF y(1) z] y(3) c h2 t2
    by (intro that [of "y\<lparr>y_world := world_start c s3 h2 t2\<rparr>" c s3 h2 t2]) simp_all
qed

lemma connect_state:
  assumes "tunnel_start env token tunnel nonce (newTunnelClient nw sv) wr st h w"
    and "h = new_handler v (new_network d) un t0 t1 ord"
    and "fst (Validate (ord (tokens v)) t0 t1 token nonce v) = None" and "d ''tcp'' target = None"
    and "connect_request rd header" and "names_target header target" and "k = next_sock nw"
  obtains y c s h2 t where "reaches 12 (system_start w) y" and "linked k 2 0 y"
    and "delivered k (net c) = [[0x05, 0x00], [0x05, 0x00, 0x00] @ header]"
    and "y_world y = world_start c s h2 t" and "quiet s" and "quiet t" and "tcpConns c = [2 \<mapsto> k]"
    and "nextID c = 2" and "next_chan c = 1" and "next_sock (net c) = k + 1"
    and "snd (tcp h2) = snd (dial ''tcp'' target (new_network d))"
proof -
  have h: "tcp h = (NewTCPRelay, new_network d)" by (simp add: assms(2) new_handler_def)
  have start: "system_ok 0 (system_start w)" using system_ok_start [OF assms(1)] h by simp
  obtain z c s3 h2 t2 where z: "reaches 6 (system_start w) z" "y_world z = world_start c s3 h2 t2"
      "y_conns z = [k \<mapsto> SocksOpening 2 0 header]"
    and c: "tcpConns c = [2 \<mapsto> k]" "openResults c = [2 \<mapsto> 0]" "healthy k (net c)" "delivered k (net c) = [[0x05, 0x00]]"
      "nextID c = 2" "next_chan c = 1" "next_sock (net c) = k + 1"
    and h2: "authOK h2" "snd (tcp h2) = snd (dial ''tcp'' target (new_network d))" "tcp_conn 2 (fst (tcp h2)) = Some 0"
    and q: "quiet s3" "q_list (controlQ t2) = [reply FrameAUTHOK 0 [], open_reply 2 None]" "q_list (dataQ t2) = []"
      "avail (s_reader t2) = []"
    by (rule connect_halfway [OF assms])
  have zok: "world_ok (y_world z)" using reaches_ok [OF start z(1)] by simp
  obtain s4 t3 where u: "reaches 5 z (z\<lparr>y_world := world_start (signalOpen 2 None c) s4 h2 t3\<rparr>)" and qs: "quiet s4" "quiet t3"
    by (rule connect_answered [OF z(2) zok q(2,3,1,4) c(2)])
  let ?u = "z\<lparr>y_world := world_start (signalOpen 2 None c) s4 h2 t3\<rparr>"
  have uw: "y_world ?u = world_start (signalOpen 2 None c) s4 h2 t3" "y_conns ?u = [k \<mapsto> SocksOpening 2 0 header]"
    using z(3) by simp_all
  obtain c2 where x: "reaches 1 ?u (?u\<lparr>y_world := world_start c2 s4 h2 t3, y_conns := [k \<mapsto> SocksCopying 2]\<rparr>)"
    and c2: "client_good 2 k c2" "delivered k (net c2) = [[0x05, 0x00]] @ [[0x05, 0x00, 0x00] @ header]"
      "tcpConns c2 = [2 \<mapsto> k]" "nextID c2 = nextID c" "next_chan c2 = next_chan c" "next_sock (net c2) = next_sock (net c)"
    by (rule connect_replied [OF uw c(1-4)])
  let ?x = "?u\<lparr>y_world := world_start c2 s4 h2 t3, y_conns := [k \<mapsto> SocksCopying 2]\<rparr>"
  have r12: "reaches 12 (system_start w) ?x" using reaches_trans [OF reaches_trans [OF z(1) u] x] by simp
  have "w_server (y_world (system_start w)) = h" using start_transit(4) [OF assms(1) frame_kinds(1)] by (simp add: system_start_def)
  then have "tr.table_inv (tcp (w_server (y_world (system_start w))))" using tcp_table_inv_new by (simp add: h new_network_def)
  from reaches_tcp_inv [OF r12 this] have "tr.table_inv (tcp h2)" by (simp add: world_start_def)
  moreover have "healthy 0 (snd (tcp h2))" using assms(4) by (simp add: h2(2) dial_def new_network_def healthy_def)
  ultimately have "server_good 2 0 h2" using h2(1,3) by (simp add: server_good_def carries_def)
  then have "linked k 2 0 ?x" using c2(1) by (simp add: linked_def channel_up_def world_start_def)
  with r12 show thesis using c2 c h2(2) qs by (intro that [of ?x c2 s4 h2 t3]) simp_all
qed

lemma connect_schedule:
  assumes "tunnel_start env token tunnel nonce (newTunnelClient nw sv) wr st h w"
    and "h = new_handler v (new_network d) un t0 t1 ord"
    and "fst (Validate (ord (tokens v)) t0 t1 token nonce v) = None" and "d ''tcp'' target = None"
    and "connect_request rd header" and "names_target header target"
  shows "\<exists>y. reaches 12 (system_start w) y \<and> linked (next_sock nw) 2 0 y
    \<and> delivered (next_sock nw) (net (w_client (y_world y))) = [[0x05, 0x00], [0x05, 0x00, 0x00] @ header]"
  using connect_state [OF assms refl] by (metis world.select_convs(1) world_start_def)

text \<open>C2. A SOCKS CONNECT completes: from the start of a tunnel whose token the server accepts, when the
  dial succeeds, twelve steps of the client's goroutines, the server and the network suffice from the
  acceptance of a connection with a CONNECT request to the moment it is linked, its channel open at
  both ends, the SOCKS client having received the greeting's answer and the success reply and nothing
  else.\<close>

theorem connect_completes:
  assumes "tunnel_start env token tunnel nonce (newTunnelClient nw sv) wr st h w"
    and "h = new_handler v (new_network d) un t0 t1 ord"
    and "fst (Validate (ord (tokens v)) t0 t1 token nonce v) = None" and "d ''tcp'' target = None"
    and "connect_request rd header" and "names_target header target"
  shows "\<exists>y. reaches 12 (system_start w) y \<and> linked (next_sock nw) 2 0 y
    \<and> delivered (next_sock nw) (net (w_client (y_world y))) = [[0x05, 0x00], [0x05, 0x00, 0x00] @ header]"
  using connect_schedule [OF assms] .

text \<open>The demonstration: a request for ab:80.\<close>

lemma demo_request:
  "connect_request demo_connect (name_header ''ab'' 80)" "names_target (name_header ''ab'' 80) (host_port ''ab'' 80)"
proof -
  have "avail demo_connect = [0x05, of_nat (length [0 :: byte])] @ [0] @ [0x05, 0x01, 0] @ name_header ''ab'' 80 @ []"
    by (simp add: demo_connect_def)
  moreover have "length [0 :: byte] \<le> 255" by simp
  ultimately show "connect_request demo_connect (name_header ''ab'' 80)" unfolding connect_request_def by blast
  have "length ''ab'' \<le> 255" by simp
  then show "names_target (name_header ''ab'' 80) (host_port ''ab'' 80)" unfolding names_target_def by blast
qed

lemma demo_system_start:
  obtains w where "tunnel_start demo_client_env ''tok'' demo_tunnel (replicate 12 7)
      (newTunnelClient (new_network (\<lambda>_ _. None)) (\<lambda>_. Inl EOF)) demo_writer (NewStats 0) demo_server w"
    and "fst (tcp demo_server) = NewTCPRelay"
    and "fst (Validate ((\<lambda>_. [''id1'']) (tokens demo_store)) 10 10 ''tok'' (replicate 12 7) demo_store) = None"
    and "next_sock (new_network (\<lambda>_ _. None)) = 0"
proof -
  have "dials_short demo_server"
    by (simp add: dials_short_def short_errors_def demo_server_def new_handler_def new_network_def)
  then obtain w where "tunnel_start demo_client_env ''tok'' demo_tunnel (replicate 12 7)
      (newTunnelClient (new_network (\<lambda>_ _. None)) (\<lambda>_. Inl EOF)) demo_writer (NewStats 0) demo_server w"
    by (rule demo_world_from)
  moreover have "fst (tcp demo_server) = NewTCPRelay" by (simp add: demo_server_def new_handler_def)
  moreover have "fst (Validate ((\<lambda>_. [''id1'']) (tokens demo_store)) 10 10 ''tok'' (replicate 12 7) demo_store) = None"
    by (simp add: demo_defs)
  moreover have "next_sock (new_network (\<lambda>_ _. None)) = 0" by (simp add: new_network_def)
  ultimately show thesis by (rule that)
qed

theorem connect_completes_witness:
  "\<exists>w y. reaches 12 (system_start w) y \<and> linked 0 2 0 y
    \<and> delivered 0 (net (w_client (y_world y))) = [[0x05, 0x00], [0x05, 0x00, 0x00] @ name_header ''ab'' 80]"
proof -
  obtain w where w: "tunnel_start demo_client_env ''tok'' demo_tunnel (replicate 12 7)
      (newTunnelClient (new_network (\<lambda>_ _. None)) (\<lambda>_. Inl EOF)) demo_writer (NewStats 0) demo_server w"
    "fst (Validate ((\<lambda>_. [''id1'']) (tokens demo_store)) 10 10 ''tok'' (replicate 12 7) demo_store) = None"
    "next_sock (new_network (\<lambda>_ _. None)) = 0" by (rule demo_system_start)
  from connect_completes [OF w(1) demo_server_def w(2) refl demo_request] show ?thesis unfolding w(3) by blast
qed



end
