(* ===== verification/SLPP_Stranded.thy ===== *)
theory SLPP_Stranded
  imports SLPP_Connect
begin

text \<open>
  What one connection can do to the others, and what stays behind when a session ends: the client's
  read loop returns the error of a write on a SOCKS connection, which ends it for every connection;
  they stay as they are and hear nothing more.
\<close>

section \<open>A read loop that has ended\<close>

lemma unread_step:
  assumes "world_step w ev v" and "leaves_channel ch k c (w, ev)" and "client_good ch k (w_client w)"
    and "w_cread w = Return e"
  shows "w_cread v = Return e \<and> client_good ch k (w_client v)
    \<and> delivered k (net (w_client v)) = delivered k (net (w_client w))"
  using assms
proof (induction rule: world_step.induct)
  case (client_does a w cl s)
  then have "client_leaves ch k a (w_client w)" by (simp add: leaves_channel_def down_keeps_def)
  with client_act_good [of ch k "(w_client w, w_csess w)" a] client_does show ?case by simp
qed simp_all

lemma unread_run:
  assumes "world_run w tr v" and "\<forall>x \<in> set tr. leaves_channel ch k c x" and "client_good ch k (w_client w)"
    and "w_cread w = Return e"
  shows "w_cread v = Return e \<and> client_good ch k (w_client v)
    \<and> delivered k (net (w_client v)) = delivered k (net (w_client w))"
  using assms
proof (induction rule: world_run.induct)
  case (run_on w tr v ev u)
  have "\<forall>x \<in> set tr. leaves_channel ch k c x" "leaves_channel ch k c (v, ev)" using run_on.prems(1) by simp_all
  with run_on.IH [OF _ run_on.prems(2,3)] unread_step [OF run_on.hyps(2)] show ?case by auto
qed simp

lemma unread_system:
  assumes "system_run y tr z" and "system_ok n y" and "n + length tr + 3 < 2 ^ 32" and "linked k ch c y"
    and "\<forall>x \<in> set tr. \<not> ends_link k ch c (snd x)" and "w_cread (y_world y) = Return e"
  shows "w_cread (y_world z) = Return e
    \<and> delivered k (net (w_client (y_world z))) = delivered k (net (w_client (y_world y)))"
  using assms
proof (induction rule: system_run.induct)
  case (system_on y tr z x z2)
  have n: "n + length tr + 3 < 2 ^ 32" using system_on.prems(2) by simp
  have early: "\<forall>x \<in> set tr. \<not> ends_link k ch c (snd x)" and last: "\<not> ends_link k ch c x"
    using system_on.prems(4) by simp_all
  obtain m where m: "m \<le> n + length tr" "system_ok m z"
    using system_ok_run [OF system_on.hyps(1) system_on.prems(1) n] by blast
  have m3: "m + 3 < 2 ^ 32" using m(1) n by simp
  have up: "linked k ch c z"
    using linked_run [OF system_on.hyps(1) system_on.prems(1) n system_on.prems(3) early] by blast
  have ok: "world_ok (y_world z)" "sends_short (y_proc z)" using m(2) by (simp_all add: system_ok_def)
  have good: "client_good ch k (w_client (y_world z))" using up by (simp add: linked_def channel_up_def)
  have "\<forall>e \<in> set (step_trace (z, x)). leaves_channel ch k c e"
    using linked_moves [OF system_on.hyps(2) m(2) m3 up last] by blast
  from unread_run [OF system_step_world [OF system_on.hyps(2) ok] this good]
    system_on.IH [OF system_on.prems(1) n system_on.prems(3) early system_on.prems(5)]
  show ?case by simp
qed simp

section \<open>A SOCKS connection that breaks\<close>

lemma write_unhealthy: "\<not> healthy j w \<Longrightarrow> \<exists>e w2. sock_write j data w = (Some e, w2) \<and> (\<forall>k. k \<noteq> j \<longrightarrow> sockets w2 k = sockets w k)"
  by (auto simp: healthy_def sock_write_def conn_write_def split: option.splits)

lemma broken_ends_reading:
  assumes "w_cread w = Continue" and "next_down w = Some f" and "ftype f = FrameTCPDATA"
    and "tcpConns (w_client w) (channelID f) = Some j" and "\<not> healthy j (net (w_client w))"
  obtains v e where "world_step w (ClientReads now) v" and "w_cread v = Return (Some e)" and "w_server v = w_server w"
    and "tcpConns (w_client v) = tcpConns (w_client w)"
    and "\<And>k. k \<noteq> j \<Longrightarrow> sockets (net (w_client v)) k = sockets (net (w_client w)) k"
proof -
  obtain r where d: "Decode (s_reader (w_csess w)) = (Inr f, r)"
    using assms(2) by (cases "Decode (s_reader (w_csess w))") (auto simp: next_down_def split: sum.splits)
  obtain e nw where nw: "sock_write j (payload f) (net (w_client w)) = (Some e, nw)"
    "\<forall>k. k \<noteq> j \<longrightarrow> sockets nw k = sockets (net (w_client w)) k"
    using write_unhealthy [OF assms(5)] by blast
  let ?c = "(w_client w)\<lparr>net := nw\<rparr>"
  have "client_HandleFrame f (w_client w) s = (Some e, ?c, s)" for s
    using assms(3,4) nw(1) by (simp add: client_HandleFrame_def client_TCPDATA_def)
  then have "readLoop_iter client_HandleFrame SelDefault now (w_client w) (w_csess w)
      = (Return (Some e), ?c, received now f r (w_csess w))"
    using d by (simp add: readLoop_iter_def Let_def flip: received_def)
  from client_reads [OF assms(1) d this] show thesis by (rule that) (use nw(2) in simp_all)
qed

text \<open>C38. One SOCKS client that hangs up silences all the others.  In any state that a run of the whole
  tunnel can reach, with a tunnelled connection up and the next frame at the client being data for a
  SOCKS connection that is broken: when the read loop takes that frame, the write's error ends it, for
  the whole session.  Every other connection stays as it is, linked at both ends, whatever happens
  later, unless one of its own ends stops; but its SOCKS client receives nothing any more.\<close>

theorem hangup_silences_others:
  assumes "tunnel_start env token tunnel nonce (newTunnelClient nw sv) wr st h w" and "fst (tcp h) = NewTCPRelay"
    and "system_run (system_start w) tr y" and "length tr + 4 < 2 ^ 32" and "linked k ch c y"
    and "w_cread (y_world y) = Continue" and "next_down (y_world y) = Some f" and "ftype f = FrameTCPDATA"
    and "tcpConns (w_client (y_world y)) (channelID f) = Some j" and "\<not> healthy j (net (w_client (y_world y)))"
  shows "\<exists>z e. system_step y (Elsewhere (ClientReads now)) z \<and> w_cread (y_world z) = Return (Some e) \<and> linked k ch c z
    \<and> (\<forall>tr2 u. system_run z tr2 u \<longrightarrow> length tr + length tr2 + 5 < 2 ^ 32
        \<longrightarrow> (\<forall>x \<in> set tr2. \<not> ends_link k ch c (snd x))
        \<longrightarrow> linked k ch c u \<and> w_cread (y_world u) = Return (Some e)
          \<and> delivered k (net (w_client (y_world u))) = delivered k (net (w_client (y_world y))))"
proof -
  have l: "0 + length tr + 3 < 2 ^ 32" using assms(4) by simp
  obtain n where n: "n \<le> length tr" "system_ok n y"
    using system_ok_run [OF assms(3) system_ok_start [OF assms(1,2)] l] by auto
  have n3: "n + 3 < 2 ^ 32" using n(1) assms(4) by simp
  from broken_ends_reading [OF assms(6-10)]
  obtain v e where v: "world_step (y_world y) (ClientReads now) v" "w_cread v = Return (Some e)"
    and other: "\<And>i. i \<noteq> j \<Longrightarrow> sockets (net (w_client v)) i = sockets (net (w_client (y_world y))) i" by blast
  let ?z = "y\<lparr>y_world := v\<rparr>"
  have step: "system_step y (Elsewhere (ClientReads now)) ?z" using elsewhere [OF _ v(1)] by simp
  have "healthy k (net (w_client (y_world y)))" using assms(5) by (simp add: linked_def channel_up_def client_good_def)
  then have "delivered k (net (w_client v)) = delivered k (net (w_client (y_world y)))"
    using assms(10) other by (simp add: delivered_def) (metis)
  moreover have lz: "linked k ch c ?z" using linked_step [OF step n(2) n3 assms(5)] by simp
  moreover obtain m where m: "m \<le> n + 1" "system_ok m ?z" using system_ok_step [OF step n(2) n3] by blast
  have "linked k ch c u \<and> w_cread (y_world u) = Return (Some e)
      \<and> delivered k (net (w_client (y_world u))) = delivered k (net (w_client v))"
    if "system_run ?z tr2 u" "length tr + length tr2 + 5 < 2 ^ 32" "\<forall>x \<in> set tr2. \<not> ends_link k ch c (snd x)" for tr2 u
  proof -
    have "m + length tr2 + 3 < 2 ^ 32" using m(1) n(1) that(2) by simp
    note late = that(1) m(2) this lz that(3)
    from linked_run [OF late] unread_system [OF late] v(2) show ?thesis by simp
  qed
  ultimately show ?thesis using step v(2) by (intro exI [of _ ?z] exI [of _ e]) simp
qed

section \<open>Such a state is reached\<close>

text \<open>
  A second connection is opened while the first is up; the remote end of the second one sends, and
  its SOCKS client is gone before the data is there.
\<close>

lemma open_taken:
  assumes "authOK h" and "ftype f = FrameOPENTCP" and "DecodeAddress (payload f) = Inr target" and "channelID f = ch"
    and "dial_error (snd (tcp h)) ''tcp'' target = None" and "session_wf s" and "q_list (controlQ s) = []"
  obtains h2 s2 where "HandleFrame f h s = (None, h2, s2)" and "authOK h2"
    and "tconns (fst (tcp h2)) = (tconns (fst (tcp h)))(ch \<mapsto> next_sock (snd (tcp h)))"
    and "(ch, next_sock (snd (tcp h))) \<in> set (tcopiers (fst (tcp h2)))"
    and "snd (tcp h2) = snd (dial ''tcp'' target (snd (tcp h)))"
    and "q_list (controlQ s2) = [open_reply ch None]" and "dataQ s2 = dataQ s" and "s_reader s2 = s_reader s"
proof -
  obtain r w where t: "tcp h = (r, w)" by (metis prod.exhaust)
  define s1 where "s1 = s\<lparr>s_stats := AddActiveChannel 1 (s_stats s)\<rparr>"
  have wf: "session_wf s1" using assms(6) by (simp add: s1_def session_wf_def)
  have "control_room s1 (open_reply ch None)"
    using assms(7) by (simp add: s1_def control_room_def payload_bytes_def open_reply_def new_frame_simps del: length_q_list)
  note q = QueueControl_list [OF wf, of "open_reply ch None"] this
  let ?r = "Register ch (next_sock w) r"
  let ?h = "h\<lparr>tcp := (?r\<lparr>tcopiers := tcopiers ?r @ [(ch, next_sock w)]\<rparr>, snd (dial ''tcp'' target w))\<rparr>"
  have "HandleFrame f h s = (None, ?h, snd (QueueControl (open_reply ch None) s1))"
    using assms(1-5) q(1,5) t
    by (simp add: HandleFrame_def handle_OPENTCP_def TCP_Open_def dial_def opened_def s1_def open_reply_def prod_eq_iff
        split_beta Let_def)
  moreover have "s_reader (snd (QueueControl (open_reply ch None) s1)) = s_reader s"
    using QueueControl_queues_only [of s1 "open_reply ch None"] by (simp add: queues_only_def s1_def)
  ultimately show thesis
    using q(2,3,5) assms(1,7) t by (intro that [of ?h "snd (QueueControl (open_reply ch None) s1)"])
      (simp_all add: Register_def s1_def)
qed

lemma open_turn:
  assumes "y_world y = world_start c s h t" and "world_ok (y_world y)"
    and "q_list (controlQ s) = [data_frame FrameOPENTCP ch (EncodeAddress target)]" and "q_list (dataQ s) = []"
    and "quiet t" and "authOK h" and "dial_error (snd (tcp h)) ''tcp'' target = None" and "length target \<le> 263"
  obtains s2 h2 t2 where "reaches 3 y (y\<lparr>y_world := world_start c s2 h2 t2\<rparr>)" and "s_reader s2 = s_reader s"
    and "authOK h2" and "tconns (fst (tcp h2)) = (tconns (fst (tcp h)))(ch \<mapsto> next_sock (snd (tcp h)))"
    and "(ch, next_sock (snd (tcp h))) \<in> set (tcopiers (fst (tcp h2)))"
    and "snd (tcp h2) = snd (dial ''tcp'' target (snd (tcp h)))"
    and "q_list (controlQ t2) = [open_reply ch None]" and "q_list (dataQ t2) = []" and "avail (s_reader t2) = []"
proof -
  let ?g = "data_frame FrameOPENTCP ch (EncodeAddress target)"
  have ok: "sending request_ok s" "session_wf t"
    using assms(1,2) by (simp_all add: world_ok_def world_start_def sending_def ready_def)
  define s2 where "s2 = apply_events (replicate 1 EvWrite) s"
  define bs where "bs = sent_since s s2"
  have w: "w_csess (y_world y) = s" "w_ssess (y_world y) = t" "w_up (y_world y) = []"
    by (simp_all add: assms(1) world_start_def)
  have run: "reaches 2 y (y\<lparr>y_world := world_start c s2 h (arrive bs t)\<rparr>)"
    using up_delivery [OF assms(2) refl, of s2 1] s2_def w
    by (simp add: assms(1) world_start_def bs_def numeral_2_eq_2 del: apply_events.simps)
  note wr = writes_sent [OF ok(1) client_endpoint.sends_body client_endpoint.sends_ping s2_def]
  have q: "q_list (controlQ s) @ q_list (dataQ s) = [?g]" "length [?g] = 1" using assms(3,4) by simp_all
  have av: "avail (s_reader (arrive bs t)) = sent_since s s2" using assms(5) by (simp add: quiet_def bs_def)
  obtain fs where fs: "read_all Decode 1 (s_reader (arrive bs t)) = (Inr fs, (s_reader (arrive bs t))\<lparr>avail := []\<rparr>)"
    "map body fs = map body [?g]"
    by (rule frames_read [OF ok(1) client_endpoint.sends_body client_endpoint.sends_ping s2_def q av])
  obtain x where fx: "fs = [x]" "body x = body ?g" using fs(2) by auto
  obtain rd where x: "Decode (s_reader (arrive bs t)) = (Inr x, rd)" "avail rd = []"
    using fs(1) unfolding fx(1) One_nat_def by (auto split: prod.splits sum.splits)
  let ?t = "received 0 x rd (arrive bs t)"
  have ad: "DecodeAddress (payload ?g) = Inr target"
    using DecodeAddress_Encode [of target "[]"] assms(8) by (simp add: new_frame_simps)
  have g: "ftype ?g = FrameOPENTCP" "channelID ?g = ch" by (simp_all add: new_frame_simps)
  have t: "session_wf ?t" "q_list (controlQ ?t) = []"
    using ok(2) assms(5) by (simp_all add: quiet_def arrive_def session_wf_def all_class)
  obtain h2 t2 where h2: "HandleFrame ?g h ?t = (None, h2, t2)" "authOK h2"
    "tconns (fst (tcp h2)) = (tconns (fst (tcp h)))(ch \<mapsto> next_sock (snd (tcp h)))"
    "(ch, next_sock (snd (tcp h))) \<in> set (tcopiers (fst (tcp h2)))"
    "snd (tcp h2) = snd (dial ''tcp'' target (snd (tcp h)))"
    and t2: "q_list (controlQ t2) = [open_reply ch None]" "dataQ t2 = dataQ ?t" "s_reader t2 = s_reader ?t"
    by (rule open_taken [OF assms(6) g(1) ad g(2) assms(7) t])
  have "readLoop_iter HandleFrame SelDefault 0 h (arrive bs t) = (Continue, h2, t2)"
    using x(1) HandleFrame_body [OF fx(2)] h2(1) by (simp add: readLoop_iter_def Let_def flip: received_def)
  then have "read_iters HandleFrame 0 1 h (arrive bs t) = (Continue, h2, t2)" by simp
  then have "reaches 1 (y\<lparr>y_world := world_start c s2 h (arrive bs t)\<rparr>) (y\<lparr>y_world := world_start c s2 h2 t2\<rparr>)"
    using server_reads_reach [of "world_start c s2 h (arrive bs t)" "y\<lparr>y_world := world_start c s2 h (arrive bs t)\<rparr>" 0 1 h2 t2]
    by (simp add: world_start_def)
  from reaches_trans [OF run this] have "reaches 3 y (y\<lparr>y_world := world_start c s2 h2 t2\<rparr>)" by simp
  then show thesis
    using h2(2-5) t2 x(2) wr(3) assms(5) by (intro that [of s2 h2 t2]) (simp_all add: quiet_def arrive_def)
qed

text \<open>The remote end sends.\<close>

lemma remote_turn:
  assumes "y_world y = world_start c s h t" and "world_ok (y_world y)" and "(ch, k) \<in> set (tcopiers (fst (tcp h)))"
    and "q_list (dataQ t) = []"
  obtains t2 where "reaches 1 y (y\<lparr>y_world := world_start c s h t2\<rparr>)" and "controlQ t2 = controlQ t"
    and "q_list (dataQ t2) = [data_frame FrameTCPDATA ch [7]]" and "s_reader t2 = s_reader t"
proof -
  let ?g = "data_frame FrameTCPDATA ch [7]"
  define t2 where "t2 = snd (QueueData ?g t)"
  have wf: "session_wf t" using assms(1,2) by (simp add: world_ok_def world_start_def sending_def ready_def)
  have room: "data_room t ?g" using assms(4) by (simp add: data_room_def payload_bytes_def new_frame_simps del: length_q_list)
  note q = QueueData_list [OF wf, of ?g]
  have o: "s_reader t2 = s_reader t" "s_writer t2 = s_writer t"
    using QueueData_queues_only [of t ?g] by (simp_all add: queues_only_def t2_def)
  have "serve_event (CopyTCP ch k ([7], None)) (h, t) = (h, t2)"
    using assms(3) by (simp add: copyRemoteToTunnel_iter_def t2_def)
  then have ev: "serve_event (CopyTCP ch k ([7], None)) (w_server (y_world y), w_ssess (y_world y)) = (h, t2)"
    by (simp add: assms(1) world_start_def)
  have "sent_since t t2 = []" using o(2) by (simp add: sent_since_def)
  then have "world_step (y_world y) (ServerDoes (CopyTCP ch k ([7], None))) (world_start c s h t2)"
    using server_does [OF _ _ ev] by (simp add: assms(1) world_start_def server_own_def read_ok_def)
  then have "reaches 1 y (y\<lparr>y_world := world_start c s h t2\<rparr>)" by (rule reaches_elsewhere) simp
  then show thesis using q room assms(4) o by (intro that [of t2]) (simp_all add: t2_def)
qed

text \<open>The answer and the data cross; the SOCKS client of the new connection hangs up; the answer is read.\<close>

lemma hangup_turn:
  assumes "y_world y = world_start c s h t" and "world_ok (y_world y)"
    and "q_list (controlQ t) = [open_reply ch None]" and "q_list (dataQ t) = [data_frame FrameTCPDATA ch [7]]"
    and "avail (s_reader t) = []" and "avail (s_reader s) = []"
  obtains s2 t2 g where "reaches 5 y (y\<lparr>y_world := world_start (signalOpen ch None
      (c\<lparr>net := break_conn j 0 EOF (net c)\<rparr>)) s2 h t2\<rparr>)"
    and "fst (Decode (s_reader s2)) = Inr g" and "ftype g = FrameTCPDATA" and "channelID g = ch"
proof -
  let ?o = "open_reply ch None" and ?d = "data_frame FrameTCPDATA ch [7]"
  have ok: "sending response_ok t" using assms(1,2) by (simp add: world_ok_def world_start_def)
  define t2 where "t2 = apply_events (replicate 2 EvWrite) t"
  define bs where "bs = sent_since t t2"
  have w: "w_csess (y_world y) = s" "w_ssess (y_world y) = t" "w_down (y_world y) = []"
    by (simp_all add: assms(1) world_start_def)
  let ?y1 = "y\<lparr>y_world := world_start c (arrive bs s) h t2\<rparr>"
  have run: "reaches 3 y ?y1"
    using down_delivery [OF assms(2) refl, of t2 2] w
    by (simp add: assms(1) world_start_def t2_def [symmetric] bs_def)
  let ?c = "c\<lparr>net := break_conn j 0 EOF (net c)\<rparr>"
  let ?y2 = "y\<lparr>y_world := world_start ?c (arrive bs s) h t2\<rparr>"
  have "client_moves (?c, arrive bs s) (y_world ?y1) = world_start ?c (arrive bs s) h t2"
    by (simp add: client_moves_def world_start_def sent_since_def)
  then have "system_step ?y1 (Goroutine (PBreaks j 0 EOF)) ?y2"
    using goroutine [of "PBreaks j 0 EOF" ?y1] by (cases y) (simp add: proc_fine_def y_proc_def world_start_def)
  then have hang: "reaches 1 ?y1 ?y2" by (rule reaches_step)
  have "avail (s_reader (arrive bs s)) = sent_since t t2" using assms(6) by (simp add: bs_def)
  moreover have "q_list (controlQ t) @ q_list (dataQ t) = [?o, ?d]" using assms(3,4) by simp
  ultimately obtain fs where fs: "read_all Decode 2 (s_reader (arrive bs s)) = (Inr fs, (s_reader (arrive bs s))\<lparr>avail := []\<rparr>)"
    "map body fs = [body ?o, body ?d]"
    using two_frames_read [OF ok server_endpoint.sends_body server_endpoint.sends_ping t2_def, of ?o ?d "s_reader (arrive bs s)"]
    by blast
  obtain x g where xg: "fs = [x, g]" "body x = body ?o" "body g = body ?d"
    using fs(2) by (auto simp: map_eq_Cons_conv)
  obtain r1 where x: "Decode (s_reader (arrive bs s)) = (Inr x, r1)" and g: "fst (Decode r1) = Inr g"
    using fs(1) unfolding xg(1) numeral_2_eq_2 by (auto split: prod.splits sum.splits)
  let ?s2 = "received 0 x r1 (arrive bs s)"
  have "client_HandleFrame x ?c ?s2 = (None, signalOpen ch None ?c, ?s2)"
    unfolding client_HandleFrame_body [OF xg(2)] by (simp add: client_HandleFrame_def new_frame_simps open_reply_def)
  then have "readLoop_iter client_HandleFrame SelDefault 0 ?c (arrive bs s) = (Continue, signalOpen ch None ?c, ?s2)"
    using x by (simp add: readLoop_iter_def Let_def flip: received_def)
  then have "read_iters client_HandleFrame 0 1 ?c (arrive bs s) = (Continue, signalOpen ch None ?c, ?s2)" by simp
  then have "reaches 1 ?y2 (y\<lparr>y_world := world_start (signalOpen ch None ?c) ?s2 h t2\<rparr>)"
    using client_reads_reach [of "world_start ?c (arrive bs s) h t2" ?y2 0 1 "signalOpen ch None ?c" ?s2]
    by (simp add: world_start_def)
  from reaches_trans [OF reaches_trans [OF run hang] this]
  have "reaches 5 y (y\<lparr>y_world := world_start (signalOpen ch None ?c) ?s2 h t2\<rparr>)" by simp
  moreover have "ftype g = FrameTCPDATA" "channelID g = ch" using xg(3) by (simp_all add: body_def new_frame_simps)
  ultimately show thesis using g by (intro that [of ?s2 t2 g]) simp_all
qed

lemma second_open:
  assumes "y_world y = world_start c s h t" and "system_ok 0 y0" and "reaches n y0 y" and "n + 7 < 2 ^ 32"
    and "quiet s" and "quiet t" and "authOK h" and "dial_error (snd (tcp h)) ''tcp'' target = None"
    and "connect_request rd header" and "names_target header target" and "k = next_sock (net c)" and "ch = nextID c + 1"
  obtains z c2 s2 h2 t2 where "reaches 4 y z" and "y_world z = world_start c2 s2 h2 t2"
    and "y_conns z = (y_conns y)(k \<mapsto> SocksOpening ch (next_chan c) header)"
    and "tcpConns c2 = (tcpConns c)(ch \<mapsto> k)" and "\<And>j. j \<noteq> k \<Longrightarrow> sockets (net c2) j = sockets (net c) j"
    and "authOK h2" and "tconns (fst (tcp h2)) = (tconns (fst (tcp h)))(ch \<mapsto> next_sock (snd (tcp h)))"
    and "(ch, next_sock (snd (tcp h))) \<in> set (tcopiers (fst (tcp h2)))"
    and "snd (tcp h2) = snd (dial ''tcp'' target (snd (tcp h)))" and "avail (s_reader s2) = []"
    and "q_list (controlQ t2) = [open_reply ch None]" and "q_list (dataQ t2) = []" and "avail (s_reader t2) = []"
proof -
  have ok: "world_ok (y_world v)" if "reaches m y0 v" "m \<le> n + 4" for m v
    using reaches_ok [OF assms(2) that(1)] that(2) assms(4) by simp
  have len: "length target \<le> 263" by (rule names_target_length [OF assms(10)])
  have room: "control_room s (data_frame FrameOPENTCP (nextID c + 1) (EncodeAddress target))"
    using assms(5) len
    by (simp add: quiet_def control_room_def payload_bytes_def new_frame_simps EncodeAddress_def del: length_q_list)
  have yok: "world_ok (y_world y)" using ok [OF assms(3)] by simp
  obtain c2 s2 z where z: "reaches 1 y z" "y_world z = world_start c2 s2 h t"
    "y_conns z = (y_conns y)(k \<mapsto> SocksOpening ch (next_chan c) header)"
    and c2: "tcpConns c2 = (tcpConns c)(ch \<mapsto> k)" "\<forall>j. j \<noteq> k \<longrightarrow> sockets (net c2) j = sockets (net c) j"
    and s2: "s_reader s2 = s_reader s" "q_list (controlQ s2) = q_list (controlQ s) @ [data_frame FrameOPENTCP ch (EncodeAddress target)]"
      "dataQ s2 = dataQ s"
    by (rule connect_accepted [OF assms(1) yok room assms(9-12)]) simp
  have rz: "reaches (n + 1) y0 z" by (rule reaches_trans [OF assms(3) z(1)])
  have zok: "world_ok (y_world z)" using ok [OF rz] by simp
  have qs: "q_list (controlQ s2) = [data_frame FrameOPENTCP ch (EncodeAddress target)]" "q_list (dataQ s2) = []"
    using s2 assms(5) by (simp_all add: quiet_def)
  obtain s3 h3 t3 where y1: "reaches 3 z (z\<lparr>y_world := world_start c2 s3 h3 t3\<rparr>)" "s_reader s3 = s_reader s2"
    and h3: "authOK h3" "tconns (fst (tcp h3)) = (tconns (fst (tcp h)))(ch \<mapsto> next_sock (snd (tcp h)))"
      "(ch, next_sock (snd (tcp h))) \<in> set (tcopiers (fst (tcp h3)))" "snd (tcp h3) = snd (dial ''tcp'' target (snd (tcp h)))"
    and t3: "q_list (controlQ t3) = [open_reply ch None]" "q_list (dataQ t3) = []" "avail (s_reader t3) = []"
    by (rule open_turn [OF z(2) zok qs assms(6-8) len])
  have "reaches 4 y (z\<lparr>y_world := world_start c2 s3 h3 t3\<rparr>)" using reaches_trans [OF z(1) y1(1)] by simp
  then show thesis
    using z(3) c2 h3 t3 y1(2) s2(1) assms(5) by (intro that [of "z\<lparr>y_world := world_start c2 s3 h3 t3\<rparr>" c2 s3 h3 t3]) (simp_all add: quiet_def)
qed

lemma remote_sends_on_broken:
  assumes "y_world y = world_start c s h t" and "system_ok 0 y0" and "reaches n y0 y" and "n + 9 < 2 ^ 32"
    and "(ch, k) \<in> set (tcopiers (fst (tcp h)))" and "avail (s_reader s) = []"
    and "q_list (controlQ t) = [open_reply ch None]" and "q_list (dataQ t) = []" and "avail (s_reader t) = []"
  obtains s2 t2 g where "reaches 6 y (y\<lparr>y_world := world_start (signalOpen ch None
      (c\<lparr>net := break_conn j 0 EOF (net c)\<rparr>)) s2 h t2\<rparr>)"
    and "fst (Decode (s_reader s2)) = Inr g" and "ftype g = FrameTCPDATA" and "channelID g = ch"
proof -
  have yok: "world_ok (y_world y)" using reaches_ok [OF assms(2,3)] assms(4) by simp
  obtain t4 where y2: "reaches 1 y (y\<lparr>y_world := world_start c s h t4\<rparr>)" "controlQ t4 = controlQ t"
    "q_list (dataQ t4) = [data_frame FrameTCPDATA ch [7]]" "s_reader t4 = s_reader t"
    by (rule remote_turn [OF assms(1) yok assms(5,8)])
  let ?y2 = "y\<lparr>y_world := world_start c s h t4\<rparr>"
  have w2: "y_world ?y2 = world_start c s h t4" and ok2: "world_ok (y_world ?y2)"
    using reaches_ok [OF assms(2) reaches_trans [OF assms(3) y2(1)]] assms(4) by simp_all
  have q4: "q_list (controlQ t4) = [open_reply ch None]" "avail (s_reader t4) = []" using y2 assms(7,9) by simp_all
  obtain s5 t5 g where y3: "reaches 5 ?y2 (?y2\<lparr>y_world := world_start (signalOpen ch None
      (c\<lparr>net := break_conn j 0 EOF (net c)\<rparr>)) s5 h t5\<rparr>)"
    and g: "fst (Decode (s_reader s5)) = Inr g" "ftype g = FrameTCPDATA" "channelID g = ch"
    by (rule hangup_turn [OF w2 ok2 q4(1) y2(3) q4(2) assms(6)])
  from reaches_trans [OF y2(1) y3] show thesis by (intro that [OF _ g]) simp
qed

lemma broken_state:
  assumes "reaches n y0 y" and "system_ok 0 y0" and "n + 13 < 2 ^ 32" and "linked 0 2 0 y"
    and "y_world y = world_start c s h t" and "quiet s" and "quiet t" and "tcpConns c = [2 \<mapsto> 0]"
    and "nextID c = 2" and "next_sock (net c) = 1" and "next_sock (snd (tcp h)) = 1"
    and "dial_error (snd (tcp h)) ''tcp'' target = None" and "connect_request rd header" and "names_target header target"
  obtains u f where "reaches (n + 10) y0 u" and "linked 0 2 0 u" and "w_cread (y_world u) = Continue"
    and "next_down (y_world u) = Some f" and "ftype f = FrameTCPDATA"
    and "tcpConns (w_client (y_world u)) (channelID f) = Some 1" and "\<not> healthy 1 (net (w_client (y_world u)))"
proof -
  have good: "client_good 2 0 c" "server_good 2 0 h" "y_conns y 0 = Some (SocksCopying 2)"
    using assms(4,5) by (simp_all add: linked_def channel_up_def world_start_def)
  have kc: "1 = next_sock (net c)" "3 = nextID c + 1" using assms(9,10) by simp_all
  have n: "n + 7 < 2 ^ 32" "n + 4 + 9 < 2 ^ 32" and auth: "authOK h"
    using assms(3) good(2) by (simp_all add: server_good_def)
  obtain z c2 s2 h2 t2 where z: "reaches 4 y z" "y_world z = world_start c2 s2 h2 t2"
      "y_conns z = (y_conns y)(1 \<mapsto> SocksOpening 3 (next_chan c) header)"
    and c2: "tcpConns c2 = (tcpConns c)(3 \<mapsto> 1)" "sockets (net c2) 0 = sockets (net c) 0"
    and h2: "authOK h2" "tconns (fst (tcp h2)) = (tconns (fst (tcp h)))(3 \<mapsto> next_sock (snd (tcp h)))"
      "(3, next_sock (snd (tcp h))) \<in> set (tcopiers (fst (tcp h2)))" "snd (tcp h2) = snd (dial ''tcp'' target (snd (tcp h)))"
    and q: "avail (s_reader s2) = []" "q_list (controlQ t2) = [open_reply 3 None]" "q_list (dataQ t2) = []"
      "avail (s_reader t2) = []"
    by (rule second_open [OF assms(5,2,1) n(1) assms(6,7) auth assms(12-14) kc]) simp
  have r4: "reaches (n + 4) y0 z" by (rule reaches_trans [OF assms(1) z(1)])
  let ?c3 = "signalOpen 3 None (c2\<lparr>net := break_conn 1 0 EOF (net c2)\<rparr>)"
  obtain s5 t5 g where y3: "reaches 6 z (z\<lparr>y_world := world_start ?c3 s5 h2 t5\<rparr>)"
    and g: "fst (Decode (s_reader s5)) = Inr g" "ftype g = FrameTCPDATA" "channelID g = 3"
    by (rule remote_sends_on_broken [OF z(2) assms(2) r4 n(2) h2(3) q])
  let ?u = "z\<lparr>y_world := world_start ?c3 s5 h2 t5\<rparr>"
  have ru: "reaches (n + 10) y0 ?u" "reaches 10 y ?u"
    using reaches_trans [OF r4 y3] reaches_trans [OF z(1) y3] by (simp_all add: add.commute)
  have inv: "tr.table_inv (tcp h2)"
    using reaches_tcp_inv [OF ru(2)] good(2) assms(5) by (simp add: server_good_def carries_def world_start_def)
  have c3: "tcpConns ?c3 = [2 \<mapsto> 0, 3 \<mapsto> 1]" "net ?c3 = break_conn 1 0 EOF (net c2)"
    using c2(1) assms(8) by (simp_all add: signalOpen_def Let_def split: option.split)
  have "healthy 0 (net c)" using good(1) by (simp add: client_good_def)
  then have "client_good 2 0 ?c3"
    using c3 c2(2) by (auto simp: client_good_def break_conn_def healthy_def split: if_splits)
  moreover have "server_good 2 0 h2"
    using good(2) h2(1,2,4) inv assms(11,12)
    by (auto simp: server_good_def carries_def tcp_conn_def dial_def healthy_def split: if_splits)
  moreover have "y_conns ?u 0 = Some (SocksCopying 2)" using z(3) good(3) by simp
  ultimately have "linked 0 2 0 ?u" by (simp add: linked_def channel_up_def world_start_def)
  moreover have "\<not> healthy 1 (net ?c3)" unfolding c3(2) by (auto simp: break_conn_def healthy_def)
  ultimately show thesis
    using ru(1) g c3(1) by (intro that [of ?u g]) (simp_all add: world_start_def next_down_def)
qed

theorem hangup_silences_others_witness:
  "\<exists>y z e. linked 0 2 0 y \<and> system_step y (Elsewhere (ClientReads 0)) z \<and> w_cread (y_world z) = Return (Some e)
    \<and> linked 0 2 0 z"
proof -
  obtain w where w: "tunnel_start demo_client_env ''tok'' demo_tunnel (replicate 12 7)
      (newTunnelClient (new_network (\<lambda>_ _. None)) (\<lambda>_. Inl EOF)) demo_writer (NewStats 0) demo_server w"
    "fst (tcp demo_server) = NewTCPRelay"
    "fst (Validate ((\<lambda>_. [''id1'']) (tokens demo_store)) 10 10 ''tok'' (replicate 12 7) demo_store) = None"
    "next_sock (new_network (\<lambda>_ _. None)) = 0" by (rule demo_system_start)
  obtain y c s h t where y: "reaches 12 (system_start w) y" "linked 0 2 0 y" "y_world y = world_start c s h t" "quiet s" "quiet t"
    "tcpConns c = [2 \<mapsto> 0]" "nextID c = 2" "next_sock (net c) = 0 + 1"
    "snd (tcp h) = snd (dial ''tcp'' (host_port ''ab'' 80) (new_network (\<lambda>_ _. None)))"
    by (rule connect_state [OF w(1) demo_server_def w(3) refl demo_request w(4) [symmetric]]) blast
  have h: "next_sock (snd (tcp h)) = 1" "dial_error (snd (tcp h)) ''tcp'' (host_port ''ab'' 80) = None"
    by (simp_all add: y(9) dial_def new_network_def)
  have n: "next_sock (net c) = 1" "12 + 13 < (2 :: nat) ^ 32" using y(8) by simp_all
  obtain u f where u: "reaches (12 + 10) (system_start w) u" "linked 0 2 0 u" "w_cread (y_world u) = Continue"
    "next_down (y_world u) = Some f" "ftype f = FrameTCPDATA"
    "tcpConns (w_client (y_world u)) (channelID f) = Some 1" "\<not> healthy 1 (net (w_client (y_world u)))"
    by (rule broken_state [OF y(1) system_ok_start [OF w(1,2)] n(2) y(2-7) n(1) h demo_request])
  obtain tr where tr: "system_run (system_start w) tr u" "length tr = 12 + 10" using u(1) unfolding reaches_def by blast
  have l: "length tr + 4 < 2 ^ 32" using tr(2) by simp
  from hangup_silences_others [OF w(1,2) tr(1) l u(2-7), of 0] u(2) show ?thesis by blast
qed

end
