(* ===== verification/SLPP_Harness.thy ===== *)
theory SLPP_Harness
  imports SLPP_Channel SLPP_ServerMain
begin

text \<open>
  The test harness, \<^verbatim>\<open>internal/testutil/harness.go\<close>: the server it starts for a test, how it
  waits for it, its echo servers and its SOCKS5 greeting; and what it means for the tunnel that a
  client behind it talks to an echo server (\<open>echo_through_tunnel\<close>).
\<close>

section \<open>The test's environment\<close>

text \<open>A test ends with the message of \<^verbatim>\<open>Fatalf\<close> or goes on with a value.\<close>

type_synonym 'a test = "string + 'a"

definition Fatalf :: "string \<Rightarrow> go_error \<Rightarrow> 'a test" where
  "Fatalf what e = Inl (what @ '': '' @ error_text e)"

datatype key_usage = KeyUsageDigitalSignature | KeyUsageKeyEncipherment

datatype ext_key_usage = ExtKeyUsageServerAuth

record cert_template =
  SerialNumber :: int
  CommonName :: string
  NotBefore :: int
  NotAfter :: int
  KeyUsage :: "key_usage list"
  ExtKeyUsage :: "ext_key_usage list"
  IPAddresses :: "string list"
  DNSNames :: "string list"

text \<open>
  RSA, X.509, PEM, the network and the file system are what they make of the calls; \<open>'k\<close> is the
  type of private keys.  \<open>health_get i\<close> is the error of the \<open>i\<close>-th request of
  \<^verbatim>\<open>waitForHTTPS\<close>, if any, and \<open>wait_clock i\<close> the time at the head of its loop.
\<close>

record 'k harness_env =
  h_files :: disk
  h_now :: int
  TempDir :: string
  rsa_GenerateKey :: "nat \<Rightarrow> go_error + 'k"
  CreateCertificate :: "cert_template \<Rightarrow> cert_template \<Rightarrow> 'k \<Rightarrow> go_error + byte list"
  MarshalPKCS1PrivateKey :: "'k \<Rightarrow> byte list"
  pem_EncodeToMemory :: "string \<Rightarrow> byte list \<Rightarrow> byte list"
  WriteFile_err :: "string \<Rightarrow> go_error option"
  h_random_token :: "go_error + byte list"
  h_random_id :: "go_error + byte list"
  h_order :: "string list"
  h_token_write :: write_outcome
  h_Listen :: "go_error + string"
  wait_clock :: "nat \<Rightarrow> int"
  health_get :: "tls_config \<Rightarrow> string \<Rightarrow> nat \<Rightarrow> go_error option"

section \<open>Certificate and token\<close>

text \<open>\<^verbatim>\<open>filepath.Join\<close> of the directory of a test, which is clean, and a plain name.\<close>

definition path_Join :: "string \<Rightarrow> string \<Rightarrow> string" where
  "path_Join dir name = dir @ ''/'' @ name"

definition second :: int where
  "second = 1000000000"

definition cert_for :: "int \<Rightarrow> cert_template" where
  "cert_for now =
     \<lparr>SerialNumber = 1, CommonName = ''127.0.0.1'', NotBefore = now + - (3600 * second),
      NotAfter = now + 24 * (3600 * second),
      KeyUsage = [KeyUsageDigitalSignature, KeyUsageKeyEncipherment], ExtKeyUsage = [ExtKeyUsageServerAuth],
      IPAddresses = [''127.0.0.1''], DNSNames = [''localhost'']\<rparr>"

text \<open>The result together with the files it has written.\<close>

definition GenerateSelfSignedCert ::
  "'k harness_env \<Rightarrow> string \<Rightarrow> (string \<times> string) test \<times> (string \<times> byte list) list" where
  "GenerateSelfSignedCert env dir =
     (case rsa_GenerateKey env 2048 of
        Inl e \<Rightarrow> (Fatalf ''generate rsa key'' e, [])
      | Inr key \<Rightarrow>
          (let template = cert_for (h_now env) in
           case CreateCertificate env template template key of
             Inl e \<Rightarrow> (Fatalf ''create cert'' e, [])
           | Inr der \<Rightarrow>
               (let certFile = path_Join dir ''server.crt''; keyFile = path_Join dir ''server.key'';
                    certPEM = pem_EncodeToMemory env ''CERTIFICATE'' der;
                    keyPEM = pem_EncodeToMemory env ''RSA PRIVATE KEY'' (MarshalPKCS1PrivateKey env key)
                in case WriteFile_err env certFile of
                     Some e \<Rightarrow> (Fatalf ''write cert'' e, [])
                   | None \<Rightarrow>
                       (case WriteFile_err env keyFile of
                          Some e \<Rightarrow> (Fatalf ''write key'' e, [(certFile, certPEM)])
                        | None \<Rightarrow> (Inr (certFile, keyFile), [(certFile, certPEM), (keyFile, keyPEM)])))))"

definition GenerateTokenStore :: "'k harness_env \<Rightarrow> string \<Rightarrow> token_record test \<times> disk" where
  "GenerateTokenStore env path =
     (case NewStore (h_files env) path of
        Inl e \<Rightarrow> (Fatalf ''create token store'' e, h_files env)
      | Inr store \<Rightarrow>
          (case Generate (h_now env) (3600 * second) (h_random_token env) (h_random_id env) (h_order env)
              (h_token_write env) (store, h_files env) of
             ((rec, Some e), _, dk) \<Rightarrow> (Fatalf ''generate token'' e, dk)
           | ((rec, None), _, dk) \<Rightarrow> (Inr rec, dk)))"

section \<open>Waiting for the server\<close>

text \<open>
  The loop of \<^verbatim>\<open>waitForHTTPS\<close>, from its \<open>i\<close>-th turn: whether a request was answered, and
  in which turn it ended.  It may run for ever if the clock stands still.
\<close>

partial_function (option) wait_from ::
  "(nat \<Rightarrow> int) \<Rightarrow> (nat \<Rightarrow> go_error option) \<Rightarrow> int \<Rightarrow> nat \<Rightarrow> (bool \<times> nat) option" where
  "wait_from tm get deadline i =
     (if tm i < deadline then
        (case get i of
           None \<Rightarrow> Some (True, i)
         | Some e \<Rightarrow> wait_from tm get deadline (i + 1))
      else Some (False, i))"

declare wait_from.simps [code]

definition waitForHTTPS :: "'k harness_env \<Rightarrow> string \<Rightarrow> unit test option" where
  "waitForHTTPS env url =
     (case wait_from (wait_clock env) (health_get env (client_tls True) url) (h_now env + 5 * second) 0 of
        None \<Rightarrow> None
      | Some (ok, n) \<Rightarrow>
          Some (if ok then Inr () else Inl (''server did not become healthy: '' @ url)))"

lemma wait_from_result:
  assumes "\<forall>i. tm i + 50 * (second div 1000) \<le> tm (Suc i)" and "start \<le> tm 0"
  shows "\<exists>ok n. wait_from tm get (start + 5 * second) i = Some (ok, n) \<and> i \<le> n \<and> n \<le> max i 100
    \<and> (\<forall>j. i \<le> j \<and> j < n \<longrightarrow> get j \<noteq> None) \<and> ok = (tm n < start + 5 * second) \<and> (ok \<longrightarrow> get n = None)"
proof -
  have step: "start + int j * 50000000 \<le> tm j" for j
  proof (induction j)
    case (Suc j)
    have "tm j + 50000000 \<le> tm (Suc j)" using assms(1) by (simp add: second_def)
    with Suc show ?case by (simp add: algebra_simps)
  qed (use assms(2) in simp)
  show ?thesis
  proof (induction "100 - i" arbitrary: i)
    case 0
    then have "start + 5 * second \<le> tm i" using step [of i] by (simp add: second_def)
    then show ?case by (subst wait_from.simps) auto
  next
    case (Suc m)
    show ?case
    proof (cases "tm i < start + 5 * second \<and> get i \<noteq> None")
      case True
      have "m = 100 - Suc i" using Suc.hyps(2) by simp
      from Suc.hyps(1) [OF this] obtain ok n where n:
        "wait_from tm get (start + 5 * second) (Suc i) = Some (ok, n)" "Suc i \<le> n" "n \<le> max (Suc i) 100"
        "\<forall>j. Suc i \<le> j \<and> j < n \<longrightarrow> get j \<noteq> None" "ok = (tm n < start + 5 * second)" "ok \<longrightarrow> get n = None"
        by blast
      have "\<forall>j. i \<le> j \<and> j < n \<longrightarrow> get j \<noteq> None" using n(4) True by (metis Suc_leI le_neq_implies_less)
      moreover have "wait_from tm get (start + 5 * second) i = Some (ok, n)"
        using True n(1) by (subst wait_from.simps) (auto split: option.split)
      moreover have "n \<le> max i 100" using n(3) Suc.hyps(2) by simp
      ultimately show ?thesis using n(2,5,6) by (intro exI [of _ ok] exI [of _ n]) simp
    next
      case False
      then show ?thesis by (subst wait_from.simps) auto
    qed
  qed
qed

section \<open>Starting a server\<close>

record running_server =
  BaseURL :: string
  rs_ControlSocket :: string
  rs_Stats :: stats
  TokenRecord :: token_record

text \<open>What a test server leaves running, and what its clean-up does.\<close>

datatype harness_goroutine =
    RunsControl control_server stats
  | ServesTLS "tunnel_route http_server" tunnel_handler string string string
  | CleanUp string

text \<open>\<open>None\<close> when \<^verbatim>\<open>waitForHTTPS\<close> does not return.\<close>

definition StartServer ::
  "'k harness_env \<Rightarrow> (running_server test \<times> harness_goroutine list \<times> disk) option" where
  "StartServer env =
     (let dir = TempDir env in
      case fst (GenerateSelfSignedCert env dir) of
        Inl m \<Rightarrow> Some (Inl m, [], h_files env)
      | Inr (certFile, keyFile) \<Rightarrow>
          (let tokenFile = path_Join dir ''tokens.json'' in
           case GenerateTokenStore env tokenFile of
             (Inl m, dk) \<Rightarrow> Some (Inl m, [], dk)
           | (Inr token, dk) \<Rightarrow>
               (let controlSocket = path_Join dir ''slppd.sock''; stats = NewStats (h_now env) in
                case NewStore dk tokenFile of
                  Inl e \<Rightarrow> Some (Fatalf ''load token store'' e, [], dk)
                | Inr store \<Rightarrow>
                    (let handler = \<lparr>Validator = store, Stats = stats\<rparr>;
                         httpServer = NewHTTPServer \<lparr>ListenAddr = ''127.0.0.1:0'', CertFile = certFile,
                           KeyFile = keyFile, TokenFile_path = [], ControlSocket = controlSocket,
                           cfg_ServerHeartbeat = 0, IdleTimeout = 0, cfg_TLSConfig = None\<rparr>;
                         control = RunsControl (NewServer controlSocket) stats
                     in case h_Listen env of
                          Inl e \<Rightarrow> Some (Fatalf ''listen'' e, [control], dk)
                        | Inr addr \<Rightarrow>
                            (let baseURL = ''https://'' @ addr;
                                 gs = [control, ServesTLS httpServer handler addr certFile keyFile]
                             in case waitForHTTPS env (baseURL @ ''/healthz'') of
                                  None \<Rightarrow> None
                                | Some (Inl m) \<Rightarrow> Some (Inl m, gs, dk)
                                | Some (Inr _) \<Rightarrow>
                                    Some (Inr \<lparr>BaseURL = baseURL, rs_ControlSocket = controlSocket,
                                        rs_Stats = stats, TokenRecord = token\<rparr>, gs @ [CleanUp addr], dk))))))"

section \<open>Clients and echo servers\<close>

definition FetchControlStats ::
  "(string \<Rightarrow> go_error option) \<Rightarrow> (string \<Rightarrow> http_request \<Rightarrow> go_error + http_response) \<Rightarrow> string
     \<Rightarrow> go_error + http_response" where
  "FetchControlStats newRequest send sock =
     (case newRequest ''http://unix/stats'' of
        Some e \<Rightarrow> Inl e
      | None \<Rightarrow> send sock \<lparr>req_method = ''GET'', req_url = ''http://unix/stats'', req_header = Map.empty\<rparr>)"

text \<open>The verb \<^verbatim>\<open>%v\<close> of a byte slice.\<close>

definition byte_slice_text :: "byte list \<Rightarrow> string" where
  "byte_slice_text bs = ''['' @ join_with (CHR '' '') (map (\<lambda>b. decimal (unat b)) bs) @ '']''"

definition SendSOCKS5Handshake :: "nat \<Rightarrow> reader \<Rightarrow> network \<Rightarrow> go_error option \<times> reader \<times> network" where
  "SendSOCKS5Handshake conn rd w =
     (case sock_write conn [0x05, 0x01, 0x00] w of
        (Some e, w1) \<Rightarrow> (Some e, rd, w1)
      | (None, w1) \<Rightarrow>
          (case read_full 2 rd of
             (Inl e, r1) \<Rightarrow> (Some e, r1, w1)
           | (Inr rep, r1) \<Rightarrow>
               if rep ! 0 \<noteq> 0x05 \<or> rep ! 1 \<noteq> 0x00
               then (Some (ErrorNew (''unexpected socks handshake reply: '' @ byte_slice_text rep)), r1, w1)
               else (None, r1, w1)))"

text \<open>One turn of the echo server's loop on a connection: whether it goes on.\<close>

definition TCPEcho_iter :: "read_result \<Rightarrow> nat \<Rightarrow> network \<Rightarrow> bool \<times> network" where
  "TCPEcho_iter rd c w =
     (let (buf, err) = rd;
          w1 = (if length buf > 0 then snd (sock_write c buf w) else w)
      in if err \<noteq> None then (False, sock_close c w1) else (True, w1))"

primrec TCPEcho_run :: "read_result list \<Rightarrow> nat \<Rightarrow> network \<Rightarrow> network" where
  "TCPEcho_run [] c w = w"
| "TCPEcho_run (rd # rds) c w =
     (case TCPEcho_iter rd c w of (on, w1) \<Rightarrow> if on then TCPEcho_run rds c w1 else w1)"

definition StartTCPEcho :: "go_error + string \<Rightarrow> string test" where
  "StartTCPEcho listen = (case listen of Inl e \<Rightarrow> Fatalf ''tcp echo listen'' e | Inr addr \<Rightarrow> Inr addr)"

text \<open>The UDP echo server: the datagrams it sends, with their addresses, for what it reads.\<close>

primrec UDPEcho_run :: "(go_error + byte list \<times> string) list \<Rightarrow> (byte list \<times> string) list" where
  "UDPEcho_run [] = []"
| "UDPEcho_run (rd # rds) =
     (case rd of Inl e \<Rightarrow> [] | Inr (buf, addr) \<Rightarrow> (buf, addr) # UDPEcho_run rds)"

definition StartUDPEcho :: "go_error + string \<Rightarrow> string test" where
  "StartUDPEcho listen = (case listen of Inl e \<Rightarrow> Fatalf ''udp echo listen'' e | Inr addr \<Rightarrow> Inr addr)"

section \<open>Properties of the harness\<close>

text \<open>C28. Waiting for the server ends: with a clock that moves on by at least the 50 milliseconds of
  the pause, \<^verbatim>\<open>waitForHTTPS\<close> returns after at most 100 requests, and it lets the test go on
  exactly when one of the requests it makes within five seconds is answered.\<close>

theorem wait_for_server:
  assumes "\<forall>i. wait_clock env i + 50 * (second div 1000) \<le> wait_clock env (Suc i)"
    and "h_now env \<le> wait_clock env 0"
  shows "\<exists>r. waitForHTTPS env url = Some r
    \<and> (r = Inr () \<longleftrightarrow> (\<exists>n < 100. wait_clock env n < h_now env + 5 * second
          \<and> health_get env (client_tls True) url n = None))"
proof -
  let ?get = "health_get env (client_tls True) url" and ?tm = "wait_clock env"
  obtain ok n where w: "wait_from ?tm ?get (h_now env + 5 * second) 0 = Some (ok, n)" "n \<le> 100"
    "\<forall>j. j < n \<longrightarrow> ?get j \<noteq> None" "ok = (?tm n < h_now env + 5 * second)" "ok \<longrightarrow> ?get n = None"
    using wait_from_result [OF assms, of ?get 0] by auto
  have mono: "?tm i + int d * 50000000 \<le> ?tm (i + d)" for i d
  proof (induction d)
    case (Suc d)
    have "?tm (i + d) + 50000000 \<le> ?tm (Suc (i + d))" using assms(1) by (simp add: second_def)
    with Suc show ?case by (simp add: algebra_simps)
  qed simp
  have "n \<noteq> 100" if ok
    using that w(4) mono [of 0 100] assms(2) by (auto simp: second_def)
  then have 1: "ok \<Longrightarrow> \<exists>n < 100. ?tm n < h_now env + 5 * second \<and> ?get n = None"
    using w by (metis le_neq_implies_less)
  have 2: "ok" if m: "?tm m < h_now env + 5 * second" "?get m = None" for m
  proof -
    have "n \<le> m" using w(3) m(2) not_le by blast
    then have "?tm n \<le> ?tm m" using mono [of n "m - n"] by simp
    then show ?thesis using m(1) w(4) by simp
  qed
  show ?thesis using w(1) 1 2 by (auto simp: waitForHTTPS_def)
qed

definition demo_harness :: "nat harness_env" where
  "demo_harness =
     \<lparr>h_files = (\<lambda>_. NoFile), h_now = 10, TempDir = ''/tmp/t'', rsa_GenerateKey = (\<lambda>_. Inr 0),
      CreateCertificate = (\<lambda>_ _ _. Inr [1]), MarshalPKCS1PrivateKey = (\<lambda>_. [2]),
      pem_EncodeToMemory = (\<lambda>_ b. b), WriteFile_err = (\<lambda>_. None), h_random_token = Inr [1, 2, 3],
      h_random_id = Inr [4, 5, 6], h_order = [RawURLEncoding [4, 5, 6]], h_token_write = WriteOK,
      h_Listen = Inr ''127.0.0.1:4433'', wait_clock = (\<lambda>i. 10 + 60000000 * int i),
      health_get = (\<lambda>_ _ i. if i < 3 then Some EOF else None)\<rparr>"

theorem wait_for_server_witness:
  "waitForHTTPS demo_harness ''https://a/healthz'' = Some (Inr ())"
proof -
  have "\<forall>i. wait_clock demo_harness i + 50 * (second div 1000) \<le> wait_clock demo_harness (Suc i)"
    "h_now demo_harness \<le> wait_clock demo_harness 0"
    by (simp_all add: demo_harness_def second_def)
  from wait_for_server [OF this, of "''https://a/healthz''"]
  obtain r where r: "waitForHTTPS demo_harness ''https://a/healthz'' = Some r"
    "r = Inr () \<longleftrightarrow> (\<exists>n < 100. wait_clock demo_harness n < h_now demo_harness + 5 * second
      \<and> health_get demo_harness (client_tls True) ''https://a/healthz'' n = None)" by blast
  have "\<exists>n < 100. wait_clock demo_harness n < h_now demo_harness + 5 * second
      \<and> health_get demo_harness (client_tls True) ''https://a/healthz'' n = None"
    by (intro exI [of _ 3]) (simp add: demo_harness_def second_def)
  with r show ?thesis by simp
qed

text \<open>C27. A test server accepts its own token: whenever \<^verbatim>\<open>StartServer\<close> lets the test go on, it
  has left an HTTPS server running, at the address of the base URL, with the tunnel's routes and a
  handler whose store accepts the token of the result for one hour, for any nonce; and the control
  server on the socket of the result answers what \<^verbatim>\<open>FetchControlStats\<close> asks for with the
  counters of that same handler.\<close>

theorem harness_server:
  assumes "StartServer env = Some (Inr rs, gs, dk)" and "h_random_token env = Inr tokenBytes"
    and "h_random_id env = Inr idBytes" and "h_files env (path_Join (TempDir env) ''tokens.json'') = NoFile"
    and "h_order env = [RawURLEncoding idBytes]"
  shows "\<exists>srv h addr cert key. ServesTLS srv h addr cert key \<in> set gs \<and> BaseURL rs = ''https://'' @ addr
    \<and> map_of (Handler srv) ''/tunnel'' = Some HandleTunnel \<and> map_of (Handler srv) ''/healthz'' = Some TunnelHealth
    \<and> rec_token (TokenRecord rs) = RawURLEncoding tokenBytes
    \<and> (fst (Validate (h_order env) t t2 (rec_token (TokenRecord rs)) nonce (Validator h)) = None
        \<longleftrightarrow> t \<le> h_now env + 3600 * second)
    \<and> RunsControl (NewServer (rs_ControlSocket rs)) (Stats h) \<in> set gs \<and> rs_Stats rs = Stats h
    \<and> control_reply time (Stats h) ''/stats'' (NewServer (rs_ControlSocket rs))
        = Some (envelope_json time \<lparr>OK = True, out_message = [], out_data = Statistics (Snapshot (Stats h))\<rparr>)"
proof -
  let ?p = "path_Join (TempDir env) ''tokens.json''"
  let ?r = "\<lparr>rec_id = RawURLEncoding idBytes, rec_token = RawURLEncoding tokenBytes,
    ExpiresAt = h_now env + 3600 * second, Revoked = False\<rparr>"
  have p: "?p \<noteq> []" by (simp add: path_Join_def)
  obtain tok dk1 where g: "GenerateTokenStore env ?p = (Inr tok, dk1)"
    using assms(1) by (auto simp: StartServer_def Let_def split: sum.splits prod.splits)
  then have tok: "tok = ?r" "dk1 = (h_files env)(?p := TokenFile [?r])"
    using assms(2-5) p
    by (auto simp: GenerateTokenStore_def NewStore_def Generate_def flushLocked_def Fatalf_def Let_def
        range_values_def split: write_outcome.splits)
  let ?s = "\<lparr>store_path = ?p, tokens = [rec_id ?r \<mapsto> ?r], replay = Map.empty\<rparr>"
  have st: "NewStore dk1 ?p = Inr ?s" using p by (simp add: NewStore_def tok(2) load_tokens_def)
  have m: "matching ?s (h_order env) (RawURLEncoding tokenBytes) = Some ?r"
    by (simp add: matching_def range_values_def assms(5))
  have val: "fst (Validate (h_order env) t t2 (rec_token ?r) nonce ?s) = None \<longleftrightarrow> t \<le> h_now env + 3600 * second"
    unfolding Validate_def using m by (auto simp: Let_def)
  have ctl: "control_reply time sx ''/stats'' (NewServer so)
      = Some (envelope_json time \<lparr>OK = True, out_message = [], out_data = Statistics (Snapshot sx)\<rparr>)" for sx so
    by (simp add: control_reply_def NewServer_def HandleFunc_def)
  have rt: "map_of (Handler (NewHTTPServer cfg)) ''/tunnel'' = Some HandleTunnel"
    "map_of (Handler (NewHTTPServer cfg)) ''/healthz'' = Some TunnelHealth" for cfg
    by (simp_all add: NewHTTPServer_def Register_routes_def HandleFunc_def)
  obtain cert key addr where c: "fst (GenerateSelfSignedCert env (TempDir env)) = Inr (cert, key)"
    "h_Listen env = Inr addr"
    using assms(1) g st by (auto simp: StartServer_def Fatalf_def Let_def split: sum.splits prod.splits)
  let ?so = "path_Join (TempDir env) ''slppd.sock''"
  let ?h = "\<lparr>Validator = ?s, Stats = NewStats (h_now env)\<rparr>"
  let ?srv = "NewHTTPServer \<lparr>ListenAddr = ''127.0.0.1:0'', CertFile = cert, KeyFile = key, TokenFile_path = [],
    ControlSocket = ?so, cfg_ServerHeartbeat = 0, IdleTimeout = 0, cfg_TLSConfig = None\<rparr>"
  have "gs = [RunsControl (NewServer ?so) (NewStats (h_now env)), ServesTLS ?srv ?h addr cert key, CleanUp addr]
    \<and> rs = \<lparr>BaseURL = ''https://'' @ addr, rs_ControlSocket = ?so, rs_Stats = NewStats (h_now env), TokenRecord = ?r\<rparr>"
    using assms(1) g st c unfolding StartServer_def tok(1)
    by (auto simp: Let_def split: sum.splits option.splits)
  then show ?thesis using val ctl rt
    by (intro exI [of _ ?srv] exI [of _ ?h] exI [of _ addr] exI [of _ cert] exI [of _ key]) simp
qed

lemma demo_harness_simps [simp]:
  "h_files demo_harness = (\<lambda>_. NoFile)" "h_now demo_harness = 10" "TempDir demo_harness = ''/tmp/t''"
  "rsa_GenerateKey demo_harness n = Inr 0" "CreateCertificate demo_harness x y z = Inr [1]"
  "WriteFile_err demo_harness f = None" "h_random_token demo_harness = Inr [1, 2, 3]"
  "h_random_id demo_harness = Inr [4, 5, 6]" "h_order demo_harness = [RawURLEncoding [4, 5, 6]]"
  "h_token_write demo_harness = WriteOK" "h_Listen demo_harness = Inr ''127.0.0.1:4433''"
  by (simp_all add: demo_harness_def)

lemma demo_waits: "waitForHTTPS demo_harness url = Some (Inr ())"
proof -
  let ?w = "wait_from (wait_clock demo_harness) (health_get demo_harness (client_tls True) url) (10 + 5 * second)"
  have "?w 3 = Some (True, 3)" by (subst wait_from.simps) (simp add: demo_harness_def second_def)
  moreover have "?w i = ?w (i + 1)" if "i < 3" for i
    using that by (subst wait_from.simps) (simp add: demo_harness_def second_def)
  note this [of 0] this [of 1] this [of 2]
  ultimately show ?thesis by (simp add: waitForHTTPS_def numeral_eq_Suc)
qed

theorem harness_server_witness:
  "\<exists>rs gs dk srv h cert key. StartServer demo_harness = Some (Inr rs, gs, dk)
    \<and> ServesTLS srv h ''127.0.0.1:4433'' cert key \<in> set gs
    \<and> fst (Validate (h_order demo_harness) 3600000000010 0 (rec_token (TokenRecord rs)) (replicate 12 1) (Validator h)) = None"
proof -
  have p: "path_Join x y \<noteq> []" for x y by (simp add: path_Join_def)
  obtain rs gs dk where st: "StartServer demo_harness = Some (Inr rs, gs, dk)"
    and url: "BaseURL rs = ''https://127.0.0.1:4433''"
    unfolding StartServer_def
    by (simp add: demo_waits GenerateSelfSignedCert_def GenerateTokenStore_def Let_def
        NewStore_def Generate_def flushLocked_def p)
  have f: "h_files demo_harness (path_Join (TempDir demo_harness) ''tokens.json'') = NoFile" by simp
  from harness_server [OF st demo_harness_simps(7,8) f demo_harness_simps(9), of 3600000000010 0 "replicate 12 1" "\<lambda>_. []"]
  obtain srv h addr cert key where r: "ServesTLS srv h addr cert key \<in> set gs" "BaseURL rs = ''https://'' @ addr"
    "fst (Validate (h_order demo_harness) 3600000000010 0 (rec_token (TokenRecord rs)) (replicate 12 1) (Validator h)) = None
      \<longleftrightarrow> 3600000000010 \<le> h_now demo_harness + 3600 * second"
    by (elim exE conjE) (rule that)
  have "addr = ''127.0.0.1:4433''" using url r(2) by simp
  with st r show ?thesis by (auto simp: second_def)
qed

text \<open>The harness speaks the client's SOCKS5: the greeting that \<^verbatim>\<open>SendSOCKS5Handshake\<close>
  writes makes the client's front end answer with the two bytes that it accepts, and it accepts no
  other answer; on an answer cut short it fails with the error of the read.\<close>

theorem harness_handshake:
  assumes "healthy a w" and "healthy b w2" and "avail rd2 = concat (drop (length (delivered a w)) (delivered a w')) @ rest"
    and "SendSOCKS5Handshake a rd w = (err, rd', w')"
  shows "delivered b (snd (snd (socks_request b rd2 w2))) = delivered b w2 @ [[0x05, 0x00]]
    \<and> (err = None \<longleftrightarrow> (\<exists>more. avail rd = [0x05, 0x00] @ more \<and> avail rd' = more))
    \<and> (length (avail rd) < 2 \<longrightarrow>
         err = Some (if avail rd \<noteq> [] \<and> end_err rd = EOF then ErrUnexpectedEOF else end_err rd))"
proof -
  note wa = sock_write_healthy [OF assms(1), of "[0x05, 0x01, 0x00]"]
  have w': "w' = snd (sock_write a [0x05, 0x01, 0x00] w)"
    using assms(4) by (auto simp: SendSOCKS5Handshake_def split: prod.splits option.splits sum.splits if_splits)
  have "avail rd2 = [0x05, 0x01, 0x00] @ rest" using assms(3) wa w' by simp
  then have "read_full 2 rd2 = (Inr [0x05, 0x01], rd2\<lparr>avail := 0x00 # rest\<rparr>)" by (simp add: read_full_def)
  moreover have "read_full (unat (1 :: byte)) (rd2\<lparr>avail := 0x00 # rest\<rparr>) = (Inr [0x00], rd2\<lparr>avail := rest\<rparr>)"
    by (simp add: read_full_def)
  ultimately have 1: "delivered b (snd (snd (socks_request b rd2 w2))) = delivered b w2 @ [[0x05, 0x00]]"
    using sock_write_healthy [OF assms(2), of "[0x05, 0x00]"]
    by (auto simp: socks_request_def split_beta split: option.split sum.split prod.split)
  have 2: "err = None \<longleftrightarrow> (\<exists>more. avail rd = [0x05, 0x00] @ more \<and> avail rd' = more)"
  proof (cases "2 \<le> length (avail rd)")
    case True
    then obtain x y more where m: "avail rd = x # y # more"
      by (metis Suc_le_length_iff numeral_2_eq_2)
    have "SendSOCKS5Handshake a rd w = (if x \<noteq> 0x05 \<or> y \<noteq> 0x00
        then (Some (ErrorNew (''unexpected socks handshake reply: '' @ byte_slice_text [x, y])), rd\<lparr>avail := more\<rparr>, w')
        else (None, rd\<lparr>avail := more\<rparr>, w'))"
      using wa w' m by (simp add: SendSOCKS5Handshake_def read_full_def split_beta)
    then show ?thesis using assms(4) m by (auto split: if_splits)
  next
    case False
    then show ?thesis using assms(4) wa
      by (auto simp: SendSOCKS5Handshake_def read_full_def split: prod.splits option.splits)
  qed
  have 3: "err = Some (if avail rd \<noteq> [] \<and> end_err rd = EOF then ErrUnexpectedEOF else end_err rd)"
    if "length (avail rd) < 2"
    using assms(4) wa that by (auto simp: SendSOCKS5Handshake_def read_full_def split: prod.splits option.splits)
  show ?thesis using 1 2 3 by blast
qed

theorem harness_handshake_witness:
  "let w = (new_network (\<lambda>_ _. None))\<lparr>sockets := [0 \<mapsto> \<lparr>sent = [], conn_open = True, broken = None\<rparr>]\<rparr>
   in fst (SendSOCKS5Handshake 0 \<lparr>avail = [5, 0, 9], end_err = EOF\<rparr> w) = None
    \<and> delivered 0 (snd (snd (socks_request 0 \<lparr>avail = [5, 1, 0, 5, 1], end_err = EOF\<rparr> w))) = [[5, 0]]"
proof -
  let ?w = "(new_network (\<lambda>_ _. None))\<lparr>sockets := [0 \<mapsto> \<lparr>sent = [], conn_open = True, broken = None\<rparr>]\<rparr>"
  have h: "healthy 0 ?w" "delivered 0 ?w = []" by (simp_all add: healthy_def delivered_def)
  obtain err rd' w' where s: "SendSOCKS5Handshake 0 \<lparr>avail = [5, 0, 9], end_err = EOF\<rparr> ?w = (err, rd', w')"
    by (metis prod_cases3)
  then have "delivered 0 w' = [[5, 1, 0]]" "avail rd' = [9]"
    by (auto simp: SendSOCKS5Handshake_def sock_write_def conn_write_def read_full_def delivered_def new_network_def)
  with harness_handshake [OF h(1) h(1) _ s, of "\<lparr>avail = [5, 1, 0, 5, 1], end_err = EOF\<rparr>" "[5, 1]"] h(2) s
  show ?thesis by (simp add: Let_def)
qed

section \<open>An echo through the tunnel\<close>

lemma TCPEcho_run_echoes:
  "healthy c w \<Longrightarrow> \<forall>rd \<in> set rds. snd rd = None \<Longrightarrow>
     concat (delivered c (TCPEcho_run rds c w)) = concat (delivered c w) @ concat (map fst rds)"
proof (induction rds arbitrary: w)
  case (Cons rd rds)
  let ?w = "if length (fst rd) > 0 then snd (sock_write c (fst rd) w) else w"
  have "healthy c ?w" "concat (delivered c ?w) = concat (delivered c w) @ fst rd"
    using sock_write_healthy [OF Cons.prems(1), of "fst rd"] Cons.prems(1) by auto
  moreover have "TCPEcho_run (rd # rds) c w = TCPEcho_run rds c ?w"
    using Cons.prems(2) by (cases rd) (simp add: TCPEcho_iter_def Let_def)
  ultimately show ?case using Cons.IH [of ?w] Cons.prems(2) by simp
qed simp

lemma subseq_concat: "subseq xs ys \<Longrightarrow> subseq (concat xs) (concat ys)"
  by (induction rule: list_emb.induct) (auto intro: list_emb_append2 list_emb_append_mono)

lemma subseq_front: "subseq (xs @ ys) zs \<Longrightarrow> subseq xs zs"
  by (meson prefixI prefix_imp_subseq subseq_order.trans)

text \<open>What is echoed comes back: a SOCKS client that talks through the tunnel to the echo server
  gets back only bytes that it has sent, in the order in which it has sent them; and when no queue
  was full, so that neither pipe refused anything, exactly the beginning of what it has sent.\<close>

theorem echo_through_tunnel:
  assumes "tunnel_start env token tunnel nonce c0 wr st h0 w" and "world_run w tr v"
    and "world_run v tr2 u" and "channel_up ch k c v"
    and "\<forall>x \<in> set tr2. leaves_channel ch k c x"
    and "transit (tcp_up_pipe ch c v) = []" and "got (tcp_up_pipe ch c v) = []" and "transit (tcp_down_pipe ch k v) = []"
    and "healthy e ew" and "delivered e ew = []" and "\<forall>rd \<in> set rds. snd rd = None"
    and "prefix (concat (map fst rds)) (concat (delivered c (snd (tcp (w_server u)))))"
    and "prefix (concat (concat (map (down_offers ch) tr2))) (concat (delivered e (TCPEcho_run rds e ew)))"
    and "reads = concat (map (up_offers ch) tr2)"
  shows "\<exists>ps. delivered k (net (w_client u)) = delivered k (net (w_client v)) @ ps
    \<and> subseq (concat ps) (concat reads)
    \<and> (length (got (tcp_up_pipe ch c u) @ transit (tcp_up_pipe ch c u)) = length reads
         \<and> length (ps @ transit (tcp_down_pipe ch k u)) = length (concat (map (down_offers ch) tr2))
       \<longrightarrow> prefix (concat ps) (concat reads))"
proof -
  let ?returns = "concat (map (down_offers ch) tr2)"
  note run = tcp_run [OF assms(3) world_ok_run [OF assms(2) tunnel_start_ok [OF assms(1)]] assms(4,5)]
  obtain qs where q: "got (tcp_up_pipe ch c u) = qs" "subseq (qs @ transit (tcp_up_pipe ch c u)) reads"
    using pipe_goes_contract [OF conjunct1 [OF conjunct2 [OF run]]] assms(6,7,14) by auto
  obtain ps where p: "got (tcp_down_pipe ch k u) = got (tcp_down_pipe ch k v) @ ps"
    "subseq (ps @ transit (tcp_down_pipe ch k u)) ?returns"
    using pipe_goes_contract [OF conjunct2 [OF conjunct2 [OF run]]] assms(8) by auto
  have d: "delivered k (net (w_client u)) = delivered k (net (w_client v)) @ ps"
    using p(1) by (simp add: down_pipe_def)
  have qs: "delivered c (snd (tcp (w_server u))) = qs" using q(1) by (simp add: up_pipe_def)
  have returned: "prefix (concat ?returns) (concat qs)"
    using assms(12,13) TCPEcho_run_echoes [OF assms(9,11)] assms(10) qs by (auto intro: prefix_order.trans)
  have "subseq (concat ps) (concat ?returns)" "subseq (concat qs) (concat reads)"
    using subseq_concat [OF p(2)] subseq_concat [OF q(2)] by (auto dest: subseq_front)
  then have s: "subseq (concat ps) (concat reads)"
    using prefix_imp_subseq [OF returned] subseq_order.trans by blast
  have "prefix (concat ps) (concat reads)"
    if "length (qs @ transit (tcp_up_pipe ch c u)) = length reads" "length (ps @ transit (tcp_down_pipe ch k u)) = length ?returns"
  proof -
    have "qs @ transit (tcp_up_pipe ch c u) = reads" "ps @ transit (tcp_down_pipe ch k u) = ?returns"
      using subseq_same_length [OF q(2) that(1)] subseq_same_length [OF p(2) that(2)] .
    then have "prefix (concat ps) (concat ?returns)" "prefix (concat qs) (concat reads)"
      by (metis concat_append prefixI)+
    then show ?thesis using returned by (meson prefix_order.trans)
  qed
  then show ?thesis using d s q(1) by blast
qed

lemma pipes_start_empty:
  assumes "tunnel_start env token tunnel nonce c wr st h w"
  shows "transit (tcp_up_pipe ch k w) = []" and "transit (tcp_down_pipe ch k w) = []"
  using start_transit(1,2) [OF assms frame_kinds(1)] by (simp_all add: up_pipe_def down_pipe_def)

theorem echo_through_tunnel_witness:
  "\<exists>w u ps. world_step w (ClientDoes (Client (CCopy 2 ([5, 6], None) False))) u
    \<and> delivered 0 (net (w_client u)) = delivered 0 (net (w_client w)) @ ps \<and> subseq (concat ps) [5, 6]"
proof -
  obtain w where w: "tunnel_start demo_client_env ''tok'' demo_tunnel (replicate 12 7) demo_open_client
      demo_writer (NewStats 0) demo_open_server w"
    "w_client w = demo_open_client" "w_server w = demo_open_server" by (rule demo_world_start)
  let ?a = "Client (CCopy 2 ([5, 6], None) False)"
  obtain c s where c: "client_act ?a (w_client w, w_csess w) = (c, s)" by (metis prod.exhaust)
  let ?u = "w\<lparr>w_client := c, w_csess := s, w_up := w_up w @ sent_since (w_csess w) s\<rparr>"
  have st: "world_step w (ClientDoes ?a) ?u"
    using c by (intro client_does) (simp_all add: client_own_def read_ok_def)
  have run: "world_run w [(w, ClientDoes ?a)] ?u" using run_on [OF run_start st] by simp
  have up: "channel_up 2 0 0 w" using demo_open_up(1,2) w(2,3) by (simp add: channel_up_def)
  have leaves: "\<forall>x \<in> set [(w, ClientDoes ?a)]. leaves_channel 2 0 0 x"
    by (simp add: leaves_channel_def client_leaves_def up_keeps_def down_keeps_def)
  have got: "got (tcp_up_pipe 2 0 w) = []"
    using w(3) by (simp add: up_pipe_def demo_open_server_def demo_server_def new_handler_def TCP_Open_def dial_def
        new_network_def Register_def delivered_def Let_def)
  let ?e = "net demo_client"
  have e: "healthy 0 ?e" "delivered 0 ?e = []"
    by (simp_all add: demo_client_def newTunnelClient_def healthy_def delivered_def)
  have rds: "\<forall>rd \<in> set ([] :: read_result list). snd rd = None"
    "prefix (concat (map fst ([] :: read_result list))) (concat (delivered 0 (snd (tcp (w_server ?u)))))"
    "prefix (concat (concat (map (down_offers 2) [(w, ClientDoes ?a)])))
       (concat (delivered 0 (TCPEcho_run [] 0 ?e)))"
    by (simp_all add: down_offers_def)
  have off: "[[5, 6]] = concat (map (up_offers 2) [(w, ClientDoes ?a)])"
    by (simp add: up_offers_def client_copied_def)
  from echo_through_tunnel [OF w(1) run_start run up leaves pipes_start_empty(1) [OF w(1)] got
      pipes_start_empty(2) [OF w(1)] e rds off]
  obtain ps where "delivered 0 (net (w_client ?u)) = delivered 0 (net (w_client w)) @ ps" "subseq (concat ps) [5, 6]"
    by auto
  then show ?thesis using st by (intro exI [of _ w] exI [of _ ?u] exI [of _ ps]) simp
qed

end
