(* ===== verification/Spec2Isabelle.thy ===== *)
theory Spec2Isabelle
  imports SLPP_Prelude SLPP_Frame SLPP_Messages SLPP_Queue SLPP_Stats SLPP_Session SLPP_Base64
    SLPP_Auth SLPP_Relay SLPP_Server SLPP_NetText SLPP_IPv6 SLPP_Socks SLPP_Client SLPP_Tunnel
    SLPP_Duplex SLPP_Admin SLPP_TimerWheel SLPP_Flag SLPP_Bench SLPP_Api SLPP_Http SLPP_Process
    SLPP_ClientMain SLPP_ServerMain SLPP_ClientRun SLPP_Protocol SLPP_Handshake SLPP_World SLPP_Pipe
    SLPP_Channel SLPP_ClientProc SLPP_Links SLPP_System SLPP_Connect SLPP_Stranded
    SLPP_Harness
begin

text \<open>
  \<^bold>\<open>The SLPP tunnel.\<close>  A client program (\<^verbatim>\<open>cmd/slppc\<close>) offers SOCKS5 to local
  applications and carries their TCP streams and UDP datagrams through one long HTTP/2 request to a
  server (\<^verbatim>\<open>cmd/slppd\<close>), which dials the destinations.  Both ends run a session
  (\<^verbatim>\<open>internal/core/session.go\<close>) on the two byte streams of the request: frames with a 20-byte
  header multiplex channels; two bounded queues feed a write loop, a read loop hands frames to a
  handler, a heartbeat queues pings.  The server's handler lets nothing through before a token has
  been accepted by the token store.  This development models these parts and proves them correct
  where they are, and exactly how they behave where they are not.

  \<^bold>\<open>Theories and code.\<close>
  \<^item> \<open>SLPP_Prelude\<close>: bytes, words, Go strings as character lists, big-endian integers, error
    values (with \<^verbatim>\<open>errors.Is\<close> and \<^verbatim>\<open>Error\<close>), the reader and the writer of a
    stream.
  \<^item> \<open>SLPP_Frame\<close>: \<^verbatim>\<open>core/constants.go\<close>, \<^verbatim>\<open>core/frame.go\<close>.  \<open>Encode\<close> and
    \<open>Decode\<close> with every error branch; locale \<open>frame_codec\<close> is the Go interface
    \<^verbatim>\<open>FrameCodec\<close>.
  \<^item> \<open>SLPP_Messages\<close>: \<^verbatim>\<open>core/messages.go\<close>, payload codecs, \<open>FragmentUDP\<close> and the
    reassembler \<open>Add\<close>, against a specification with one slot table per datagram.
  \<^item> \<open>SLPP_Queue\<close>: \<^verbatim>\<open>core/queue.go\<close>, the ring buffer; locale \<open>bounded_fifo\<close>.
  \<^item> \<open>SLPP_Stats\<close>: \<^verbatim>\<open>core/stats.go\<close>, counters as 64-bit words, \<^verbatim>\<open>SafeMap\<close>;
    locale \<open>registry\<close>, which the tables of the relay and the timer wheel interpret as well.
  \<^item> \<open>SLPP_Session\<close>: \<^verbatim>\<open>core/session.go\<close>.  One definition per loop iteration,
    \<^verbatim>\<open>Run\<close> as the step relation \<open>run_step\<close> that interleaves them; locale
    \<open>session_handler\<close> is the interface \<^verbatim>\<open>SessionHandler\<close>, interpreted on the server's
    handler, the tunnel client and \<^verbatim>\<open>noopHandler\<close>.
  \<^item> \<open>SLPP_Base64\<close>, \<open>SLPP_Auth\<close>: \<^verbatim>\<open>auth/token.go\<close>, the token store with its file
    and its replay cache; locale \<open>replay_guard\<close>.
  \<^item> \<open>SLPP_Relay\<close>: \<^verbatim>\<open>relay/tcp.go\<close>, \<^verbatim>\<open>relay/udp.go\<close>; connections are handles
    into a \<open>network\<close>, so that aliasing between tables and copy loops shows; locale
    \<open>relay\<close> is the contract of both managers.
  \<^item> \<open>SLPP_Server\<close>: \<^verbatim>\<open>transport/server.go\<close>, \<open>HandleFrame\<close> with one definition
    per larger case of its switch, and \<open>serve\<close>, runs of a session with its environment.
  \<^item> \<open>SLPP_NetText\<close>, \<open>SLPP_IPv6\<close>: the textual addresses of Go's standard library that
    SOCKS relies on, and that a printed IPv6 address is parsed back.
  \<^item> \<open>SLPP_Socks\<close>, \<open>SLPP_Client\<close>: \<^verbatim>\<open>cmd/slppc/main.go\<close>, the SOCKS formats, the
    tunnel client, SOCKS connections and UDP associations, \<^verbatim>\<open>NewAuthFrame\<close>.
  \<^item> \<open>SLPP_Tunnel\<close>: the read loop of one end on what the write loop of the other has written;
    locale \<open>stream_sink\<close> is the receiving end of a channel, interpreted on the server and on the
    client.
  \<^item> \<open>SLPP_Duplex\<close>, \<open>SLPP_ClientRun\<close>: every step of the server and of the client as events of
    its session (\<open>server_events\<close>, \<open>act_events\<close>), so that what is proved of sessions holds
    of the programs.
  \<^item> \<open>SLPP_Protocol\<close>, \<open>SLPP_Handshake\<close>: both programs together: the traffic is well
    formed, data reaches the other end, a tunnel is set up or refused.
  \<^item> \<open>SLPP_World\<close>: client, server and the wire between them as one step relation
    (\<open>world_step\<close>), whose read loops take frames as the bytes arrive; locale
    \<open>endpoint\<close> is what both programs are for the wire.
  \<^item> \<open>SLPP_Pipe\<close>, \<open>SLPP_Channel\<close>: the abstract specification of a direction of a channel,
    a pipe that may refuse items on the way in and, if it is lossy, lose them at the far end; locales
    \<open>way\<close>, \<open>up_way\<close> and \<open>down_way\<close> are the refinement, interpreted for TCP
    channels and for UDP associations.
  \<^item> \<open>SLPP_ClientProc\<close>: the client's goroutines, one state per SOCKS connection and per
    association, and who owns which channel.
  \<^item> \<open>SLPP_Links\<close>, \<open>SLPP_System\<close>, \<open>SLPP_Connect\<close>, \<open>SLPP_Stranded\<close>: the client's
    goroutines as the client of the composed system.  A step of a goroutine is a short sequence of the
    client's actions (\<open>acts_of\<close>), so that a run of the system (\<open>system_run\<close>) is a run
    of the world; the invariant \<open>links\<close> is what frames on their way say of the two ends of a
    channel; a SOCKS CONNECT is followed from its acceptance to its reply, and on until it ends or is
    left behind by the session.
  \<^item> \<open>SLPP_Admin\<close>: \<^verbatim>\<open>check\<close>, \<^verbatim>\<open>gen-token\<close>, \<^verbatim>\<open>revoke-token\<close> of
    \<^verbatim>\<open>cmd/slppd/main.go\<close>.
  \<^item> \<open>SLPP_Flag\<close>: Go's \<^verbatim>\<open>flag\<close> package.  \<open>SLPP_Api\<close>:
    \<^verbatim>\<open>pkg/api/types.go\<close>, the output envelope and the other types as JSON.  \<open>SLPP_Bench\<close>:
    \<^verbatim>\<open>bench/bench.go\<close>.
  \<^item> \<open>SLPP_Http\<close>: \<^verbatim>\<open>transport/client.go\<close> (the tunnel request, the browser profiles),
    the routes and settings of \<^verbatim>\<open>transport/server.go\<close>, \<^verbatim>\<open>control/server.go\<close>,
    \<^verbatim>\<open>core/config.go\<close>.
  \<^item> \<open>SLPP_Process\<close>, \<open>SLPP_ClientMain\<close>, \<open>SLPP_ServerMain\<close>: \<^verbatim>\<open>main\<close> and the
    commands of both programs: a run is the sequence of its actions (what it prints, starts, calls,
    waits for, and its exit code).
  \<^item> \<open>SLPP_TimerWheel\<close>: \<^verbatim>\<open>core/timerwheel.go\<close>.
  \<^item> \<open>SLPP_Harness\<close>: \<^verbatim>\<open>testutil/harness.go\<close>: the test server, how a test waits for it,
    the echo servers and the SOCKS5 greeting.

  \<^bold>\<open>How the code is represented.\<close>  A struct is a record, a method a function that returns its
  result and the changed records.  Errors are values of \<open>go_error\<close>; a nil error is
  \<open>None\<close>.  Points in time and durations are integers (nanoseconds); a clock reading, random
  bytes, the order in which Go ranges over a map, the outcome of a dial, a read, a file write or of a
  \<^verbatim>\<open>select\<close> are arguments or parts of the state that the environment may change.  A goroutine
  is a sequence of atomic iterations; a function that blocks is cut where it waits.  There is no fuel:
  every recursion is structural or over a list of events, the loop of the address parser and the
  reading of frames from a stream (\<open>frames_in\<close>) have a measure, and the harness's wait for its
  server, which may not end, is a partial function.  Loops that may run for ever are modelled by their iterations, and what is proved of them
  is proved of any number of iterations.

  \<^bold>\<open>What the groups of theorems show.\<close>  Codec, queue and session: a stream of frames
  arrives whole and in order, whatever the interleaving, control before data, within the limits of the
  queues.  Token store: exactly when a credential is accepted, no replay, revocation, persistence.
  Relays and server: nothing before authentication, ordered and isolated delivery per channel, one
  answer per open, deadlines of datagrams across the wrap of their clock, no frame that the writer
  could choke on, how \<^verbatim>\<open>Run\<close> ends.  Client: one result per open, the SOCKS exchange, address
  round trips.  Both programs: whatever either end writes is read whole by the other and understood;
  authentication and the first open succeed exactly as store and dial decide; TCP data arrives in both
  directions.  The composed system: with client, server and network interleaved at will the wire holds
  whole, understood frames at every moment, every TCP channel is a pair of lossless pipes, every UDP
  association a pair of pipes that lose late datagrams only, and nothing gets stuck on its way; in the
  client no channel is ever shared, so each SOCKS connection gets the data of its own channel only.  With
  the client's goroutines in it, a SOCKS CONNECT completes in twelve steps, and whatever else happens the
  connection then stays up and lossless until one of its own two ends stops.  Programs: every run ends with its exit code; what \<^verbatim>\<open>connect\<close>,
  \<^verbatim>\<open>socks5\<close>, \<^verbatim>\<open>run\<close> and \<^verbatim>\<open>stats\<close> do.  Theorems on error behaviour state
  where the code falls short: data dropped when the data queue is full, a session ended by late data,
  a count that goes negative, a revocation that a running server does not see, a proxy that ends
  when it is announced, an open that is never answered, data that overtakes the SOCKS reply, a SOCKS client that hangs up and
  thereby silences all the others.

  \<^bold>\<open>Environment.\<close>  A reader delivers its bytes and then one error; a writer accepts all, or a
  given number of bytes and then fails.  A write on a connection is delivered, or cut short with an
  error once the environment has broken the connection.  Error texts of failed dials are assumed to
  fit a frame where that matters (\<open>short_errors\<close>).  Names of UDP services are a parameter.

  What \<^verbatim>\<open>net/http\<close>, TLS and the operating system answer to the commands is in the
  environments \<open>client_env\<close> and \<open>server_env\<close>.

  \<^bold>\<open>Not modelled.\<close>  HTTP and TLS themselves; JSON as text (values are modelled; the token
  file is the list of records in it); read deadlines, tickers and sleeps.
\<close>

section \<open>Properties of the tunnel\<close>

text \<open>The tunnel carries TCP data from end to end: whatever the client's session queues, in any
  interleaving with its heartbeat and its write loop, when the server's read loop has handled what
  the client wrote, the connection of an open channel has received the payloads of the TCPDATA
  frames that the client's data queue accepted for that channel, whole and in order, except for
  those still queued on the client.\<close>

theorem tunnel_end_to_end:
  assumes "room wr = None" and "written wr = []"
    and "\<forall>ev \<in> set evs. event_ok ev \<and> separated ev"
    and "s = NewSession ident rd wr st hb now" and "t = apply_events evs s"
    and "log = event_log wrote evs s"
    and "authOK h" and "carries ch c (tcp h)"
    and "s_reader sv = \<lparr>avail = written (s_writer t), end_err = e\<rparr>"
    and "\<forall>x \<in> set log. keeps_channel ch c (FrameIn (snd x))"
    and "read_iters HandleFrame now2 (length log) h sv = (Continue, h2, sv2)"
  shows "\<exists>ps. delivered c (snd (tcp h2)) = delivered c (snd (tcp h)) @ ps
    \<and> tcp_payloads ch (map snd (event_log pushed evs s)) = ps @ tcp_payloads ch (q_list (dataQ t))"
proof -
  have good: "server_good ch c h" using assms(7,8) by (simp add: server_good_def)
  have start: "ready s" "\<forall>k. tcp_payloads ch (q_list (queue_of k s)) = []"
    and wire: "written (s_writer t) = written (s_writer s) @ avail (s_reader sv)"
    using assms(1,2,4,9) ready_New by simp_all
  have "\<forall>x \<in> set log. server_keeps ch c (snd x)" using assms(10) by (simp add: server_keeps_def)
  from server_end.wire_delivers [OF start(1) assms(3,5,6) start(2) wire good this assms(11)]
  show ?thesis by blast
qed

theorem tunnel_end_to_end_witness:
  "let f = data_frame FrameTCPDATA 2 [1, 2]; t = apply_events [EvQueue frame_class.Data f, EvWrite] demo_session;
       h = demo_server\<lparr>authOK := True, tcp := snd (TCP_Open 2 ''a:1'' (tcp demo_server))\<rparr>;
       (res, h2, sv2) = read_iters HandleFrame 0 1 h
         (demo_session\<lparr>s_reader := \<lparr>avail = written (s_writer t), end_err = EOF\<rparr>\<rparr>)
   in \<exists>ps. delivered 0 (snd (tcp h2)) = delivered 0 (snd (tcp h)) @ ps
      \<and> [[1, 2]] = ps @ tcp_payloads 2 (q_list (dataQ t))"
proof -
  let ?f = "data_frame FrameTCPDATA 2 [1, 2]"
  let ?evs = "[EvQueue frame_class.Data ?f, EvWrite]"
  let ?h = "demo_server\<lparr>authOK := True, tcp := snd (TCP_Open 2 ''a:1'' (tcp demo_server))\<rparr>"
  let ?t = "apply_events ?evs demo_session"
  let ?sv = "demo_session\<lparr>s_reader := \<lparr>avail = written (s_writer ?t), end_err = EOF\<rparr>\<rparr>"
  define t1 where "t1 = apply_events (map (EvQueue frame_class.Data) [?f]) demo_session"
  define g where "g = fst (stamp ?f t1)"
  have t1: "q_list (dataQ t1) = [?f]" "q_list (controlQ t1) = []"
    using filled_data_queue [OF t1_def [unfolded demo_session_def]] by (simp_all add: data_frame_def)
  have fst1: "apply_event (EvQueue frame_class.Data ?f) demo_session = t1" by (simp add: t1_def)
  have log: "event_log wrote ?evs demo_session = [(frame_class.Data, g)]"
    unfolding event_log.simps fst1 wrote_write g_def by (simp add: t1 wrote_def)
  have g: "ftype g = FrameTCPDATA" "channelID g = 2" "payload g = [1, 2]"
    by (simp_all add: g_def stamp_def Let_def data_frame_def zero_frame_def)
  have tr: "transmittable ?f" by (rule transmittable_data_frame) simp_all
  then have ok: "\<forall>ev \<in> set ?evs. event_ok ev \<and> separated ev" by simp
  have new: "demo_session = NewSession 7 \<lparr>avail = [], end_err = EOF\<rparr>
      \<lparr>written = [], room = None, write_err = EOF\<rparr> (NewStats 0) 0 0" by (simp add: demo_session_def)
  have r: "ready demo_session" by (simp add: new ready_New)
  have "\<forall>ev \<in> set ?evs. event_ok ev" using tr by simp
  from events_effect [OF r this, unfolded log]
  have "written (s_writer ?t) = written (s_writer demo_session)
      @ concat (map (frame_wire \<circ> snd) [(frame_class.Data, g)])" by blast
  then have wire: "written (s_writer ?t) = frame_wire g"
    by (simp add: new del: apply_events.simps)
  have w: "tcp demo_server = (NewTCPRelay, new_network (\<lambda>_ _. None))"
    by (simp add: demo_server_def new_handler_def)
  have "tr.table_inv (tcp ?h)"
    using tr.step_inv [OF tcp_table_inv_new, of "OpOpen 2 ''a:1''"] w by simp
  then have car: "carries 2 0 (tcp ?h)"
    by (simp add: carries_def w TCP_Open_def dial_def new_network_def Register_def tcp_conn_def
        healthy_def Let_def)
  have "transmittable g" using tr by (simp add: g_def)
  then have "Decode (s_reader ?sv) = (Inr (frame_defaults g), \<lparr>avail = [], end_err = EOF\<rparr>)"
    using Decode_wire [of g "s_reader ?sv" "[]"] wire by (simp add: transmittable_def)
  moreover have "fst (TCP_Write 2 [1, 2] (tcp ?h)) = None"
    by (simp add: w TCP_Open_def TCP_Write_def dial_def new_network_def Register_def Let_def
        sock_write_def conn_write_def)
  ultimately have "fst (read_iters HandleFrame 0 1 ?h ?sv) = Continue"
    using g by (simp add: readLoop_iter_def HandleFrame_def split_beta Let_def)
  then obtain h2 sv2 where run: "read_iters HandleFrame 0 1 ?h ?sv = (Continue, h2, sv2)"
    by (metis prod.collapse)
  have keep: "\<forall>x \<in> set (event_log wrote ?evs demo_session). keeps_channel 2 0 (FrameIn (snd x))"
    unfolding log using g by simp
  have "length (event_log wrote ?evs demo_session) = 1" unfolding log by simp
  then have run2: "read_iters HandleFrame 0 (length (event_log wrote ?evs demo_session)) ?h ?sv
      = (Continue, h2, sv2)" using run by (simp only:)
  have rd: "s_reader ?sv = \<lparr>avail = written (s_writer ?t), end_err = EOF\<rparr>" and au: "authOK ?h"
    by simp_all
  have "tcp_payloads 2 (map snd (event_log pushed ?evs demo_session)) = [[1, 2]]"
    by (simp add: pushed_def demo_session_def NewSession_def Push_def NewFrameQueue_def Let_def
        data_frame_def zero_frame_def)
  moreover note tunnel_end_to_end [OF _ _ ok new refl refl au car rd keep run2]
  ultimately have "\<exists>ps. delivered 0 (snd (tcp h2)) = delivered 0 (snd (tcp ?h)) @ ps
      \<and> [[1, 2]] = ps @ tcp_payloads 2 (q_list (dataQ ?t))"
    by (simp only: writer.simps simp_thms)
  then show ?thesis unfolding Let_def run by simp
qed

end
